(* ===== verification/Prelude.thy ===== *)
theory Prelude
  imports Main "HOL-Library.Word" "HOL-Library.Monad_Syntax"
begin

section \<open>Prelude: machine types, memory access and byte order\<close>

text \<open>
  What every component shares.

  \<^item> Machine integers: fixed-width fields of the protocol and flag words are words.  A
    \<^verbatim>\<open>size_t\<close> is a natural number below \<open>SIZE_MOD\<close>; where the C code can wrap, the
    wrapping operations \<open>uadd\<close> and \<open>usub\<close> are written out.
  \<^item> Memory: an object is a list of bytes; \<open>mem_read\<close> and \<open>mem_write\<close> are \<open>None\<close> when the
    access leaves the object.  The outer \<open>option\<close> of an operation is therefore undefined
    behaviour, \<^verbatim>\<open>abort()\<close>, \<^verbatim>\<open>fatalx()\<close> or a loop that does not end: a theorem that the
    result is \<open>Some\<close> excludes all of them at once.
  \<^item> Byte order: network order (\<open>be_bytes\<close>, \<open>be_val\<close>) and the order of a little-endian host
    (\<open>le_bytes\<close>, \<open>le_val\<close>), with their round trips.
\<close>

unbundle bit_operations_syntax

type_synonym byte = "8 word"
type_synonym u16 = "16 word"
type_synonym u32 = "32 word"
type_synonym u64 = "64 word"

named_theorems mem_simps \<open>characteristic equations of memory accesses\<close>
named_theorems codec_simps \<open>lengths and round trips of byte encodings\<close>

subsection \<open>size_t\<close>

abbreviation SIZE_MOD :: nat where
  "SIZE_MOD \<equiv> 18446744073709551616"

abbreviation SIZE_MAX :: nat where
  "SIZE_MAX \<equiv> 18446744073709551615"

definition uadd :: "nat \<Rightarrow> nat \<Rightarrow> nat" where
  "uadd a b = (a + b) mod SIZE_MOD"

definition usub :: "nat \<Rightarrow> nat \<Rightarrow> nat" where
  "usub a b = (if b \<le> a then a - b else a + SIZE_MOD - b)"

lemma uadd_eq [simp]: "a + b < SIZE_MOD \<Longrightarrow> uadd a b = a + b"
  by (simp add: uadd_def)

lemma usub_eq [simp]: "b \<le> a \<Longrightarrow> usub a b = a - b"
  by (simp add: usub_def)

lemma uadd_less: "uadd a b < SIZE_MOD"
  by (simp add: uadd_def)

lemma usub_less: "a < SIZE_MOD \<Longrightarrow> b < SIZE_MOD \<Longrightarrow> usub a b < SIZE_MOD"
  by (auto simp: usub_def)

lemma usub_word: "a < SIZE_MOD \<Longrightarrow> b < SIZE_MOD \<Longrightarrow>
    usub a b = unat (of_nat a - of_nat b :: u64)"
  by (auto simp: usub_def unat_sub_if' unat_of_nat)

subsection \<open>Memory\<close>

definition mem_read :: "byte list \<Rightarrow> nat \<Rightarrow> nat \<Rightarrow> byte list option" where
  "mem_read m off n = (if off + n \<le> length m then Some (take n (drop off m)) else None)"

definition mem_write :: "byte list \<Rightarrow> nat \<Rightarrow> byte list \<Rightarrow> byte list option" where
  "mem_write m off ds =
     (if off + length ds \<le> length m
      then Some (take off m @ ds @ drop (off + length ds) m) else None)"

lemma mem_read_Some_iff [mem_simps]:
  "mem_read m off n = Some xs \<longleftrightarrow> off + n \<le> length m \<and> xs = take n (drop off m)"
  by (auto simp: mem_read_def)

lemma mem_read_in [mem_simps]:
  "off + n \<le> length m \<Longrightarrow> mem_read m off n = Some (take n (drop off m))"
  by (simp add: mem_read_def)

lemma mem_write_in [mem_simps]:
  "off + length ds \<le> length m \<Longrightarrow>
     mem_write m off ds = Some (take off m @ ds @ drop (off + length ds) m)"
  by (simp add: mem_write_def)

lemma mem_write_length: "mem_write m off ds = Some m' \<Longrightarrow> length m' = length m"
  by (auto simp: mem_write_def split: if_splits)

lemma mem_read_write: "mem_write m off ds = Some m' \<Longrightarrow>
    mem_read m' off (length ds) = Some ds"
  by (auto simp: mem_write_def mem_read_def split: if_splits)

subsection \<open>Byte order\<close>

primrec le_val :: "byte list \<Rightarrow> nat" where
  "le_val [] = 0"
| "le_val (x # xs) = unat x + 256 * le_val xs"

primrec le_bytes :: "nat \<Rightarrow> nat \<Rightarrow> byte list" where
  "le_bytes 0 v = []"
| "le_bytes (Suc n) v = word_of_nat (v mod 256) # le_bytes n (v div 256)"

definition be_val :: "byte list \<Rightarrow> nat" where
  "be_val xs = le_val (rev xs)"

definition be_bytes :: "nat \<Rightarrow> nat \<Rightarrow> byte list" where
  "be_bytes n v = rev (le_bytes n v)"

lemma length_le_bytes [simp, codec_simps]: "length (le_bytes n v) = n"
  by (induction n arbitrary: v) auto

lemma length_be_bytes [simp, codec_simps]: "length (be_bytes n v) = n"
  by (simp add: be_bytes_def)

lemma unat_less_byte: "unat (x :: byte) < 256"
  using unsigned_less[of x] by simp

lemma le_val_less: "le_val xs < 256 ^ length xs"
proof (induction xs)
  case (Cons x xs)
  have "unat x < 256"
    by (rule unat_less_byte)
  with Cons have "unat x + 256 * le_val xs < 256 + 256 * (256 ^ length xs - 1)"
    by (intro add_less_le_mono) auto
  also have "\<dots> = 256 ^ length (x # xs)"
    by (simp add: algebra_simps)
  finally show ?case by simp
qed simp

lemma le_val_le_bytes [codec_simps]: "le_val (le_bytes n v) = v mod 256 ^ n"
proof (induction n arbitrary: v)
  case (Suc n)
  have "unat (word_of_nat (v mod 256) :: byte) = v mod 256"
    by (simp add: unat_of_nat)
  then show ?case
    using Suc by (simp add: mod_mult2_eq)
qed simp

lemma le_bytes_le_val [codec_simps]: "le_bytes (length xs) (le_val xs) = xs"
proof (induction xs)
  case (Cons x xs)
  have "unat x < 256"
    by (rule unat_less_byte)
  then show ?case
    using Cons by simp
qed simp

lemma be_val_less: "be_val xs < 256 ^ length xs"
  using le_val_less[of "rev xs"] by (simp add: be_val_def)

lemma be_val_be_bytes [codec_simps]: "be_val (be_bytes n v) = v mod 256 ^ n"
  by (simp add: be_val_def be_bytes_def le_val_le_bytes)

lemma be_bytes_be_val [codec_simps]: "be_bytes (length xs) (be_val xs) = xs"
  using le_bytes_le_val[of "rev xs"] by (simp add: be_val_def be_bytes_def)

lemma be_val2_less: "length xs = 2 \<Longrightarrow> be_val xs < 65536"
  using be_val_less[of xs] by simp

lemma be_val4_less: "length xs = 4 \<Longrightarrow> be_val xs < 4294967296"
  using be_val_less[of xs] by simp

subsection \<open>Word bounds\<close>

lemma unat32_less: "unat (w :: u32) < 4294967296"
  using unsigned_less[of w, where 'a=nat] by simp

lemma unat16_less: "unat (w :: u16) < 65536"
  using unsigned_less[of w, where 'a=nat] by simp

lemma unat32_size: "unat (w :: u32) < SIZE_MOD"
  using unat32_less[of w] by linarith

lemma unat_ucast_32_64: "unat (ucast (w :: u32) :: u64) = unat w"
  using unat32_less[of w] by (simp add: unsigned_ucast_eq take_bit_nat_eq_self)

lemma unat_of_nat32: "n < 4294967296 \<Longrightarrow> unat (of_nat n :: u32) = n"
  by (simp add: unsigned_of_nat take_bit_nat_eq_self)

lemma msb32_clear: "(w :: u32) < 2147483648 \<Longrightarrow> \<not> bit w 31"
proof -
  assume "w < 2147483648"
  then have "unat w < 2 ^ 31" by (simp add: word_less_nat_alt)
  then have "\<not> bit (unat w) 31"
    by (metis bit_take_bit_iff less_irrefl take_bit_nat_eq_self)
  then show ?thesis by (simp add: bit_unsigned_iff)
qed

subsection \<open>Lists\<close>

lemma take_drop_take: "i + n \<le> k \<Longrightarrow> take n (drop i (take k xs)) = take n (drop i xs)"
  by (simp add: drop_take min_def)

lemma take_add_drop: "take (m + n) xs = take m xs @ take n (drop m xs)"
  by (rule take_add)

text \<open>Overwriting part of a window of a list is overwriting the window.\<close>

lemma window_write:
  assumes "r + pos + length d \<le> w" "w \<le> length xs"
  shows "take (w - r) (drop r (take (r + pos) xs @ d @ drop (r + pos + length d) xs)) =
     take pos (take (w - r) (drop r xs)) @ d @ drop (pos + length d) (take (w - r) (drop r xs))"
  using assms by (intro nth_equalityI) (auto simp: nth_append add.assoc intro!: arg_cong[where f = "nth xs"])

subsection \<open>The option monad\<close>

lemma bind_Some_iff: "Option.bind m f = Some y \<longleftrightarrow> (\<exists>x. m = Some x \<and> f x = Some y)"
  by (cases m) auto

lemma bind_not_None: "m \<noteq> None \<Longrightarrow> (\<And>x. m = Some x \<Longrightarrow> f x \<noteq> None) \<Longrightarrow>
    Option.bind m f \<noteq> None"
  by (cases m) auto

subsection \<open>Allocation outcomes\<close>

text \<open>
  A function with several allocations takes their outcomes as a list, in the order of the calls; an
  exhausted list stands for successful allocations.
\<close>

fun next_ok :: "bool list \<Rightarrow> bool \<times> bool list" where
  "next_ok [] = (True, [])"
| "next_ok (x # xs) = (x, xs)"

subsection \<open>Postconditions of partial computations\<close>

text \<open>
  \<open>wp m P\<close>: the computation \<open>m\<close> does not fail and its result satisfies \<open>P\<close>; \<open>wlp m P\<close>: its result, if there
  is one, satisfies \<open>P\<close>.
\<close>

definition wp :: "'a option \<Rightarrow> ('a \<Rightarrow> bool) \<Rightarrow> bool" where
  "wp m P \<longleftrightarrow> (\<exists>x. m = Some x \<and> P x)"

definition wlp :: "'a option \<Rightarrow> ('a \<Rightarrow> bool) \<Rightarrow> bool" where
  "wlp m P \<longleftrightarrow> (\<forall>x. m = Some x \<longrightarrow> P x)"

lemma wp_simps [simp]:
  "wp (Some x) P = P x" "\<not> wp None P"
  by (auto simp: wp_def)

lemma wlp_simps [simp]:
  "wlp (Some x) P = P x" "wlp None P"
  by (auto simp: wlp_def)

lemma wp_mono: "wp m P \<Longrightarrow> (\<And>x. P x \<Longrightarrow> Q x) \<Longrightarrow> wp m Q"
  by (auto simp: wp_def)

lemma wlp_mono: "wlp m P \<Longrightarrow> (\<And>x. P x \<Longrightarrow> Q x) \<Longrightarrow> wlp m Q"
  by (auto simp: wlp_def)

lemma wlpD: "wlp m P \<Longrightarrow> m = Some x \<Longrightarrow> P x"
  by (simp add: wlp_def)

lemma wlpI: "(\<And>x. m = Some x \<Longrightarrow> P x) \<Longrightarrow> wlp m P"
  by (simp add: wlp_def)

lemma wp_iff: "wp m P \<longleftrightarrow> (\<exists>x. m = Some x) \<and> wlp m P"
  by (auto simp: wp_def wlp_def)

lemma wp_if: "(b \<Longrightarrow> wp m P) \<Longrightarrow> (\<not> b \<Longrightarrow> wp n P) \<Longrightarrow> wp (if b then m else n) P"
  by simp

lemma wlp_if: "(b \<Longrightarrow> wlp m P) \<Longrightarrow> (\<not> b \<Longrightarrow> wlp n P) \<Longrightarrow> wlp (if b then m else n) P"
  by simp

lemma wp_case_option: "(x = None \<Longrightarrow> wp m P) \<Longrightarrow> (\<And>y. x = Some y \<Longrightarrow> wp (f y) P) \<Longrightarrow>
    wp (case x of None \<Rightarrow> m | Some y \<Rightarrow> f y) P"
  by (cases x) auto

lemma wlp_case_option: "(x = None \<Longrightarrow> wlp m P) \<Longrightarrow> (\<And>y. x = Some y \<Longrightarrow> wlp (f y) P) \<Longrightarrow>
    wlp (case x of None \<Rightarrow> m | Some y \<Rightarrow> f y) P"
  by (cases x) auto

lemma wp_case_prod: "(\<And>a b. x = (a, b) \<Longrightarrow> wp (f a b) P) \<Longrightarrow> wp (case x of (a, b) \<Rightarrow> f a b) P"
  by (cases x) auto

lemma wlp_case_prod: "(\<And>a b. x = (a, b) \<Longrightarrow> wlp (f a b) P) \<Longrightarrow> wlp (case x of (a, b) \<Rightarrow> f a b) P"
  by (cases x) auto

lemma wp_let: "wp (f x) P \<Longrightarrow> wp (let y = x in f y) P"
  by simp

lemma wlp_let: "wlp (f x) P \<Longrightarrow> wlp (let y = x in f y) P"
  by simp

lemma wp_case_sum: "(\<And>a. x = Inl a \<Longrightarrow> wp (f a) P) \<Longrightarrow> (\<And>b. x = Inr b \<Longrightarrow> wp (g b) P) \<Longrightarrow>
    wp (case x of Inl a \<Rightarrow> f a | Inr b \<Rightarrow> g b) P"
  by (cases x) auto

lemma wlp_case_sum: "(\<And>a. x = Inl a \<Longrightarrow> wlp (f a) P) \<Longrightarrow> (\<And>b. x = Inr b \<Longrightarrow> wlp (g b) P) \<Longrightarrow>
    wlp (case x of Inl a \<Rightarrow> f a | Inr b \<Rightarrow> g b) P"
  by (cases x) auto

lemma wp_case_bool: "(b \<Longrightarrow> wp m P) \<Longrightarrow> (\<not> b \<Longrightarrow> wp n P) \<Longrightarrow> wp (case b of True \<Rightarrow> m | False \<Rightarrow> n) P"
  by (cases b) auto

lemma wlp_case_bool: "(b \<Longrightarrow> wlp m P) \<Longrightarrow> (\<not> b \<Longrightarrow> wlp n P) \<Longrightarrow> wlp (case b of True \<Rightarrow> m | False \<Rightarrow> n) P"
  by (cases b) auto

text \<open>Sequencing with an intermediate assertion, and the result of a step that is not constrained.\<close>

lemma wp_bind: "wp m Q \<Longrightarrow> (\<And>x. m = Some x \<Longrightarrow> Q x \<Longrightarrow> wp (f x) P) \<Longrightarrow> wp (Option.bind m f) P"
  by (auto simp: wp_def)

lemma wlp_bind: "wlp m Q \<Longrightarrow> (\<And>x. m = Some x \<Longrightarrow> Q x \<Longrightarrow> wlp (f x) P) \<Longrightarrow> wlp (Option.bind m f) P"
  by (auto simp: wlp_def bind_Some_iff)

lemma wlp_any: "(\<And>x. m = Some x \<Longrightarrow> wlp (f x) P) \<Longrightarrow> wlp (Option.bind m f) P"
  by (auto simp: wlp_def bind_Some_iff)

lemmas wp_intros = wp_if wp_case_bool wp_case_option wp_case_prod wp_case_sum wp_let
lemmas wlp_intros = wlp_if wlp_case_bool wlp_case_option wlp_case_prod wlp_case_sum wlp_let

end
