(* ===== verification/Ibuf.thy ===== *)
theory Ibuf
  imports Prelude
begin

section \<open>Message buffers: compat/imsg-buffer.c (ibuf) and iked/imsg_util.c\<close>

text \<open>
  The \<^verbatim>\<open>struct ibuf\<close> and every function on it, in the order of the source, then iked's own
  additions from \<^verbatim>\<open>imsg_util.c\<close>.  A buffer is the record of its C fields; \<open>b_buf\<close> holds the
  allocated bytes.  A pointer into the buffer that a C function returns is the offset of the
  byte in \<open>b_buf\<close>.  The Boolean argument \<open>ok\<close> of an operation that allocates says whether
  the allocations of this call succeed.  Errors are values: \<open>Inl errno\<close> is the C function's
  \<open>-1\<close> or \<open>NULL\<close> with the given \<^verbatim>\<open>errno\<close>; the outer \<open>None\<close> is an access outside the buffer
  or an \<^verbatim>\<open>abort()\<close>.

  The invariant \<open>ibuf_inv\<close> and the abstraction \<open>ibuf_bytes\<close> (the unread bytes) make a buffer
  a byte queue; the locale \<open>byte_fifo\<close> states that contract and \<open>ibuf\<close> interprets it.
\<close>

datatype errno = EINVAL | ERANGE | EBADMSG | ENOMEM

record ibuf =
  b_buf :: "byte list"
  b_size :: nat
  b_max :: nat
  b_wpos :: nat
  b_rpos :: nat
  b_fd :: int

abbreviation IBUF_FD_MARK_ON_STACK :: int where
  "IBUF_FD_MARK_ON_STACK \<equiv> - 2"

subsection \<open>Operations\<close>

definition ibuf_open :: "bool \<Rightarrow> nat \<Rightarrow> errno + ibuf" where
  "ibuf_open ok len =
     (if \<not> ok then Inl ENOMEM
      else Inr \<lparr>b_buf = replicate len 0, b_size = len, b_max = len,
                b_wpos = 0, b_rpos = 0, b_fd = - 1\<rparr>)"

definition ibuf_dynamic :: "bool \<Rightarrow> nat \<Rightarrow> nat \<Rightarrow> errno + ibuf" where
  "ibuf_dynamic ok len mx =
     (if mx = 0 \<or> mx < len then Inl EINVAL
      else if \<not> ok then Inl ENOMEM
      else Inr \<lparr>b_buf = replicate len 0, b_size = len, b_max = mx,
                b_wpos = 0, b_rpos = 0, b_fd = - 1\<rparr>)"

definition ibuf_reserve :: "bool \<Rightarrow> ibuf \<Rightarrow> nat \<Rightarrow> errno + (nat \<times> ibuf)" where
  "ibuf_reserve ok b len =
     (if usub SIZE_MAX (b_wpos b) < len then Inl ERANGE
      else if b_fd b = IBUF_FD_MARK_ON_STACK then Inl EINVAL
      else if b_size b < b_wpos b + len then
        (if b_max b < b_wpos b + len then Inl ERANGE
         else if \<not> ok then Inl ENOMEM
         else Inr (b_wpos b,
                b\<lparr>b_buf := take (b_size b) (b_buf b) @ replicate (b_wpos b + len - b_size b) 0,
                  b_size := b_wpos b + len,
                  b_wpos := b_wpos b + len\<rparr>))
      else Inr (b_wpos b, b\<lparr>b_wpos := b_wpos b + len\<rparr>))"

definition ibuf_data :: "ibuf \<Rightarrow> nat" where
  "ibuf_data b = b_rpos b"

definition ibuf_size :: "ibuf \<Rightarrow> nat" where
  "ibuf_size b = usub (b_wpos b) (b_rpos b)"

definition ibuf_left :: "ibuf \<Rightarrow> nat" where
  "ibuf_left b = (if b_fd b = IBUF_FD_MARK_ON_STACK then 0 else usub (b_max b) (b_wpos b))"

definition ibuf_add :: "bool \<Rightarrow> ibuf \<Rightarrow> byte list \<Rightarrow> (errno + ibuf) option" where
  "ibuf_add ok b data =
     (case ibuf_reserve ok b (length data) of
        Inl e \<Rightarrow> Some (Inl e)
      | Inr (p, b') \<Rightarrow> do {
          m \<leftarrow> mem_write (b_buf b') p data;
          Some (Inr (b'\<lparr>b_buf := m\<rparr>)) })"

definition ibuf_add_ibuf :: "bool \<Rightarrow> ibuf \<Rightarrow> ibuf \<Rightarrow> (errno + ibuf) option" where
  "ibuf_add_ibuf ok b src = do {
     d \<leftarrow> mem_read (b_buf src) (ibuf_data src) (ibuf_size src);
     ibuf_add ok b d }"

definition ibuf_add_n8 :: "bool \<Rightarrow> ibuf \<Rightarrow> u64 \<Rightarrow> (errno + ibuf) option" where
  "ibuf_add_n8 ok b value =
     (if 255 < unat value then Some (Inl EINVAL) else ibuf_add ok b (be_bytes 1 (unat value)))"

definition ibuf_add_n16 :: "bool \<Rightarrow> ibuf \<Rightarrow> u64 \<Rightarrow> (errno + ibuf) option" where
  "ibuf_add_n16 ok b value =
     (if 65535 < unat value then Some (Inl EINVAL) else ibuf_add ok b (be_bytes 2 (unat value)))"

definition ibuf_add_n32 :: "bool \<Rightarrow> ibuf \<Rightarrow> u64 \<Rightarrow> (errno + ibuf) option" where
  "ibuf_add_n32 ok b value =
     (if 4294967295 < unat value then Some (Inl EINVAL)
      else ibuf_add ok b (be_bytes 4 (unat value)))"

definition ibuf_add_n64 :: "bool \<Rightarrow> ibuf \<Rightarrow> u64 \<Rightarrow> (errno + ibuf) option" where
  "ibuf_add_n64 ok b value = ibuf_add ok b (be_bytes 8 (unat value))"

definition ibuf_add_h16 :: "bool \<Rightarrow> ibuf \<Rightarrow> u64 \<Rightarrow> (errno + ibuf) option" where
  "ibuf_add_h16 ok b value =
     (if 65535 < unat value then Some (Inl EINVAL) else ibuf_add ok b (le_bytes 2 (unat value)))"

definition ibuf_add_h32 :: "bool \<Rightarrow> ibuf \<Rightarrow> u64 \<Rightarrow> (errno + ibuf) option" where
  "ibuf_add_h32 ok b value =
     (if 4294967295 < unat value then Some (Inl EINVAL)
      else ibuf_add ok b (le_bytes 4 (unat value)))"

definition ibuf_add_h64 :: "bool \<Rightarrow> ibuf \<Rightarrow> u64 \<Rightarrow> (errno + ibuf) option" where
  "ibuf_add_h64 ok b value = ibuf_add ok b (le_bytes 8 (unat value))"

definition ibuf_add_zero :: "bool \<Rightarrow> ibuf \<Rightarrow> nat \<Rightarrow> (errno + ibuf) option" where
  "ibuf_add_zero ok b len =
     (case ibuf_reserve ok b len of
        Inl e \<Rightarrow> Some (Inl e)
      | Inr (p, b') \<Rightarrow> do {
          m \<leftarrow> mem_write (b_buf b') p (replicate len 0);
          Some (Inr (b'\<lparr>b_buf := m\<rparr>)) })"

definition ibuf_seek :: "ibuf \<Rightarrow> nat \<Rightarrow> nat \<Rightarrow> errno + nat" where
  "ibuf_seek b pos len =
     (if ibuf_size b < pos \<or> usub SIZE_MAX pos < len \<or> ibuf_size b < pos + len
      then Inl ERANGE else Inr (b_rpos b + pos))"

definition ibuf_set :: "ibuf \<Rightarrow> nat \<Rightarrow> byte list \<Rightarrow> (errno + ibuf) option" where
  "ibuf_set b pos data =
     (case ibuf_seek b pos (length data) of
        Inl e \<Rightarrow> Some (Inl e)
      | Inr p \<Rightarrow> do {
          m \<leftarrow> mem_write (b_buf b) p data;
          Some (Inr (b\<lparr>b_buf := m\<rparr>)) })"

definition ibuf_set_n8 :: "ibuf \<Rightarrow> nat \<Rightarrow> u64 \<Rightarrow> (errno + ibuf) option" where
  "ibuf_set_n8 b pos value =
     (if 255 < unat value then Some (Inl EINVAL) else ibuf_set b pos (be_bytes 1 (unat value)))"

definition ibuf_set_n16 :: "ibuf \<Rightarrow> nat \<Rightarrow> u64 \<Rightarrow> (errno + ibuf) option" where
  "ibuf_set_n16 b pos value =
     (if 65535 < unat value then Some (Inl EINVAL) else ibuf_set b pos (be_bytes 2 (unat value)))"

definition ibuf_set_n32 :: "ibuf \<Rightarrow> nat \<Rightarrow> u64 \<Rightarrow> (errno + ibuf) option" where
  "ibuf_set_n32 b pos value =
     (if 4294967295 < unat value then Some (Inl EINVAL)
      else ibuf_set b pos (be_bytes 4 (unat value)))"

definition ibuf_set_n64 :: "ibuf \<Rightarrow> nat \<Rightarrow> u64 \<Rightarrow> (errno + ibuf) option" where
  "ibuf_set_n64 b pos value = ibuf_set b pos (be_bytes 8 (unat value))"

definition ibuf_set_h16 :: "ibuf \<Rightarrow> nat \<Rightarrow> u64 \<Rightarrow> (errno + ibuf) option" where
  "ibuf_set_h16 b pos value =
     (if 65535 < unat value then Some (Inl EINVAL) else ibuf_set b pos (le_bytes 2 (unat value)))"

definition ibuf_set_h32 :: "ibuf \<Rightarrow> nat \<Rightarrow> u64 \<Rightarrow> (errno + ibuf) option" where
  "ibuf_set_h32 b pos value =
     (if 4294967295 < unat value then Some (Inl EINVAL)
      else ibuf_set b pos (le_bytes 4 (unat value)))"

definition ibuf_set_h64 :: "ibuf \<Rightarrow> nat \<Rightarrow> u64 \<Rightarrow> (errno + ibuf) option" where
  "ibuf_set_h64 b pos value = ibuf_set b pos (le_bytes 8 (unat value))"

definition ibuf_truncate :: "bool \<Rightarrow> ibuf \<Rightarrow> nat \<Rightarrow> (errno + ibuf) option" where
  "ibuf_truncate ok b len =
     (if len \<le> ibuf_size b then Some (Inr (b\<lparr>b_wpos := b_rpos b + len\<rparr>))
      else if b_fd b = IBUF_FD_MARK_ON_STACK then Some (Inl ERANGE)
      else ibuf_add_zero ok b (len - ibuf_size b))"

definition ibuf_rewind :: "ibuf \<Rightarrow> ibuf" where
  "ibuf_rewind b = b\<lparr>b_rpos := 0\<rparr>"

definition ibuf_from_buffer :: "byte list \<Rightarrow> ibuf" where
  "ibuf_from_buffer data =
     \<lparr>b_buf = data, b_size = length data, b_max = 0, b_wpos = length data, b_rpos = 0,
      b_fd = IBUF_FD_MARK_ON_STACK\<rparr>"

definition ibuf_from_ibuf :: "ibuf \<Rightarrow> ibuf option" where
  "ibuf_from_ibuf src = do {
     d \<leftarrow> mem_read (b_buf src) (ibuf_data src) (ibuf_size src);
     Some (ibuf_from_buffer d) }"

definition ibuf_get :: "ibuf \<Rightarrow> nat \<Rightarrow> (errno + (byte list \<times> ibuf)) option" where
  "ibuf_get b len =
     (if ibuf_size b < len then Some (Inl EBADMSG)
      else do {
        d \<leftarrow> mem_read (b_buf b) (ibuf_data b) len;
        Some (Inr (d, b\<lparr>b_rpos := b_rpos b + len\<rparr>)) })"

definition ibuf_get_ibuf :: "ibuf \<Rightarrow> nat \<Rightarrow> (errno + (ibuf \<times> ibuf)) option" where
  "ibuf_get_ibuf b len =
     (if ibuf_size b < len then Some (Inl EBADMSG)
      else do {
        d \<leftarrow> mem_read (b_buf b) (ibuf_data b) len;
        Some (Inr (ibuf_from_buffer d, b\<lparr>b_rpos := b_rpos b + len\<rparr>)) })"

definition ibuf_get_h16 :: "ibuf \<Rightarrow> (errno + (u16 \<times> ibuf)) option" where
  "ibuf_get_h16 b = map_option (map_sum id (apfst (word_of_nat \<circ> le_val))) (ibuf_get b 2)"

definition ibuf_get_h32 :: "ibuf \<Rightarrow> (errno + (u32 \<times> ibuf)) option" where
  "ibuf_get_h32 b = map_option (map_sum id (apfst (word_of_nat \<circ> le_val))) (ibuf_get b 4)"

definition ibuf_get_h64 :: "ibuf \<Rightarrow> (errno + (u64 \<times> ibuf)) option" where
  "ibuf_get_h64 b = map_option (map_sum id (apfst (word_of_nat \<circ> le_val))) (ibuf_get b 8)"

definition ibuf_get_n8 :: "ibuf \<Rightarrow> (errno + (byte \<times> ibuf)) option" where
  "ibuf_get_n8 b = map_option (map_sum id (apfst (word_of_nat \<circ> be_val))) (ibuf_get b 1)"

definition ibuf_get_n16 :: "ibuf \<Rightarrow> (errno + (u16 \<times> ibuf)) option" where
  "ibuf_get_n16 b = map_option (map_sum id (apfst (word_of_nat \<circ> be_val))) (ibuf_get b 2)"

definition ibuf_get_n32 :: "ibuf \<Rightarrow> (errno + (u32 \<times> ibuf)) option" where
  "ibuf_get_n32 b = map_option (map_sum id (apfst (word_of_nat \<circ> be_val))) (ibuf_get b 4)"

definition ibuf_get_n64 :: "ibuf \<Rightarrow> (errno + (u64 \<times> ibuf)) option" where
  "ibuf_get_n64 b = map_option (map_sum id (apfst (word_of_nat \<circ> be_val))) (ibuf_get b 8)"

text \<open>The string \<^verbatim>\<open>strndup\<close> returns ends at the first NUL; the read position advances by \<open>len\<close>.\<close>

definition ibuf_get_string :: "bool \<Rightarrow> ibuf \<Rightarrow> nat \<Rightarrow> (errno + (byte list \<times> ibuf)) option" where
  "ibuf_get_string ok b len =
     (if ibuf_size b < len then Some (Inl EBADMSG)
      else do {
        d \<leftarrow> mem_read (b_buf b) (ibuf_data b) len;
        Some (if \<not> ok then Inl ENOMEM
              else Inr (takeWhile (\<lambda>c. c \<noteq> 0) d, b\<lparr>b_rpos := b_rpos b + len\<rparr>)) })"

definition ibuf_skip :: "ibuf \<Rightarrow> nat \<Rightarrow> errno + ibuf" where
  "ibuf_skip b len =
     (if ibuf_size b < len then Inl EBADMSG else Inr (b\<lparr>b_rpos := b_rpos b + len\<rparr>))"

text \<open>Freeing returns the list of descriptors that the call closes.\<close>

definition ibuf_free :: "ibuf option \<Rightarrow> int list option" where
  "ibuf_free bo =
     (case bo of None \<Rightarrow> Some []
      | Some b \<Rightarrow>
          if b_fd b = IBUF_FD_MARK_ON_STACK then None
          else Some (if 0 \<le> b_fd b then [b_fd b] else []))"

definition ibuf_fd_avail :: "ibuf \<Rightarrow> bool" where
  "ibuf_fd_avail b = (0 \<le> b_fd b)"

definition ibuf_fd_get :: "ibuf \<Rightarrow> int \<times> ibuf" where
  "ibuf_fd_get b = (if b_fd b < 0 then (- 1, b) else (b_fd b, b\<lparr>b_fd := - 1\<rparr>))"

definition ibuf_fd_set :: "ibuf \<Rightarrow> int \<Rightarrow> (int list \<times> ibuf) option" where
  "ibuf_fd_set b fd =
     (if b_fd b = IBUF_FD_MARK_ON_STACK then None
      else Some (if 0 \<le> b_fd b then [b_fd b] else [],
                 b\<lparr>b_fd := (if 0 \<le> fd then fd else - 1)\<rparr>))"

subsection \<open>iked's extensions (imsg_util.c)\<close>

abbreviation IKED_MSGBUF_MAX :: nat where
  "IKED_MSGBUF_MAX \<equiv> 8192"

definition ibuf_new :: "bool \<Rightarrow> byte list option \<Rightarrow> nat \<Rightarrow> (errno + ibuf) option" where
  "ibuf_new ok data len =
     (case ibuf_dynamic ok len IKED_MSGBUF_MAX of
        Inl e \<Rightarrow> Some (Inl e)
      | Inr b \<Rightarrow>
          if len = 0 then Some (Inr b)
          else (case data of
                  None \<Rightarrow> ibuf_add_zero ok b len
                | Some d \<Rightarrow> do { d' \<leftarrow> mem_read d 0 len; ibuf_add ok b d' }))"

definition ibuf_static :: "bool \<Rightarrow> errno + ibuf" where
  "ibuf_static ok = ibuf_open ok IKED_MSGBUF_MAX"

definition ibuf_length :: "ibuf option \<Rightarrow> nat" where
  "ibuf_length bo = (case bo of None \<Rightarrow> 0 | Some b \<Rightarrow> ibuf_size b)"

definition ibuf_getdata :: "bool \<Rightarrow> ibuf \<Rightarrow> nat \<Rightarrow> ((errno + ibuf) \<times> ibuf) option" where
  "ibuf_getdata ok b len = do {
     r \<leftarrow> ibuf_get_ibuf b len;
     (case r of
        Inl e \<Rightarrow> Some (Inl e, b)
      | Inr (tmp, b') \<Rightarrow> do {
          d \<leftarrow> mem_read (b_buf tmp) (ibuf_data tmp) (ibuf_size tmp);
          n \<leftarrow> ibuf_new ok (Some d) (ibuf_size tmp);
          Some (n, b') }) }"

definition ibuf_dup :: "bool \<Rightarrow> ibuf option \<Rightarrow> ibuf option option" where
  "ibuf_dup ok bo =
     (case bo of None \<Rightarrow> Some None
      | Some b \<Rightarrow> do {
          d \<leftarrow> mem_read (b_buf b) (ibuf_data b) (ibuf_size b);
          map_option (case_sum (\<lambda>_. None) Some) (ibuf_new ok (Some d) (ibuf_size b)) })"

text \<open>The bytes \<^verbatim>\<open>arc4random_buf\<close> delivers are the argument \<open>rnd\<close>.\<close>

definition ibuf_random :: "bool \<Rightarrow> (nat \<Rightarrow> byte) \<Rightarrow> nat \<Rightarrow> (errno + ibuf) option" where
  "ibuf_random ok rnd len =
     (case ibuf_open ok len of
        Inl e \<Rightarrow> Some (Inl e)
      | Inr b \<Rightarrow>
          (case ibuf_reserve ok b len of
             Inl e \<Rightarrow> Some (Inl e)
           | Inr (p, b') \<Rightarrow> do {
               m \<leftarrow> mem_write (b_buf b') p (map rnd [0..<len]);
               Some (Inr (b'\<lparr>b_buf := m\<rparr>)) }))"

definition ibuf_setsize :: "ibuf \<Rightarrow> nat \<Rightarrow> ibuf option" where
  "ibuf_setsize b len = (if b_size b < len then None else Some (b\<lparr>b_wpos := len\<rparr>))"

subsection \<open>Invariant and abstraction\<close>

definition ibuf_inv :: "ibuf \<Rightarrow> bool" where
  "ibuf_inv b \<longleftrightarrow>
     b_rpos b \<le> b_wpos b \<and> b_wpos b \<le> b_size b \<and> b_size b = length (b_buf b) \<and>
     b_size b < SIZE_MOD \<and> b_max b < SIZE_MOD \<and>
     (b_fd b \<noteq> IBUF_FD_MARK_ON_STACK \<longrightarrow> b_size b \<le> b_max b)"

definition ibuf_bytes :: "ibuf \<Rightarrow> byte list" where
  "ibuf_bytes b = take (b_wpos b - b_rpos b) (drop (b_rpos b) (b_buf b))"

definition ibuf_writable :: "ibuf \<Rightarrow> bool" where
  "ibuf_writable b \<longleftrightarrow> b_fd b \<noteq> IBUF_FD_MARK_ON_STACK"

lemma ibuf_size_bytes: "ibuf_inv b \<Longrightarrow> ibuf_size b = length (ibuf_bytes b)"
  by (auto simp: ibuf_inv_def ibuf_size_def ibuf_bytes_def)

lemma ibuf_size_less: "ibuf_inv b \<Longrightarrow> ibuf_size b < SIZE_MOD"
  by (auto simp: ibuf_inv_def ibuf_size_def)

lemma ibuf_read_all: "ibuf_inv b \<Longrightarrow>
    mem_read (b_buf b) (ibuf_data b) (ibuf_size b) = Some (ibuf_bytes b)"
  by (auto simp: ibuf_inv_def ibuf_size_def ibuf_bytes_def ibuf_data_def mem_read_def)

lemma ibuf_read_prefix: "ibuf_inv b \<Longrightarrow> n \<le> ibuf_size b \<Longrightarrow>
    mem_read (b_buf b) (ibuf_data b) n = Some (take n (ibuf_bytes b))"
  by (auto simp: ibuf_inv_def ibuf_size_def ibuf_bytes_def ibuf_data_def mem_read_def min_def)

lemma ibuf_open_inv:
  "ibuf_open ok len = Inr b \<Longrightarrow> len < SIZE_MOD \<Longrightarrow>
     ibuf_inv b \<and> ibuf_bytes b = [] \<and> ibuf_writable b \<and> ibuf_left b = len \<and> b_rpos b = 0"
  by (auto simp: ibuf_open_def ibuf_inv_def ibuf_bytes_def ibuf_writable_def ibuf_left_def
      split: if_splits)

lemma ibuf_dynamic_inv:
  "ibuf_dynamic ok len mx = Inr b \<Longrightarrow> mx < SIZE_MOD \<Longrightarrow>
     ibuf_inv b \<and> ibuf_bytes b = [] \<and> ibuf_writable b \<and> ibuf_left b = mx \<and> b_rpos b = 0"
  by (auto simp: ibuf_dynamic_def ibuf_inv_def ibuf_bytes_def ibuf_writable_def ibuf_left_def
      split: if_splits)

lemma ibuf_from_buffer_inv: "length d < SIZE_MOD \<Longrightarrow>
    ibuf_inv (ibuf_from_buffer d) \<and> ibuf_bytes (ibuf_from_buffer d) = d"
  by (auto simp: ibuf_from_buffer_def ibuf_inv_def ibuf_bytes_def)

lemma ibuf_size_from_buffer [simp]: "ibuf_size (ibuf_from_buffer d) = length d"
  by (simp add: ibuf_size_def ibuf_from_buffer_def)

text \<open>
  When \<^verbatim>\<open>ibuf_reserve\<close> succeeds the reserved range lies inside the (possibly grown)
  allocation, the bytes already written keep their values, and the reserved bytes that were
  not allocated before are zero.
\<close>

lemma ibuf_reserve_inv:
  assumes "ibuf_reserve ok b len = Inr (p, b')" and "ibuf_inv b"
  shows "ibuf_inv b' \<and> p = b_wpos b \<and> b_wpos b' = b_wpos b + len \<and> b_rpos b' = b_rpos b \<and>
     b_max b' = b_max b \<and> b_fd b' = b_fd b \<and> ibuf_writable b \<and>
     take (b_wpos b) (b_buf b') = take (b_wpos b) (b_buf b) \<and>
     b_wpos b + len \<le> length (b_buf b') \<and> b_wpos b + len \<le> b_max b"
  using assms by (auto simp: ibuf_reserve_def ibuf_inv_def ibuf_writable_def split: if_splits)

lemma ibuf_reserve_succeeds:
  assumes "ibuf_inv b" "ibuf_writable b" "len \<le> ibuf_left b" "ok \<or> b_wpos b + len \<le> b_size b"
  shows "\<exists>b'. ibuf_reserve ok b len = Inr (b_wpos b, b')"
  using assms by (auto simp: ibuf_reserve_def ibuf_inv_def ibuf_writable_def ibuf_left_def)

text \<open>The complete failure conditions of \<^verbatim>\<open>ibuf_reserve\<close>.\<close>

lemma ibuf_reserve_fails_iff:
  assumes "ibuf_inv b" "len < SIZE_MOD"
  shows "(\<exists>e. ibuf_reserve ok b len = Inl e) \<longleftrightarrow>
     \<not> ibuf_writable b \<or> b_max b < b_wpos b + len \<or> (\<not> ok \<and> b_size b < b_wpos b + len)"
  using assms by (auto simp: ibuf_reserve_def ibuf_inv_def ibuf_writable_def)

lemma ibuf_fill_bytes:
  assumes "ibuf_reserve ok b (length d) = Inr (p, b')" "ibuf_inv b"
    and "mem_write (b_buf b') p d = Some m"
  shows "ibuf_inv (b'\<lparr>b_buf := m\<rparr>) \<and> ibuf_bytes (b'\<lparr>b_buf := m\<rparr>) = ibuf_bytes b @ d"
proof -
  note r = ibuf_reserve_inv[OF assms(1,2)]
  have m: "m = take (b_wpos b) (b_buf b) @ d @ drop (b_wpos b + length d) (b_buf b')"
    using assms(3) r by (auto simp: mem_write_def split: if_splits)
  have len: "length m = length (b_buf b')"
    using assms(3) by (rule mem_write_length)
  have "b_rpos b \<le> b_wpos b" "b_wpos b \<le> length (b_buf b)"
    using assms(2) by (auto simp: ibuf_inv_def)
  then have "ibuf_bytes (b'\<lparr>b_buf := m\<rparr>) = ibuf_bytes b @ d"
    using r by (simp add: ibuf_bytes_def m drop_take)
  moreover have "ibuf_inv (b'\<lparr>b_buf := m\<rparr>)"
    using r len by (auto simp: ibuf_inv_def)
  ultimately show ?thesis by simp
qed

lemma ibuf_add_inv:
  assumes "ibuf_add ok b d = Some (Inr b')" "ibuf_inv b"
  shows "ibuf_inv b' \<and> ibuf_bytes b' = ibuf_bytes b @ d \<and> ibuf_writable b' \<and>
     ibuf_left b' = ibuf_left b - length d \<and> b_rpos b' = b_rpos b \<and> b_fd b' = b_fd b \<and>
     b_max b' = b_max b \<and> b_wpos b' = b_wpos b + length d"
proof -
  from assms(1) obtain p b1 m where r: "ibuf_reserve ok b (length d) = Inr (p, b1)"
    and w: "mem_write (b_buf b1) p d = Some m" and b': "b' = b1\<lparr>b_buf := m\<rparr>"
    by (auto simp: ibuf_add_def bind_Some_iff split: sum.splits)
  show ?thesis
    using ibuf_fill_bytes[OF r assms(2) w] ibuf_reserve_inv[OF r assms(2)] assms(2)
    by (auto simp: b' ibuf_writable_def ibuf_left_def ibuf_inv_def)
qed

lemma ibuf_add_total: "ibuf_inv b \<Longrightarrow> \<exists>r. ibuf_add ok b d = Some r"
  by (auto simp: ibuf_add_def mem_simps dest!: ibuf_reserve_inv split: sum.splits)

lemma ibuf_add_succeeds:
  assumes "ibuf_inv b" "ibuf_writable b" "length d \<le> ibuf_left b"
    "ok \<or> b_wpos b + length d \<le> b_size b"
  shows "\<exists>b'. ibuf_add ok b d = Some (Inr b')"
proof -
  obtain b' where r: "ibuf_reserve ok b (length d) = Inr (b_wpos b, b')"
    using ibuf_reserve_succeeds[OF assms] by blast
  with ibuf_reserve_inv[OF r assms(1)] show ?thesis
    by (auto simp: ibuf_add_def mem_simps)
qed

lemma ibuf_add_room:
  assumes "ibuf_inv b" "ibuf_writable b" "length d \<le> ibuf_left b"
  shows "\<exists>b'. ibuf_add True b d = Some (Inr b') \<and> ibuf_inv b' \<and> ibuf_writable b' \<and>
     ibuf_left b' = ibuf_left b - length d"
  using ibuf_add_succeeds[OF assms] ibuf_add_inv[OF _ assms(1)] by blast

lemma ibuf_add_zero_eq: "ibuf_add_zero ok b len = ibuf_add ok b (replicate len 0)"
  by (simp add: ibuf_add_zero_def ibuf_add_def)

lemma ibuf_get_spec:
  assumes "ibuf_inv b"
  shows "ibuf_get b n =
     (if length (ibuf_bytes b) < n then Some (Inl EBADMSG)
      else Some (Inr (take n (ibuf_bytes b), b\<lparr>b_rpos := b_rpos b + n\<rparr>)))"
  using assms by (simp add: ibuf_get_def ibuf_size_bytes ibuf_read_prefix)

lemma ibuf_advance_inv:
  assumes "ibuf_inv b" "n \<le> length (ibuf_bytes b)"
  shows "ibuf_inv (b\<lparr>b_rpos := b_rpos b + n\<rparr>) \<and>
     ibuf_bytes (b\<lparr>b_rpos := b_rpos b + n\<rparr>) = drop n (ibuf_bytes b)"
  using assms by (auto simp: ibuf_inv_def ibuf_bytes_def drop_take add.commute)

subsection \<open>The byte queue contract\<close>

text \<open>
  What the users of a buffer rely on: bytes come out in the order in which they went in, a
  successful write appends exactly its argument, a read returns exactly the requested number
  of bytes or fails without consuming any.
\<close>

locale byte_fifo =
  fixes inv :: "'b \<Rightarrow> bool"
    and bytes :: "'b \<Rightarrow> byte list"
    and put :: "'b \<Rightarrow> byte list \<Rightarrow> ('e + 'b) option"
    and get :: "'b \<Rightarrow> nat \<Rightarrow> ('e + (byte list \<times> 'b)) option"
  assumes put_total: "inv b \<Longrightarrow> put b d \<noteq> None"
    and put_inv: "inv b \<Longrightarrow> put b d = Some (Inr b') \<Longrightarrow> inv b'"
    and put_bytes: "inv b \<Longrightarrow> put b d = Some (Inr b') \<Longrightarrow> bytes b' = bytes b @ d"
    and get_enough: "inv b \<Longrightarrow> n \<le> length (bytes b) \<Longrightarrow>
          \<exists>b'. get b n = Some (Inr (take n (bytes b), b')) \<and> inv b' \<and> bytes b' = drop n (bytes b)"
    and get_short: "inv b \<Longrightarrow> length (bytes b) < n \<Longrightarrow> \<exists>e. get b n = Some (Inl e)"
begin

lemma get_total: "inv b \<Longrightarrow> get b n \<noteq> None"
  using get_enough get_short by (metis leI option.simps(3))

lemma get_SomeD:
  assumes "inv b" "get b n = Some (Inr (d, b'))"
  shows "n \<le> length (bytes b) \<and> d = take n (bytes b) \<and> inv b' \<and> bytes b' = drop n (bytes b)"
proof (cases "n \<le> length (bytes b)")
  case True
  with get_enough[OF assms(1) True] assms(2) show ?thesis by auto
next
  case False
  with get_short[OF assms(1), of n] assms(2) show ?thesis by auto
qed

lemma get_front: "inv b \<Longrightarrow> bytes b = d @ rest \<Longrightarrow>
    \<exists>b'. get b (length d) = Some (Inr (d, b')) \<and> inv b' \<and> bytes b' = rest"
  using get_enough[of b "length d"] by auto

text \<open>A sequence of writes, and the reads that take it apart again.\<close>

primrec put_all :: "'b \<Rightarrow> byte list list \<Rightarrow> ('e + 'b) option" where
  "put_all b [] = Some (Inr b)"
| "put_all b (d # ds) =
     (case put b d of None \<Rightarrow> None | Some (Inl e) \<Rightarrow> Some (Inl e) | Some (Inr b') \<Rightarrow> put_all b' ds)"

primrec get_all :: "'b \<Rightarrow> nat list \<Rightarrow> ('e + (byte list list \<times> 'b)) option" where
  "get_all b [] = Some (Inr ([], b))"
| "get_all b (n # ns) =
     (case get b n of None \<Rightarrow> None | Some (Inl e) \<Rightarrow> Some (Inl e)
      | Some (Inr (d, b')) \<Rightarrow>
          (case get_all b' ns of None \<Rightarrow> None | Some (Inl e) \<Rightarrow> Some (Inl e)
           | Some (Inr (ds, b'')) \<Rightarrow> Some (Inr (d # ds, b''))))"

lemma put_all_spec: "inv b \<Longrightarrow> put_all b ds = Some (Inr b') \<Longrightarrow>
    inv b' \<and> bytes b' = bytes b @ concat ds"
proof (induction ds arbitrary: b)
  case (Cons d ds)
  then obtain b1 where "put b d = Some (Inr b1)" "put_all b1 ds = Some (Inr b')"
    by (auto split: option.splits sum.splits)
  with Cons.IH[of b1] Cons.prems(1) put_inv put_bytes show ?case by fastforce
qed simp

lemma get_all_concat: "inv b \<Longrightarrow> bytes b = concat ds @ rest \<Longrightarrow>
    \<exists>b'. get_all b (map length ds) = Some (Inr (ds, b')) \<and> inv b' \<and> bytes b' = rest"
proof (induction ds arbitrary: b)
  case (Cons d ds)
  then obtain b1 where g: "get b (length d) = Some (Inr (d, b1))" "inv b1"
      "bytes b1 = concat ds @ rest"
    using get_front[of b d "concat ds @ rest"] by auto
  from Cons.IH[OF g(2,3)] g(1) show ?case by auto
qed simp

theorem fifo: "inv b \<Longrightarrow> bytes b = [] \<Longrightarrow> put_all b ds = Some (Inr b') \<Longrightarrow>
    \<exists>b''. get_all b' (map length ds) = Some (Inr (ds, b'')) \<and> bytes b'' = []"
  using put_all_spec[of b ds b'] get_all_concat[of b' ds "[]"] by auto

end

interpretation bq: byte_fifo ibuf_inv ibuf_bytes "ibuf_add ok" ibuf_get for ok
proof (unfold_locales, goal_cases)
  case (1 b d)
  then show ?case using ibuf_add_total[of b ok d] by auto
next
  case (2 b d b')
  then show ?case using ibuf_add_inv by blast
next
  case (3 b d b')
  then show ?case using ibuf_add_inv by blast
next
  case (4 b n)
  then show ?case by (auto simp: ibuf_get_spec ibuf_advance_inv)
next
  case (5 b n)
  then show ?case by (simp add: ibuf_get_spec)
qed

subsection \<open>Typed fields\<close>

text \<open>A fixed-width integer encoding, and what a queue makes of it.\<close>

locale word_field =
  fixes w :: nat
    and enc :: "nat \<Rightarrow> byte list"
    and dec :: "byte list \<Rightarrow> nat"
  assumes enc_length: "length (enc v) = w"
    and dec_enc: "v < 256 ^ w \<Longrightarrow> dec (enc v) = v"

interpretation be_field: word_field w "be_bytes w" be_val for w
  by unfold_locales (simp_all add: codec_simps)

interpretation le_field: word_field w "le_bytes w" le_val for w
  by unfold_locales (simp_all add: codec_simps)

locale typed_fifo = byte_fifo + word_field
begin

lemma get_field: "inv b \<Longrightarrow> bytes b = enc v @ rest \<Longrightarrow> v < 256 ^ w \<Longrightarrow>
    \<exists>b' d. get b w = Some (Inr (d, b')) \<and> dec d = v \<and> inv b' \<and> bytes b' = rest"
  using get_front[of b "enc v" rest] by (auto simp: enc_length dec_enc)

end

interpretation bq_be: typed_fifo ibuf_inv ibuf_bytes "ibuf_add ok" ibuf_get w "be_bytes w" be_val
  for ok w ..

interpretation bq_le: typed_fifo ibuf_inv ibuf_bytes "ibuf_add ok" ibuf_get w "le_bytes w" le_val
  for ok w ..

lemmas ibuf_add_typed_defs =
  ibuf_add_n8_def ibuf_add_n16_def ibuf_add_n32_def ibuf_add_n64_def
  ibuf_add_h16_def ibuf_add_h32_def ibuf_add_h64_def

lemmas ibuf_set_typed_defs =
  ibuf_set_n8_def ibuf_set_n16_def ibuf_set_n32_def ibuf_set_n64_def
  ibuf_set_h16_def ibuf_set_h32_def ibuf_set_h64_def

lemmas ibuf_get_typed_defs =
  ibuf_get_n8_def ibuf_get_n16_def ibuf_get_n32_def ibuf_get_n64_def
  ibuf_get_h16_def ibuf_get_h32_def ibuf_get_h64_def

lemma ibuf_add_typed_inv:
  assumes "ibuf_inv b"
  shows "ibuf_add_n8 ok b v = Some (Inr b') \<Longrightarrow>
      ibuf_inv b' \<and> ibuf_bytes b' = ibuf_bytes b @ be_bytes 1 (unat v) \<and> unat v < 256 ^ 1"
    and "ibuf_add_n16 ok b v = Some (Inr b') \<Longrightarrow>
      ibuf_inv b' \<and> ibuf_bytes b' = ibuf_bytes b @ be_bytes 2 (unat v) \<and> unat v < 256 ^ 2"
    and "ibuf_add_n32 ok b v = Some (Inr b') \<Longrightarrow>
      ibuf_inv b' \<and> ibuf_bytes b' = ibuf_bytes b @ be_bytes 4 (unat v) \<and> unat v < 256 ^ 4"
    and "ibuf_add_n64 ok b v = Some (Inr b') \<Longrightarrow>
      ibuf_inv b' \<and> ibuf_bytes b' = ibuf_bytes b @ be_bytes 8 (unat v)"
    and "ibuf_add_h16 ok b v = Some (Inr b') \<Longrightarrow>
      ibuf_inv b' \<and> ibuf_bytes b' = ibuf_bytes b @ le_bytes 2 (unat v) \<and> unat v < 256 ^ 2"
    and "ibuf_add_h32 ok b v = Some (Inr b') \<Longrightarrow>
      ibuf_inv b' \<and> ibuf_bytes b' = ibuf_bytes b @ le_bytes 4 (unat v) \<and> unat v < 256 ^ 4"
    and "ibuf_add_h64 ok b v = Some (Inr b') \<Longrightarrow>
      ibuf_inv b' \<and> ibuf_bytes b' = ibuf_bytes b @ le_bytes 8 (unat v)"
  using assms ibuf_add_inv by (auto simp: ibuf_add_typed_defs split: if_splits)

lemma unat64_less: "unat (v :: u64) < 256 ^ 8"
  using unsigned_less[of v] by simp

lemma ibuf_get_typed_front:
  assumes "ibuf_inv b"
  shows "ibuf_bytes b = be_bytes 1 (unat v) @ rest \<Longrightarrow> unat v < 256 ^ 1 \<Longrightarrow>
      \<exists>b'. ibuf_get_n8 b = Some (Inr (word_of_nat (unat v), b')) \<and> ibuf_inv b' \<and> ibuf_bytes b' = rest"
    and "ibuf_bytes b = be_bytes 2 (unat v) @ rest \<Longrightarrow> unat v < 256 ^ 2 \<Longrightarrow>
      \<exists>b'. ibuf_get_n16 b = Some (Inr (word_of_nat (unat v), b')) \<and> ibuf_inv b' \<and> ibuf_bytes b' = rest"
    and "ibuf_bytes b = be_bytes 4 (unat v) @ rest \<Longrightarrow> unat v < 256 ^ 4 \<Longrightarrow>
      \<exists>b'. ibuf_get_n32 b = Some (Inr (word_of_nat (unat v), b')) \<and> ibuf_inv b' \<and> ibuf_bytes b' = rest"
    and "ibuf_bytes b = be_bytes 8 (unat v) @ rest \<Longrightarrow> unat v < 256 ^ 8 \<Longrightarrow>
      \<exists>b'. ibuf_get_n64 b = Some (Inr (word_of_nat (unat v), b')) \<and> ibuf_inv b' \<and> ibuf_bytes b' = rest"
    and "ibuf_bytes b = le_bytes 2 (unat v) @ rest \<Longrightarrow> unat v < 256 ^ 2 \<Longrightarrow>
      \<exists>b'. ibuf_get_h16 b = Some (Inr (word_of_nat (unat v), b')) \<and> ibuf_inv b' \<and> ibuf_bytes b' = rest"
    and "ibuf_bytes b = le_bytes 4 (unat v) @ rest \<Longrightarrow> unat v < 256 ^ 4 \<Longrightarrow>
      \<exists>b'. ibuf_get_h32 b = Some (Inr (word_of_nat (unat v), b')) \<and> ibuf_inv b' \<and> ibuf_bytes b' = rest"
    and "ibuf_bytes b = le_bytes 8 (unat v) @ rest \<Longrightarrow> unat v < 256 ^ 8 \<Longrightarrow>
      \<exists>b'. ibuf_get_h64 b = Some (Inr (word_of_nat (unat v), b')) \<and> ibuf_inv b' \<and> ibuf_bytes b' = rest"
  using bq_be.get_field[OF assms, where rest = rest and v = "unat v"]
    bq_le.get_field[OF assms, where rest = rest and v = "unat v"]
  by (fastforce simp: ibuf_get_typed_defs)+

subsection \<open>Every operation keeps the invariant\<close>

lemma ibuf_seek_inv:
  "ibuf_inv b \<Longrightarrow> ibuf_seek b pos len = Inr p \<Longrightarrow>
     p = b_rpos b + pos \<and> p + len \<le> b_wpos b"
  by (auto simp: ibuf_seek_def ibuf_inv_def ibuf_size_def split: if_splits)

lemma ibuf_seek_iff:
  assumes "ibuf_inv b" "len < SIZE_MOD"
  shows "(\<exists>p. ibuf_seek b pos len = Inr p) \<longleftrightarrow> pos + len \<le> length (ibuf_bytes b)"
proof -
  have "length (ibuf_bytes b) < SIZE_MOD"
    using ibuf_size_less[OF assms(1)] ibuf_size_bytes[OF assms(1)] by simp
  then show ?thesis
    using assms by (auto simp: ibuf_seek_def ibuf_size_bytes usub_def)
qed

lemma ibuf_set_inv:
  assumes "ibuf_inv b" "ibuf_set b pos d = Some (Inr b')"
  shows "ibuf_inv b' \<and> pos + length d \<le> length (ibuf_bytes b) \<and>
     ibuf_bytes b' = take pos (ibuf_bytes b) @ d @ drop (pos + length d) (ibuf_bytes b)"
proof -
  from assms(2) obtain p m where s: "ibuf_seek b pos (length d) = Inr p"
    and w: "mem_write (b_buf b) p d = Some m" and b': "b' = b\<lparr>b_buf := m\<rparr>"
    by (auto simp: ibuf_set_def bind_Some_iff split: sum.splits)
  note p = ibuf_seek_inv[OF assms(1) s]
  have "m = take (b_rpos b + pos) (b_buf b) @ d @ drop (b_rpos b + pos + length d) (b_buf b)"
    using w p by (auto simp: mem_write_def split: if_splits)
  then have "ibuf_bytes b' =
      take pos (ibuf_bytes b) @ d @ drop (pos + length d) (ibuf_bytes b)"
    using p assms(1) window_write[of "b_rpos b" pos d "b_wpos b" "b_buf b"]
    by (simp add: b' ibuf_inv_def ibuf_bytes_def)
  then show ?thesis
    using p assms(1) mem_write_length[OF w] by (auto simp: b' ibuf_inv_def ibuf_bytes_def)
qed

lemma ibuf_set_total: "ibuf_inv b \<Longrightarrow> \<exists>r. ibuf_set b pos d = Some r"
  by (cases "ibuf_seek b pos (length d)")
    (auto simp: ibuf_set_def mem_write_def ibuf_inv_def dest: ibuf_seek_inv[rotated])

lemma ibuf_truncate_inv:
  assumes "ibuf_inv b" "ibuf_truncate ok b len = Some (Inr b')"
  shows "ibuf_inv b' \<and>
     ibuf_bytes b' = take len (ibuf_bytes b) @ replicate (len - length (ibuf_bytes b)) 0"
proof (cases "len \<le> ibuf_size b")
  case True
  then show ?thesis
    using assms by (auto simp: ibuf_truncate_def ibuf_inv_def ibuf_bytes_def ibuf_size_def)
next
  case False
  then show ?thesis
    using assms ibuf_add_inv[of ok b _ b'] ibuf_size_bytes[OF assms(1)]
    by (auto simp: ibuf_truncate_def ibuf_add_zero_eq split: if_splits)
qed

lemma ibuf_truncate_total: "ibuf_inv b \<Longrightarrow> \<exists>r. ibuf_truncate ok b len = Some r"
  using ibuf_add_total by (auto simp: ibuf_truncate_def ibuf_add_zero_eq)

lemma ibuf_rewind_inv: "ibuf_inv b \<Longrightarrow>
    ibuf_inv (ibuf_rewind b) \<and> ibuf_bytes (ibuf_rewind b) = take (b_wpos b) (b_buf b)"
  by (auto simp: ibuf_rewind_def ibuf_inv_def ibuf_bytes_def)

lemma ibuf_get_ibuf_spec:
  assumes "ibuf_inv b"
  shows "ibuf_get_ibuf b n =
     (if length (ibuf_bytes b) < n then Some (Inl EBADMSG)
      else Some (Inr (ibuf_from_buffer (take n (ibuf_bytes b)), b\<lparr>b_rpos := b_rpos b + n\<rparr>)))"
  using assms by (simp add: ibuf_get_ibuf_def ibuf_size_bytes ibuf_read_prefix)

lemma ibuf_get_string_spec:
  assumes "ibuf_inv b"
  shows "ibuf_get_string ok b n =
     (if length (ibuf_bytes b) < n then Some (Inl EBADMSG)
      else if \<not> ok then Some (Inl ENOMEM)
      else Some (Inr (takeWhile (\<lambda>c. c \<noteq> 0) (take n (ibuf_bytes b)),
                      b\<lparr>b_rpos := b_rpos b + n\<rparr>)))"
  using assms by (simp add: ibuf_get_string_def ibuf_size_bytes ibuf_read_prefix)

lemma ibuf_skip_spec: "ibuf_inv b \<Longrightarrow>
    ibuf_skip b n = (if length (ibuf_bytes b) < n then Inl EBADMSG
                     else Inr (b\<lparr>b_rpos := b_rpos b + n\<rparr>))"
  by (simp add: ibuf_skip_def ibuf_size_bytes)

lemma ibuf_bytes_short: "ibuf_inv b \<Longrightarrow> length (ibuf_bytes b) < SIZE_MOD"
  using ibuf_size_less ibuf_size_bytes by metis

lemma ibuf_new_spec:
  assumes "len < SIZE_MOD" "\<And>d. data = Some d \<Longrightarrow> len \<le> length d"
  shows "ibuf_new ok data len =
     (if IKED_MSGBUF_MAX < len then Some (Inl EINVAL)
      else if \<not> ok then Some (Inl ENOMEM)
      else Some (Inr \<lparr>b_buf = (case data of None \<Rightarrow> replicate len 0 | Some d \<Rightarrow> take len d),
                 b_size = len, b_max = IKED_MSGBUF_MAX, b_wpos = len, b_rpos = 0, b_fd = - 1\<rparr>))"
  using assms
  by (cases data)
    (auto simp: ibuf_new_def ibuf_dynamic_def ibuf_add_zero_def ibuf_add_def ibuf_reserve_def
       mem_write_def mem_read_def)

lemma ibuf_new_inv:
  assumes "ibuf_new ok data len = Some (Inr b)" "len < SIZE_MOD"
    "\<And>d. data = Some d \<Longrightarrow> len \<le> length d"
  shows "ibuf_inv b \<and> ibuf_writable b \<and> len \<le> IKED_MSGBUF_MAX \<and> b_rpos b = 0 \<and>
     ibuf_bytes b = (case data of None \<Rightarrow> replicate len 0 | Some d \<Rightarrow> take len d)"
proof -
  have "ibuf_new ok data len = Some (Inr b)" "len < SIZE_MOD"
    by (fact assms)+
  then show ?thesis
    using ibuf_new_spec[OF assms(2), of data ok] assms(3)
    by (auto simp: ibuf_inv_def ibuf_bytes_def ibuf_writable_def split: if_splits option.splits)
qed

text \<open>The buffers that the public functions can produce, in any order of calls.\<close>

inductive ibuf_reach :: "ibuf \<Rightarrow> bool" where
  opened: "len < SIZE_MOD \<Longrightarrow> ibuf_open ok len = Inr b \<Longrightarrow> ibuf_reach b"
| dynamic: "mx < SIZE_MOD \<Longrightarrow> ibuf_dynamic ok len mx = Inr b \<Longrightarrow> ibuf_reach b"
| from_buffer: "length d < SIZE_MOD \<Longrightarrow> ibuf_reach (ibuf_from_buffer d)"
| added: "ibuf_reach b \<Longrightarrow> ibuf_add ok b d = Some (Inr b') \<Longrightarrow> ibuf_reach b'"
| added_zero: "ibuf_reach b \<Longrightarrow> ibuf_add_zero ok b n = Some (Inr b') \<Longrightarrow> ibuf_reach b'"
| reserved: "ibuf_reach b \<Longrightarrow> ibuf_reserve ok b n = Inr (p, b') \<Longrightarrow> ibuf_reach b'"
| stored: "ibuf_reach b \<Longrightarrow> ibuf_set b pos d = Some (Inr b') \<Longrightarrow> ibuf_reach b'"
| truncated: "ibuf_reach b \<Longrightarrow> ibuf_truncate ok b n = Some (Inr b') \<Longrightarrow> ibuf_reach b'"
| rewound: "ibuf_reach b \<Longrightarrow> ibuf_reach (ibuf_rewind b)"
| got: "ibuf_reach b \<Longrightarrow> ibuf_get b n = Some (Inr (d, b')) \<Longrightarrow> ibuf_reach b'"
| got_string: "ibuf_reach b \<Longrightarrow> ibuf_get_string ok b n = Some (Inr (d, b')) \<Longrightarrow> ibuf_reach b'"
| got_ibuf: "ibuf_reach b \<Longrightarrow> ibuf_get_ibuf b n = Some (Inr (nb, b')) \<Longrightarrow> ibuf_reach b'"
| new_ibuf: "ibuf_reach b \<Longrightarrow> ibuf_get_ibuf b n = Some (Inr (nb, b')) \<Longrightarrow> ibuf_reach nb"
| skipped: "ibuf_reach b \<Longrightarrow> ibuf_skip b n = Inr b' \<Longrightarrow> ibuf_reach b'"
| fd_got: "ibuf_reach b \<Longrightarrow> ibuf_fd_get b = (fd, b') \<Longrightarrow> ibuf_reach b'"
| fd_put: "ibuf_reach b \<Longrightarrow> ibuf_fd_set b fd = Some (cl, b') \<Longrightarrow> ibuf_reach b'"
| resized: "ibuf_reach b \<Longrightarrow> ibuf_setsize b n = Some b' \<Longrightarrow> b_rpos b \<le> n \<Longrightarrow> ibuf_reach b'"

lemma ibuf_reach_inv: "ibuf_reach b \<Longrightarrow> ibuf_inv b"
proof (induction rule: ibuf_reach.induct)
  case (added_zero b ok n b')
  then show ?case using ibuf_add_inv by (simp add: ibuf_add_zero_eq)
next
  case (got b n d b')
  then show ?case using bq.get_SomeD by blast
next
  case (got_string b ok n d b')
  then show ?case using ibuf_advance_inv by (auto simp: ibuf_get_string_spec split: if_splits)
next
  case (got_ibuf b n nb b')
  then show ?case using ibuf_advance_inv by (auto simp: ibuf_get_ibuf_spec split: if_splits)
next
  case (new_ibuf b n nb b')
  then have "nb = ibuf_from_buffer (take n (ibuf_bytes b))"
    by (auto simp: ibuf_get_ibuf_spec split: if_splits)
  moreover have "length (take n (ibuf_bytes b)) < SIZE_MOD"
    using ibuf_bytes_short[OF new_ibuf.IH] by simp
  ultimately show ?case using ibuf_from_buffer_inv by simp
next
  case (skipped b n b')
  then show ?case using ibuf_advance_inv by (auto simp: ibuf_skip_spec split: if_splits)
next
  case (fd_got b fd b')
  then show ?case by (auto simp: ibuf_fd_get_def ibuf_inv_def split: if_splits)
next
  case (fd_put b fd cl b')
  then show ?case by (auto simp: ibuf_fd_set_def ibuf_inv_def split: if_splits)
next
  case (resized b n b')
  then show ?case by (auto simp: ibuf_setsize_def ibuf_inv_def split: if_splits)
next
  case (stored b pos d b')
  then show ?case using ibuf_set_inv by blast
next
  case (truncated b ok n b')
  then show ?case using ibuf_truncate_inv by blast
next
  case (added b ok d b')
  then show ?case using ibuf_add_inv by blast
next
  case (reserved b ok n p b')
  then show ?case using ibuf_reserve_inv by blast
qed (simp_all add: ibuf_open_inv ibuf_dynamic_inv ibuf_from_buffer_inv ibuf_rewind_inv)

subsection \<open>Properties\<close>





end
