(* ===== verification/Msgbuf.thy ===== *)
theory Msgbuf
  imports Ibuf
begin

section \<open>Message queues over a byte stream: compat/imsg-buffer.c (msgbuf)\<close>

text \<open>
  The \<^verbatim>\<open>struct msgbuf\<close>: a write queue drained by partial writes and a reader that cuts an
  incoming byte stream into messages.  The function pointer \<^verbatim>\<open>readhdr\<close> (with its argument) is
  the parameter \<open>readhdr\<close> of the reading functions: from the buffer over the header bytes and
  the passed descriptor it returns \<open>NULL\<close> or a buffer for the whole message, and the
  descriptor that is left.  System calls are outcomes: a call takes the list of the results
  that \<^verbatim>\<open>readv\<close>, \<^verbatim>\<open>recvmsg\<close>, \<^verbatim>\<open>writev\<close> or \<^verbatim>\<open>sendmsg\<close> produce when retried; the \<open>int list\<close> in a
  result is the list of descriptors that the call closes.
\<close>

record msgbuf =
  m_bufs :: "ibuf list"
  m_rbufs :: "ibuf list"
  m_queued :: u32
  m_rbuf :: "byte list option"
  m_rpmsg :: "ibuf option"
  m_roff :: nat
  m_hdrsize :: nat

type_synonym readhdr = "ibuf \<Rightarrow> int \<Rightarrow> (ibuf option \<times> int \<times> int list) option"

abbreviation IBUF_READ_SIZE :: nat where
  "IBUF_READ_SIZE \<equiv> 65535"

abbreviation IOV_MAX :: nat where
  "IOV_MAX \<equiv> 1024"

subsection \<open>Queue operations\<close>

definition msgbuf_new :: "bool \<Rightarrow> msgbuf option" where
  "msgbuf_new ok =
     (if \<not> ok then None
      else Some \<lparr>m_bufs = [], m_rbufs = [], m_queued = 0, m_rbuf = None, m_rpmsg = None,
                 m_roff = 0, m_hdrsize = 0\<rparr>)"

text \<open>The bytes of the freshly allocated read buffer are the argument \<open>junk\<close>.\<close>

definition msgbuf_new_reader :: "bool \<Rightarrow> byte list \<Rightarrow> nat \<Rightarrow> errno + msgbuf" where
  "msgbuf_new_reader ok junk hdrsz =
     (if hdrsz = 0 \<or> IBUF_READ_SIZE div 2 < hdrsz then Inl EINVAL
      else if \<not> ok then Inl ENOMEM
      else (case msgbuf_new ok of
              None \<Rightarrow> Inl ENOMEM
            | Some m \<Rightarrow> Inr (m\<lparr>m_rbuf := Some junk, m_hdrsize := hdrsz\<rparr>)))"

definition msgbuf_queuelen :: "msgbuf \<Rightarrow> u32" where
  "msgbuf_queuelen m = m_queued m"

definition msgbuf_read_enqueue :: "msgbuf \<Rightarrow> ibuf \<Rightarrow> msgbuf option" where
  "msgbuf_read_enqueue m b =
     (if b_fd b = IBUF_FD_MARK_ON_STACK then None
      else Some (m\<lparr>m_rbufs := m_rbufs m @ [b]\<rparr>))"

definition msgbuf_enqueue :: "msgbuf \<Rightarrow> ibuf \<Rightarrow> msgbuf option" where
  "msgbuf_enqueue m b =
     (if b_fd b = IBUF_FD_MARK_ON_STACK then None
      else Some (m\<lparr>m_bufs := m_bufs m @ [b], m_queued := m_queued m + 1\<rparr>))"

definition ibuf_close :: "msgbuf \<Rightarrow> ibuf \<Rightarrow> msgbuf option" where
  "ibuf_close m b = msgbuf_enqueue m b"

text \<open>All callers of \<^verbatim>\<open>msgbuf_dequeue\<close> remove the head of the queue.\<close>

definition msgbuf_dequeue :: "msgbuf \<Rightarrow> (int list \<times> msgbuf) option" where
  "msgbuf_dequeue m =
     (case m_bufs m of
        [] \<Rightarrow> None
      | b # bs \<Rightarrow> do {
          cl \<leftarrow> ibuf_free (Some b);
          Some (cl, m\<lparr>m_bufs := bs, m_queued := m_queued m - 1\<rparr>) })"

primrec free_all :: "ibuf list \<Rightarrow> int list option" where
  "free_all [] = Some []"
| "free_all (b # bs) = do { c \<leftarrow> ibuf_free (Some b); cs \<leftarrow> free_all bs; Some (c @ cs) }"

definition msgbuf_clear :: "msgbuf \<Rightarrow> (int list \<times> msgbuf) option" where
  "msgbuf_clear m = do {
     c1 \<leftarrow> free_all (m_bufs m);
     c2 \<leftarrow> free_all (m_rbufs m);
     c3 \<leftarrow> ibuf_free (m_rpmsg m);
     Some (c1 @ c2 @ c3,
           m\<lparr>m_bufs := [], m_queued := 0, m_rbufs := [], m_roff := 0, m_rpmsg := None\<rparr>) }"

definition msgbuf_free :: "msgbuf option \<Rightarrow> int list option" where
  "msgbuf_free mo = (case mo of None \<Rightarrow> Some [] | Some m \<Rightarrow> map_option fst (msgbuf_clear m))"

definition msgbuf_get :: "msgbuf \<Rightarrow> ibuf option \<times> msgbuf" where
  "msgbuf_get m =
     (case m_rbufs m of [] \<Rightarrow> (None, m) | b # bs \<Rightarrow> (Some b, m\<lparr>m_rbufs := bs\<rparr>))"

text \<open>
  \<^verbatim>\<open>msgbuf_drain\<close> runs over the queue; since it removes the buffers from the front, the
  current buffer is the head of the queue in every iteration.
\<close>

fun drain_bufs :: "ibuf list \<Rightarrow> nat \<Rightarrow> (int list \<times> nat \<times> ibuf list) option" where
  "drain_bufs [] n = Some ([], 0, [])"
| "drain_bufs (b # bs) n =
     (if n = 0 then Some ([], 0, b # bs)
      else if ibuf_size b \<le> n then do {
        c \<leftarrow> ibuf_free (Some b);
        (cs, k, bs') \<leftarrow> drain_bufs bs (n - ibuf_size b);
        Some (c @ cs, Suc k, bs') }
      else Some ([], 0, b\<lparr>b_rpos := b_rpos b + n\<rparr> # bs))"

definition msgbuf_drain :: "msgbuf \<Rightarrow> nat \<Rightarrow> (int list \<times> msgbuf) option" where
  "msgbuf_drain m n = do {
     (cl, k, bs) \<leftarrow> drain_bufs (m_bufs m) n;
     Some (cl, m\<lparr>m_bufs := bs, m_queued := m_queued m - of_nat k\<rparr>) }"

subsection \<open>Writing\<close>

datatype wr = Wr_n nat | Wr_intr | Wr_again | Wr_nobufs | Wr_err

text \<open>The scatter list of \<^verbatim>\<open>writev\<close>: the readable bytes of the first \<^verbatim>\<open>IOV_MAX\<close> buffers.\<close>

definition iov_bufs :: "ibuf list \<Rightarrow> ibuf list" where
  "iov_bufs bs = take IOV_MAX bs"

primrec wr_retry :: "wr list \<Rightarrow> wr option" where
  "wr_retry [] = None"
| "wr_retry (r # rs) = (case r of Wr_intr \<Rightarrow> wr_retry rs | _ \<Rightarrow> Some r)"

definition ibuf_write :: "wr list \<Rightarrow> msgbuf \<Rightarrow> (int \<times> int list \<times> msgbuf) option" where
  "ibuf_write rs m =
     (if iov_bufs (m_bufs m) = [] then Some (0, [], m)
      else do {
        r \<leftarrow> wr_retry rs;
        (case r of
           Wr_n n \<Rightarrow> do { (cl, m') \<leftarrow> msgbuf_drain m n; Some (0, cl, m') }
         | Wr_err \<Rightarrow> Some (- 1, [], m)
         | _ \<Rightarrow> Some (0, [], m)) })"

text \<open>
  \<^verbatim>\<open>msgbuf_write\<close> passes at most one descriptor per call: the gathered buffers stop before
  the second buffer that carries one (unless it is the first).  Only the head of the gathered
  list can be \<^verbatim>\<open>buf0\<close>.
\<close>

definition iov_fd_bufs :: "ibuf list \<Rightarrow> ibuf list" where
  "iov_fd_bufs bs =
     (case bs of [] \<Rightarrow> []
      | b # rest \<Rightarrow> b # take (IOV_MAX - 1) (takeWhile (\<lambda>x. b_fd x = - 1) rest))"

definition msgbuf_write :: "wr list \<Rightarrow> msgbuf \<Rightarrow> (int \<times> int list \<times> msgbuf) option" where
  "msgbuf_write rs m =
     (if iov_fd_bufs (m_bufs m) = [] then Some (0, [], m)
      else do {
        r \<leftarrow> wr_retry rs;
        (case r of
           Wr_n n \<Rightarrow>
             (let b0 = hd (m_bufs m);
                  cl0 = (if b_fd b0 \<noteq> - 1 then [b_fd b0] else []);
                  m0 = (if b_fd b0 \<noteq> - 1
                        then m\<lparr>m_bufs := b0\<lparr>b_fd := - 1\<rparr> # tl (m_bufs m)\<rparr> else m)
              in do { (cl, m') \<leftarrow> msgbuf_drain m0 n; Some (0, cl0 @ cl, m') })
         | Wr_err \<Rightarrow> Some (- 1, [], m)
         | _ \<Rightarrow> Some (0, [], m)) })"

subsection \<open>Reading\<close>

datatype rd = Rd_data "byte list" "int list" | Rd_eof | Rd_intr | Rd_msgsize | Rd_again | Rd_err

text \<open>
  One iteration of the loop of \<^verbatim>\<open>ibuf_read_process\<close>, over the state of the loop: the message
  queue, the stack buffer over the unprocessed bytes, the passed descriptor and the descriptors
  closed so far.  \<open>Break\<close> leaves the loop, \<open>Fail\<close> is \<^verbatim>\<open>goto fail\<close>, \<open>Next\<close> reaches the loop
  condition.
\<close>

datatype 's loop = Break 's | Fail 's | Next 's

type_synonym rstate = "msgbuf \<times> ibuf \<times> int \<times> int list"

definition read_fetch :: "readhdr \<Rightarrow> rstate \<Rightarrow> rstate loop option" where
  "read_fetch readhdr s =
     (case s of (m, rbuf, fd, cl) \<Rightarrow>
        if m_rpmsg m \<noteq> None then Some (Next s)
        else if ibuf_size rbuf < m_hdrsize m then Some (Break s)
        else do {
          h \<leftarrow> mem_read (b_buf rbuf) (ibuf_data rbuf) (m_hdrsize m);
          (r, fd', cl') \<leftarrow> readhdr (ibuf_from_buffer h) fd;
          (case r of
             None \<Rightarrow> Some (Fail (m, rbuf, fd', cl @ cl'))
           | Some b \<Rightarrow> Some (Next (m\<lparr>m_rpmsg := Some b\<rparr>, rbuf, fd', cl @ cl'))) })"

definition read_copy :: "bool \<Rightarrow> rstate \<Rightarrow> rstate loop option" where
  "read_copy ok s =
     (case s of (m, rbuf, fd, cl) \<Rightarrow> do {
        p \<leftarrow> m_rpmsg m;
        let sz = (if ibuf_left p \<le> ibuf_size rbuf then ibuf_left p else ibuf_size rbuf);
        g \<leftarrow> ibuf_get_ibuf rbuf sz;
        (case g of
           Inl e \<Rightarrow> Some (Fail s)
         | Inr (msg, rbuf') \<Rightarrow> do {
             a \<leftarrow> ibuf_add_ibuf ok p msg;
             (case a of
                Inl e \<Rightarrow> Some (Fail (m, rbuf', fd, cl))
              | Inr p' \<Rightarrow>
                  if ibuf_left p' = 0 then do {
                    m' \<leftarrow> msgbuf_read_enqueue m p';
                    Some (Next (m'\<lparr>m_rpmsg := None\<rparr>, rbuf', fd, cl)) }
                  else Some (Next (m\<lparr>m_rpmsg := Some p'\<rparr>, rbuf', fd, cl))) }) })"

definition read_iter :: "bool \<Rightarrow> readhdr \<Rightarrow> rstate \<Rightarrow> rstate loop option" where
  "read_iter ok readhdr s = do {
     r \<leftarrow> read_fetch readhdr s;
     (case r of Next s' \<Rightarrow> read_copy ok s' | other \<Rightarrow> Some other) }"

partial_function (option) read_loop ::
    "bool \<Rightarrow> readhdr \<Rightarrow> rstate \<Rightarrow> (bool \<times> rstate) option" where
  "read_loop ok readhdr s = do {
     r \<leftarrow> read_iter ok readhdr s;
     (case r of
        Break s' \<Rightarrow> Some (True, s')
      | Fail s' \<Rightarrow> Some (False, s')
      | Next s' \<Rightarrow>
          if 0 < ibuf_size (fst (snd s')) then read_loop ok readhdr s' else Some (True, s')) }"

definition close_fd :: "int \<Rightarrow> int list" where
  "close_fd fd = (if fd \<noteq> - 1 then [fd] else [])"

definition ibuf_read_process ::
    "bool \<Rightarrow> readhdr \<Rightarrow> msgbuf \<Rightarrow> int \<Rightarrow> (int \<times> int list \<times> msgbuf) option" where
  "ibuf_read_process ok readhdr m fd = do {
     rb \<leftarrow> m_rbuf m;
     d \<leftarrow> mem_read rb 0 (m_roff m);
     (good, m', rbuf, fd', cl) \<leftarrow> read_loop ok readhdr (m, ibuf_from_buffer d, fd, []);
     if good then do {
       rest \<leftarrow> mem_read (b_buf rbuf) (ibuf_data rbuf) (ibuf_size rbuf);
       rb' \<leftarrow> (if 0 < ibuf_size rbuf then mem_write rb 0 rest else Some rb);
       Some (1, cl @ close_fd fd', m'\<lparr>m_rbuf := Some rb', m_roff := ibuf_size rbuf\<rparr>) }
     else Some (- 1, cl @ close_fd fd', m') }"

primrec rd_retry :: "(rd \<Rightarrow> bool) \<Rightarrow> rd list \<Rightarrow> rd option" where
  "rd_retry again [] = None"
| "rd_retry again (r # rs) = (if again r then rd_retry again rs else Some r)"

definition ibuf_read :: "bool \<Rightarrow> readhdr \<Rightarrow> rd list \<Rightarrow> msgbuf \<Rightarrow> (int \<times> int list \<times> msgbuf) option"
  where
  "ibuf_read ok readhdr rs m =
     (case m_rbuf m of
        None \<Rightarrow> Some (- 1, [], m)
      | Some rb \<Rightarrow> do {
          r \<leftarrow> rd_retry (\<lambda>r. r = Rd_intr) rs;
          (case r of
             Rd_data d fds \<Rightarrow> do {
               rb' \<leftarrow> mem_write rb (m_roff m) d;
               ibuf_read_process ok readhdr
                 (m\<lparr>m_rbuf := Some rb', m_roff := m_roff m + length d\<rparr>) (- 1) }
           | Rd_eof \<Rightarrow> Some (0, [], m)
           | Rd_again \<Rightarrow> Some (1, [], m)
           | _ \<Rightarrow> Some (- 1, [], m)) })"

definition msgbuf_read :: "bool \<Rightarrow> readhdr \<Rightarrow> rd list \<Rightarrow> msgbuf \<Rightarrow> (int \<times> int list \<times> msgbuf) option"
  where
  "msgbuf_read ok readhdr rs m =
     (case m_rbuf m of
        None \<Rightarrow> Some (- 1, [], m)
      | Some rb \<Rightarrow> do {
          r \<leftarrow> rd_retry (\<lambda>r. r = Rd_intr \<or> r = Rd_msgsize) rs;
          (case r of
             Rd_data d fds \<Rightarrow> do {
               rb' \<leftarrow> mem_write rb (m_roff m) d;
               (ret, cl, m') \<leftarrow> ibuf_read_process ok readhdr
                 (m\<lparr>m_rbuf := Some rb', m_roff := m_roff m + length d\<rparr>)
                 (case fds of [] \<Rightarrow> - 1 | f # _ \<Rightarrow> f);
               Some (ret, tl fds @ cl, m') }
           | Rd_eof \<Rightarrow> Some (0, [], m)
           | Rd_again \<Rightarrow> Some (1, [], m)
           | _ \<Rightarrow> Some (- 1, [], m)) })"

subsection \<open>The write queue\<close>

definition queue_bytes :: "msgbuf \<Rightarrow> byte list" where
  "queue_bytes m = concat (map ibuf_bytes (m_bufs m))"

definition rbufs_ok :: "msgbuf \<Rightarrow> bool" where
  "rbufs_ok m \<longleftrightarrow> (\<forall>b\<in>set (m_rbufs m). ibuf_inv b \<and> ibuf_writable b)"

definition queue_inv :: "msgbuf \<Rightarrow> bool" where
  "queue_inv m \<longleftrightarrow> (\<forall>b\<in>set (m_bufs m). ibuf_inv b \<and> ibuf_writable b) \<and>
     m_queued m = of_nat (length (m_bufs m))"

lemma ibuf_free_writable: "ibuf_writable b \<Longrightarrow> ibuf_free (Some b) \<noteq> None"
  by (simp add: ibuf_free_def ibuf_writable_def)

lemma msgbuf_new_queue_inv: "msgbuf_new ok = Some m \<Longrightarrow> queue_inv m \<and> queue_bytes m = []"
  by (auto simp: msgbuf_new_def queue_inv_def queue_bytes_def split: if_splits)

lemma msgbuf_enqueue_inv:
  "queue_inv m \<Longrightarrow> ibuf_inv b \<Longrightarrow> ibuf_writable b \<Longrightarrow>
   \<exists>m'. msgbuf_enqueue m b = Some m' \<and> queue_inv m' \<and> queue_bytes m' = queue_bytes m @ ibuf_bytes b"
  by (auto simp: msgbuf_enqueue_def ibuf_writable_def queue_inv_def queue_bytes_def)

text \<open>Draining \<open>n\<close> written bytes removes exactly the first \<open>n\<close> bytes of the queue.\<close>

lemma drain_bufs_spec:
  assumes "\<forall>b\<in>set bs. ibuf_inv b \<and> ibuf_writable b"
  shows "\<exists>cl k bs'. drain_bufs bs n = Some (cl, k, bs') \<and> k + length bs' = length bs \<and>
     concat (map ibuf_bytes bs') = drop n (concat (map ibuf_bytes bs)) \<and>
     (\<forall>b\<in>set bs'. ibuf_inv b \<and> ibuf_writable b) \<and>
     cl = filter (\<lambda>f. 0 \<le> f) (map b_fd (take k bs)) \<and> map b_fd bs' = map b_fd (drop k bs)"
  using assms
proof (induction bs n rule: drain_bufs.induct)
  case (2 b bs n)
  then have b: "ibuf_inv b" "ibuf_writable b" by auto
  show ?case
  proof (cases "n \<noteq> 0 \<and> ibuf_size b \<le> n")
    case True
    then show ?thesis
      using 2 b by (auto simp: ibuf_free_def ibuf_writable_def ibuf_size_bytes)
  next
    case False
    then show ?thesis
      using 2 b ibuf_advance_inv[OF b(1), of n]
      by (auto simp: ibuf_size_bytes ibuf_writable_def)
  qed
qed auto

lemma msgbuf_drain_spec:
  assumes "queue_inv m"
  shows "\<exists>cl m'. msgbuf_drain m n = Some (cl, m') \<and> queue_inv m' \<and>
     queue_bytes m' = drop n (queue_bytes m) \<and> m_rbufs m' = m_rbufs m \<and> m_rbuf m' = m_rbuf m \<and>
     m_rpmsg m' = m_rpmsg m \<and> m_roff m' = m_roff m \<and> m_hdrsize m' = m_hdrsize m"
proof -
  obtain cl k bs' where d: "drain_bufs (m_bufs m) n = Some (cl, k, bs')"
    "k + length bs' = length (m_bufs m)"
    "concat (map ibuf_bytes bs') = drop n (concat (map ibuf_bytes (m_bufs m)))"
    "\<forall>b\<in>set bs'. ibuf_inv b \<and> ibuf_writable b"
    using drain_bufs_spec[of "m_bufs m" n] assms by (auto simp: queue_inv_def)
  have "m_queued m - of_nat k = of_nat (length bs')"
    using assms d(2) by (metis add_diff_cancel_left' of_nat_add queue_inv_def)
  then show ?thesis
    using d by (simp add: msgbuf_drain_def queue_inv_def queue_bytes_def)
qed

lemma msgbuf_write_spec:
  assumes "queue_inv m" "wr_retry rs = Some r"
  shows "\<exists>ret cl m'. msgbuf_write rs m = Some (ret, cl, m') \<and> queue_inv m' \<and>
     queue_bytes m' = (case r of Wr_n n \<Rightarrow> drop n (queue_bytes m) | _ \<Rightarrow> queue_bytes m) \<and>
     (ret = - 1 \<longleftrightarrow> m_bufs m \<noteq> [] \<and> r = Wr_err) \<and> (ret = 0 \<or> ret = - 1)"
proof (cases "m_bufs m")
  case Nil
  then show ?thesis
    using assms by (auto simp: msgbuf_write_def iov_fd_bufs_def queue_bytes_def split: wr.split)
next
  case (Cons b bs)
  let ?m = "if b_fd b \<noteq> - 1 then m\<lparr>m_bufs := b\<lparr>b_fd := - 1\<rparr> # bs\<rparr> else m"
  have m: "queue_inv ?m" "queue_bytes ?m = queue_bytes m"
    using assms(1) Cons
    by (auto simp: queue_inv_def queue_bytes_def ibuf_inv_def ibuf_bytes_def ibuf_writable_def)
  show ?thesis
  proof (cases r)
    case (Wr_n n)
    obtain cl m' where "msgbuf_drain ?m n = Some (cl, m')" "queue_inv m'"
        "queue_bytes m' = drop n (queue_bytes ?m)"
      using msgbuf_drain_spec[OF m(1), of n] by blast
    then show ?thesis
      using Wr_n Cons assms m(2)
      by (auto simp: msgbuf_write_def iov_fd_bufs_def Let_def split: if_splits)
  qed (use Cons assms in \<open>simp_all add: msgbuf_write_def iov_fd_bufs_def\<close>)
qed

lemma ibuf_write_spec:
  assumes "queue_inv m" "wr_retry rs = Some r"
  shows "\<exists>ret cl m'. ibuf_write rs m = Some (ret, cl, m') \<and> queue_inv m' \<and>
     queue_bytes m' = (case r of Wr_n n \<Rightarrow> drop n (queue_bytes m) | _ \<Rightarrow> queue_bytes m) \<and>
     (ret = - 1 \<longleftrightarrow> m_bufs m \<noteq> [] \<and> r = Wr_err) \<and> (ret = 0 \<or> ret = - 1)"
proof (cases "m_bufs m")
  case Nil
  then show ?thesis
    using assms by (auto simp: ibuf_write_def iov_bufs_def queue_bytes_def split: wr.split)
next
  case (Cons b bs)
  show ?thesis
  proof (cases r)
    case (Wr_n n)
    then show ?thesis
      using msgbuf_drain_spec[OF assms(1), of n] Cons assms
      by (auto simp: ibuf_write_def iov_bufs_def)
  qed (use Cons assms in \<open>simp_all add: ibuf_write_def iov_bufs_def\<close>)
qed

lemma free_all_total: "\<forall>b\<in>set bs. ibuf_writable b \<Longrightarrow>
    free_all bs = Some (filter (\<lambda>f. 0 \<le> f) (map b_fd bs))"
  by (induction bs) (auto simp: ibuf_free_def ibuf_writable_def)

subsection \<open>A reader over several reads\<close>

text \<open>
  A descriptor that is polled and read again and again: the chunks are the results of
  \<^verbatim>\<open>recvmsg\<close>; a return value other than 1 ends the connection.
\<close>

fun msgbuf_reads ::
    "bool \<Rightarrow> readhdr \<Rightarrow> (byte list \<times> int list) list \<Rightarrow> msgbuf \<Rightarrow> (bool \<times> msgbuf) option" where
  "msgbuf_reads ok readhdr [] m = Some (True, m)"
| "msgbuf_reads ok readhdr ((d, fds) # cs) m = do {
     (ret, cl, m') \<leftarrow> msgbuf_read ok readhdr [Rd_data d fds] m;
     if ret = 1 then msgbuf_reads ok readhdr cs m' else Some (False, m') }"

subsection \<open>Specification: cutting a stream into frames\<close>

text \<open>
  The abstract reader: \<open>fl\<close> gives the length of a frame from its first \<open>hs\<close> bytes.  The result
  is the list of complete frames and the rest of the stream, or \<open>None\<close> when a header is
  rejected.
\<close>

function frames :: "nat \<Rightarrow> (byte list \<Rightarrow> nat option) \<Rightarrow> byte list \<Rightarrow> (byte list list \<times> byte list) option"
  where
  "frames hs fl s =
     (if length s < hs then Some ([], s)
      else (case fl (take hs s) of
              None \<Rightarrow> None
            | Some n \<Rightarrow>
                if n = 0 \<or> length s < n then Some ([], s)
                else map_option (\<lambda>(fs, r). (take n s # fs, r)) (frames hs fl (drop n s))))"
  by pat_completeness auto
termination
  by (relation "measure (\<lambda>(hs, fl, s). length s)") auto

declare frames.simps [simp del]

lemma frames_short: "length s < hs \<Longrightarrow> frames hs fl s = Some ([], s)"
  by (simp add: frames.simps)

lemma frames_partial: "hs \<le> length s \<Longrightarrow> fl (take hs s) = Some n \<Longrightarrow> length s < n \<Longrightarrow>
    frames hs fl s = Some ([], s)"
  by (simp add: frames.simps)

lemma frames_Cons: "hs \<le> length s \<Longrightarrow> fl (take hs s) = Some n \<Longrightarrow> 0 < n \<Longrightarrow> n \<le> length s \<Longrightarrow>
    frames hs fl s = map_option (\<lambda>(fs, r). (take n s # fs, r)) (frames hs fl (drop n s))"
  by (subst frames.simps) simp

lemma frames_rejected: "hs \<le> length s \<Longrightarrow> fl (take hs s) = None \<Longrightarrow> frames hs fl s = None"
  by (simp add: frames.simps)

text \<open>Reading more of the stream extends the frames found so far.\<close>

lemma frames_append:
  assumes "frames hs fl s = Some (fs, r)" "\<And>h n. fl h = Some n \<Longrightarrow> hs \<le> n" "0 < hs"
  shows "frames hs fl (s @ t) = map_option (\<lambda>(fs', r'). (fs @ fs', r')) (frames hs fl (r @ t))"
  using assms
proof (induction hs fl s arbitrary: fs r rule: frames.induct)
  case (1 hs fl s)
  show ?case
  proof (cases "length s < hs")
    case True
    then have "fs = []" "r = s"
      using "1.prems" by (simp_all add: frames_short)
    then show ?thesis by (simp add: option.map_ident case_prod_beta')
  next
    case False
    then obtain n where n: "fl (take hs s) = Some n"
      using "1.prems"(1) by (cases "fl (take hs s)") (auto simp: frames_rejected)
    then have hn: "hs \<le> n" "0 < n"
      using "1.prems"(2,3) by force+
    show ?thesis
    proof (cases "length s < n")
      case True
      then have "fs = []" "r = s"
        using "1.prems" n False by (simp_all add: frames_partial)
      then show ?thesis by (simp add: option.map_ident case_prod_beta')
    next
      case ns: False
      then obtain fs' where fs': "frames hs fl (drop n s) = Some (fs', r)" "fs = take n s # fs'"
        using "1.prems"(1) n False hn frames_Cons[of hs s fl n] by auto
      have IH: "frames hs fl (drop n s @ t) =
          map_option (\<lambda>(gs, r'). (fs' @ gs, r')) (frames hs fl (r @ t))"
        using "1.IH"[OF False n _ fs'(1) "1.prems"(2,3)] hn ns by simp
      have "frames hs fl (s @ t) =
          map_option (\<lambda>(gs, r). (take n s # gs, r)) (frames hs fl (drop n s @ t))"
        using frames_Cons[of hs "s @ t" fl n] n hn ns False by simp
      then show ?thesis
        by (simp add: IH fs'(2) option.map_comp comp_def case_prod_beta')
    qed
  qed
qed

lemma frames_append_None:
  assumes "frames hs fl s = None" "\<And>h n. fl h = Some n \<Longrightarrow> hs \<le> n" "0 < hs"
  shows "frames hs fl (s @ t) = None"
  using assms
proof (induction hs fl s rule: frames.induct)
  case (1 hs fl s)
  have len: "hs \<le> length s"
    using "1.prems"(1) by (metis frames_short linorder_not_le option.distinct(1))
  show ?case
  proof (cases "fl (take hs s)")
    case None
    then show ?thesis
      using len by (simp add: frames_rejected)
  next
    case (Some n)
    then have n: "hs \<le> n" "0 < n" "n \<le> length s"
      using "1.prems" len frames_partial[of hs s fl n] by (force simp: not_less)+
    then have "frames hs fl (drop n s) = None"
      using "1.prems"(1) frames_Cons[of hs s fl n] len Some by simp
    then have "frames hs fl (drop n s @ t) = None"
      using "1.IH" len Some n "1.prems"(2,3) by (simp add: not_less)
    then show ?thesis
      using frames_Cons[of hs "s @ t" fl n] len Some n by simp
  qed
qed

subsection \<open>The reader's contract\<close>

text \<open>
  What \<^verbatim>\<open>ibuf_read_process\<close> needs from \<^verbatim>\<open>readhdr\<close>: a non-empty, empty-handed heap buffer that
  holds exactly one frame, whose length is at least the header's.
\<close>

locale frame_reader =
  fixes readhdr :: readhdr
    and hs :: nat
    and fl :: "byte list \<Rightarrow> nat option"
    and ok :: bool
  assumes hs_pos: "0 < hs"
    and fl_min: "fl h = Some n \<Longrightarrow> hs \<le> n"
    and readhdr_total: "length h = hs \<Longrightarrow> readhdr (ibuf_from_buffer h) fd \<noteq> None"
    and readhdr_buf: "length h = hs \<Longrightarrow> readhdr (ibuf_from_buffer h) fd = Some (Some b, fd', cl) \<Longrightarrow>
          fl h = Some (ibuf_left b) \<and> ibuf_inv b \<and> ibuf_bytes b = [] \<and> ibuf_writable b \<and>
          b_size b = b_max b"
    and readhdr_null: "length h = hs \<Longrightarrow> readhdr (ibuf_from_buffer h) fd = Some (None, fd', cl) \<Longrightarrow>
          ok \<Longrightarrow> fl h = None"
begin

definition partial :: "msgbuf \<Rightarrow> byte list" where
  "partial m = (case m_rpmsg m of None \<Rightarrow> [] | Some p \<Rightarrow> ibuf_bytes p)"

definition partial_ok :: "msgbuf \<Rightarrow> byte list \<Rightarrow> bool" where
  "partial_ok m pend \<longleftrightarrow>
     (case m_rpmsg m of None \<Rightarrow> True
      | Some p \<Rightarrow> ibuf_inv p \<and> ibuf_writable p \<and> b_size p = b_max p \<and> 0 < ibuf_left p \<and>
          hs \<le> length (ibuf_bytes p @ pend) \<and>
          fl (take hs (ibuf_bytes p @ pend)) = Some (length (ibuf_bytes p) + ibuf_left p))"

definition same_rest :: "msgbuf \<Rightarrow> msgbuf \<Rightarrow> bool" where
  "same_rest m m' \<longleftrightarrow> m_bufs m' = m_bufs m \<and> m_queued m' = m_queued m \<and> m_rbuf m' = m_rbuf m \<and>
     m_roff m' = m_roff m \<and> m_hdrsize m' = m_hdrsize m \<and> (rbufs_ok m \<longrightarrow> rbufs_ok m')"

lemma fetch_Next:
  assumes "m_rpmsg m = None" "hs \<le> length (ibuf_bytes rbuf)" "ibuf_inv rbuf" "m_hdrsize m = hs"
  shows "(\<exists>fd' cl'. read_fetch readhdr (m, rbuf, fd, cl) = Some (Fail (m, rbuf, fd', cl')) \<and>
            (ok \<longrightarrow> fl (take hs (ibuf_bytes rbuf)) = None)) \<or>
     (\<exists>b fd' cl'. read_fetch readhdr (m, rbuf, fd, cl) =
            Some (Next (m\<lparr>m_rpmsg := Some b\<rparr>, rbuf, fd', cl')) \<and>
            partial_ok (m\<lparr>m_rpmsg := Some b\<rparr>) (ibuf_bytes rbuf) \<and> ibuf_bytes b = [])"
proof -
  let ?h = "take hs (ibuf_bytes rbuf)"
  have len: "length ?h = hs" and sz: "hs \<le> ibuf_size rbuf"
    using assms by (simp_all add: ibuf_size_bytes)
  have rd: "mem_read (b_buf rbuf) (ibuf_data rbuf) hs = Some ?h"
    using ibuf_read_prefix[OF assms(3) sz] .
  obtain r fd' cl' where r: "readhdr (ibuf_from_buffer ?h) fd = Some (r, fd', cl')"
    using readhdr_total[OF len, of fd] by (cases "readhdr (ibuf_from_buffer ?h) fd") auto
  show ?thesis
  proof (cases r)
    case None
    then show ?thesis
      using r readhdr_null[OF len, of fd fd' cl'] assms rd sz by (auto simp: read_fetch_def)
  next
    case (Some b)
    note rb = readhdr_buf[OF len, of fd b fd' cl']
    have "0 < ibuf_left b"
      using rb r Some fl_min hs_pos by fastforce
    then show ?thesis
      using r rb Some assms rd sz by (auto simp: read_fetch_def partial_ok_def)
  qed
qed

lemma copy_Next:
  assumes "m_rpmsg m = Some p" "partial_ok m (ibuf_bytes rbuf)" "ibuf_inv rbuf"
  defines "k \<equiv> min (ibuf_left p) (length (ibuf_bytes rbuf))"
  shows "\<exists>m' rbuf'. read_copy ok' (m, rbuf, fd, cl) = Some (Next (m', rbuf', fd, cl)) \<and>
     ibuf_inv rbuf' \<and> ibuf_bytes rbuf' = drop k (ibuf_bytes rbuf) \<and> same_rest m m' \<and>
     (if ibuf_left p \<le> length (ibuf_bytes rbuf)
      then m_rpmsg m' = None \<and> (\<exists>q. m_rbufs m' = m_rbufs m @ [q] \<and>
             ibuf_bytes q = ibuf_bytes p @ take k (ibuf_bytes rbuf))
      else m_rbufs m' = m_rbufs m \<and> (\<exists>q. m_rpmsg m' = Some q \<and>
             ibuf_bytes q = ibuf_bytes p @ ibuf_bytes rbuf \<and> partial_ok m' []))"
proof -
  have p: "ibuf_inv p" "ibuf_writable p" "b_size p = b_max p" "0 < ibuf_left p"
    using assms(1,2) by (auto simp: partial_ok_def)
  let ?d = "take k (ibuf_bytes rbuf)"
  have sz: "(if ibuf_left p \<le> ibuf_size rbuf then ibuf_left p else ibuf_size rbuf) = k"
    using assms(3) by (simp add: k_def ibuf_size_bytes min_def)
  have kl: "k \<le> length (ibuf_bytes rbuf)" "length ?d = k" "k \<le> ibuf_left p"
    by (simp_all add: k_def)
  have g: "ibuf_get_ibuf rbuf k =
      Some (Inr (ibuf_from_buffer ?d, rbuf\<lparr>b_rpos := b_rpos rbuf + k\<rparr>))"
    using ibuf_get_ibuf_spec[OF assms(3), of k] kl by simp
  have "length ?d < SIZE_MOD"
    using ibuf_bytes_short[OF assms(3)] kl by simp
  then have fb: "ibuf_inv (ibuf_from_buffer ?d)" "ibuf_bytes (ibuf_from_buffer ?d) = ?d"
    using ibuf_from_buffer_inv by blast+
  have room: "b_wpos p + length ?d \<le> b_size p"
    using p kl by (auto simp: ibuf_left_def ibuf_writable_def ibuf_inv_def)
  obtain q where q: "ibuf_add ok' p ?d = Some (Inr q)"
    using ibuf_add_succeeds[OF p(1,2), of ?d ok'] kl room by auto
  note qi = ibuf_add_inv[OF q p(1)]
  have bsq: "b_size q = b_max q"
    using q p room by (auto simp: ibuf_add_def ibuf_reserve_def bind_Some_iff split: if_splits)
  have a: "ibuf_add_ibuf ok' p (ibuf_from_buffer ?d) = Some (Inr q)"
    using ibuf_read_all[OF fb(1)] fb(2) q by (simp add: ibuf_add_ibuf_def)
  note adv = ibuf_advance_inv[OF assms(3) kl(1)]
  have lq: "ibuf_left q = ibuf_left p - k"
    using qi kl by simp
  show ?thesis
  proof (cases "ibuf_left p \<le> length (ibuf_bytes rbuf)")
    case True
    then have "ibuf_left q = 0"
      using lq by (simp add: k_def)
    then show ?thesis
      using True assms(1) sz g a qi adv
      by (auto simp: read_copy_def Let_def msgbuf_read_enqueue_def ibuf_writable_def same_rest_def
          rbufs_ok_def)
  next
    case False
    then have k: "k = length (ibuf_bytes rbuf)"
      by (simp add: k_def)
    have l0: "ibuf_left q \<noteq> 0"
      using lq k False by simp
    have "partial_ok (m\<lparr>m_rpmsg := Some q\<rparr>) []"
      using assms(1,2) qi lq k False l0 bsq by (simp add: partial_ok_def)
    then show ?thesis
      using False assms(1) sz g a qi adv l0 k
      by (auto simp: read_copy_def Let_def same_rest_def rbufs_ok_def)
  qed
qed


definition found :: "msgbuf \<Rightarrow> ibuf \<Rightarrow> bool \<times> rstate \<Rightarrow> bool" where
  "found m rbuf res \<longleftrightarrow>
     (case res of (good, m', rbuf', fd', cl') \<Rightarrow>
        same_rest m m' \<and>
        (if good
         then \<exists>fs. frames hs fl (partial m @ ibuf_bytes rbuf) =
                Some (fs, partial m' @ ibuf_bytes rbuf') \<and>
              map ibuf_bytes (m_rbufs m') = map ibuf_bytes (m_rbufs m) @ fs \<and>
              ibuf_inv rbuf' \<and> partial_ok m' (ibuf_bytes rbuf') \<and>
              length (ibuf_bytes rbuf') \<le> length (ibuf_bytes rbuf) \<and>
              (if m_rpmsg m' = None then length (ibuf_bytes rbuf') < hs
               else ibuf_bytes rbuf' = [])
         else ok \<longrightarrow> frames hs fl (partial m @ ibuf_bytes rbuf) = None))"

abbreviation after :: "bool \<Rightarrow> rstate loop \<Rightarrow> (bool \<times> rstate) option" where
  "after ok' r \<equiv>
     (case r of Break s \<Rightarrow> Some (True, s) | Fail s \<Rightarrow> Some (False, s)
      | Next s \<Rightarrow> if 0 < ibuf_size (fst (snd s)) then read_loop ok' readhdr s else Some (True, s))"

lemma copy_found:
  assumes p: "m_rpmsg m = Some p" "partial_ok m (ibuf_bytes rbuf)" "ibuf_inv rbuf"
      "m_hdrsize m = hs"
    and IH: "\<And>m' rbuf'. length (ibuf_bytes rbuf') < length (ibuf_bytes rbuf) \<Longrightarrow> ibuf_inv rbuf' \<Longrightarrow>
        m_hdrsize m' = hs \<Longrightarrow> partial_ok m' (ibuf_bytes rbuf') \<Longrightarrow>
        \<exists>res. read_loop ok' readhdr (m', rbuf', fd, cl) = Some res \<and> found m' rbuf' res"
  shows "\<exists>r res. read_copy ok' (m, rbuf, fd, cl) = Some r \<and> after ok' r = Some res \<and> found m rbuf res"
proof -
  let ?k = "min (ibuf_left p) (length (ibuf_bytes rbuf))" and ?s = "ibuf_bytes p @ ibuf_bytes rbuf"
  obtain m' rbuf' where c: "read_copy ok' (m, rbuf, fd, cl) = Some (Next (m', rbuf', fd, cl))"
    and r': "ibuf_inv rbuf'" "ibuf_bytes rbuf' = drop ?k (ibuf_bytes rbuf)" "same_rest m m'"
    and fin: "ibuf_left p \<le> length (ibuf_bytes rbuf) \<Longrightarrow> m_rpmsg m' = None"
      "ibuf_left p \<le> length (ibuf_bytes rbuf) \<Longrightarrow>
         map ibuf_bytes (m_rbufs m') =
           map ibuf_bytes (m_rbufs m) @ [ibuf_bytes p @ take ?k (ibuf_bytes rbuf)]"
    and more: "\<not> ibuf_left p \<le> length (ibuf_bytes rbuf) \<Longrightarrow>
         m_rbufs m' = m_rbufs m \<and> partial m' = ?s \<and> partial_ok m' []"
    using copy_Next[OF p(1-3), of ok' fd cl] by (auto simp: partial_def split: if_splits)
  have f: "partial m = ibuf_bytes p" "hs \<le> length ?s" "0 < ibuf_left p"
    "fl (take hs ?s) = Some (length (ibuf_bytes p) + ibuf_left p)"
    using p(1,2) by (auto simp: partial_def partial_ok_def)
  show ?thesis
  proof (cases "ibuf_left p \<le> length (ibuf_bytes rbuf)")
    case False
    then have "ibuf_bytes rbuf' = []" "frames hs fl ?s = Some ([], ?s)"
      using r'(2) f frames_partial[of hs ?s fl] by auto
    then have "found m rbuf (True, m', rbuf', fd, cl)"
      using more[OF False] r' f False p(1) hs_pos
      by (auto simp: found_def partial_def split: option.splits)
    moreover have "after ok' (Next (m', rbuf', fd, cl)) = Some (True, m', rbuf', fd, cl)"
      using \<open>ibuf_bytes rbuf' = []\<close> r'(1) by (simp add: ibuf_size_bytes)
    ultimately show ?thesis
      using c by blast
  next
    case True
    then have k: "?k = ibuf_left p" by simp
    have fr: "frames hs fl ?s = map_option (\<lambda>(fs, r). ((ibuf_bytes p @ take ?k (ibuf_bytes rbuf)) # fs, r))
        (frames hs fl (ibuf_bytes rbuf'))"
      using frames_Cons[of hs ?s fl] f(2-4) True r'(2) k by simp
    have pm: "partial m' = []" "partial_ok m' (ibuf_bytes rbuf')" "m_hdrsize m' = hs"
      using fin(1)[OF True] r'(3) p(4) by (auto simp: partial_def partial_ok_def same_rest_def)
    show ?thesis
    proof (cases "ibuf_bytes rbuf' = []")
      case e: True
      then have "found m rbuf (True, m', rbuf', fd, cl)"
        using fr fin[OF True] r' f pm hs_pos by (auto simp: found_def frames_short)
      moreover have "after ok' (Next (m', rbuf', fd, cl)) = Some (True, m', rbuf', fd, cl)"
        using e r'(1) by (simp add: ibuf_size_bytes)
      ultimately show ?thesis
        using c by blast
    next
      case ne: False
      have lt: "length (ibuf_bytes rbuf') < length (ibuf_bytes rbuf)"
        using ne r'(2) k f(3) by (cases "ibuf_bytes rbuf") auto
      obtain res where res: "read_loop ok' readhdr (m', rbuf', fd, cl) = Some res" "found m' rbuf' res"
        using IH[OF lt r'(1) pm(3,2)] by blast
      have "found m rbuf res"
        using res(2) fr fin[OF True] r'(3) f(1) pm(1) lt
        by (auto simp: found_def same_rest_def split: if_splits)
      moreover have "after ok' (Next (m', rbuf', fd, cl)) = Some res"
        using res(1) ne r'(1) by (simp add: ibuf_size_bytes)
      ultimately show ?thesis
        using c by blast
    qed
  qed
qed

text \<open>
  The loop of \<^verbatim>\<open>ibuf_read_process\<close> ends, never leaves its buffers, and finds exactly the frames
  of the specification.
\<close>

lemma loop_found:
  assumes "ibuf_inv rbuf" "m_hdrsize m = hs" "partial_ok m (ibuf_bytes rbuf)"
  shows "\<exists>res. read_loop ok' readhdr (m, rbuf, fd, cl) = Some res \<and> found m rbuf res"
  using assms
proof (induction "length (ibuf_bytes rbuf)" arbitrary: m rbuf fd cl rule: less_induct)
  case less
  have loop: "read_loop ok' readhdr (m, rbuf, fd, cl) = Some res"
    if "read_iter ok' readhdr (m, rbuf, fd, cl) = Some r" "after ok' r = Some res" for r res
    using that by (subst read_loop.simps) simp
  show ?case
  proof (cases "m_rpmsg m")
    case (Some p)
    obtain r res where "read_copy ok' (m, rbuf, fd, cl) = Some r" "after ok' r = Some res"
        "found m rbuf res"
      using copy_found[OF Some less.prems(3,1,2) less.hyps] by blast
    moreover from this have "read_iter ok' readhdr (m, rbuf, fd, cl) = Some r"
      using Some by (simp add: read_iter_def read_fetch_def)
    ultimately show ?thesis
      using loop by blast
  next
    case None
    then have pm: "partial m = []" by (simp add: partial_def)
    consider (short) "length (ibuf_bytes rbuf) < hs" | (hdr) "hs \<le> length (ibuf_bytes rbuf)" by linarith
    then show ?thesis
    proof cases
      case short
      then have "found m rbuf (True, m, rbuf, fd, cl)"
        using None less.prems pm by (auto simp: found_def same_rest_def frames_short)
      moreover have "read_iter ok' readhdr (m, rbuf, fd, cl) = Some (Break (m, rbuf, fd, cl))"
        using None short less.prems by (simp add: read_iter_def read_fetch_def ibuf_size_bytes)
      ultimately show ?thesis
        using loop[of "Break (m, rbuf, fd, cl)"] by simp
    next
      case hdr
      from fetch_Next[OF None hdr less.prems(1,2), of fd cl] show ?thesis
      proof (elim disjE exE conjE)
        fix fd' cl'
        assume a: "read_fetch readhdr (m, rbuf, fd, cl) = Some (Fail (m, rbuf, fd', cl'))"
          "ok \<longrightarrow> fl (take hs (ibuf_bytes rbuf)) = None"
        then have "found m rbuf (False, m, rbuf, fd', cl')"
          using pm hdr by (auto simp: found_def same_rest_def frames_rejected)
        moreover have "read_iter ok' readhdr (m, rbuf, fd, cl) = Some (Fail (m, rbuf, fd', cl'))"
          using a by (simp add: read_iter_def)
        ultimately show ?thesis
          using loop[of "Fail (m, rbuf, fd', cl')"] by simp
      next
        fix b fd' cl'
        let ?m = "m\<lparr>m_rpmsg := Some b\<rparr>"
        assume a: "read_fetch readhdr (m, rbuf, fd, cl) = Some (Next (?m, rbuf, fd', cl'))"
          "partial_ok ?m (ibuf_bytes rbuf)" "ibuf_bytes b = []"
        obtain r res where r: "read_copy ok' (?m, rbuf, fd', cl') = Some r" "after ok' r = Some res"
            "found ?m rbuf res"
          using copy_found[of ?m b rbuf ok' fd' cl', OF _ a(2) less.prems(1) _ less.hyps] less.prems(2)
          by fastforce
        have "found m rbuf res"
          using r(3) pm a(3) by (auto simp: found_def same_rest_def partial_def rbufs_ok_def split: if_splits)
        moreover have "read_iter ok' readhdr (m, rbuf, fd, cl) = Some r"
          using a(1) r(1) by (simp add: read_iter_def)
        ultimately show ?thesis
          using loop r(2) by blast
      qed
    qed
  qed
qed

text \<open>The reader between two reads: the unprocessed bytes are shorter than a header.\<close>

definition reader_inv :: "msgbuf \<Rightarrow> bool" where
  "reader_inv m \<longleftrightarrow> rbufs_ok m \<and> m_hdrsize m = hs \<and> hs \<le> IBUF_READ_SIZE div 2 \<and>
     (\<exists>rb. m_rbuf m = Some rb \<and> length rb = IBUF_READ_SIZE) \<and> partial_ok m [] \<and>
     m_roff m < hs \<and> (m_rpmsg m \<noteq> None \<longrightarrow> m_roff m = 0)"

definition pending :: "msgbuf \<Rightarrow> byte list" where
  "pending m = partial m @ (case m_rbuf m of None \<Rightarrow> [] | Some rb \<Rightarrow> take (m_roff m) rb)"

lemma process_spec:
  assumes "m_rbuf m = Some rb" "length rb = IBUF_READ_SIZE" "m_roff m \<le> IBUF_READ_SIZE"
    "m_hdrsize m = hs" "hs \<le> IBUF_READ_SIZE div 2" "partial_ok m (take (m_roff m) rb)" "rbufs_ok m"
  shows "\<exists>ret cl m'. ibuf_read_process ok' readhdr m fd = Some (ret, cl, m') \<and>
     (ret = 1 \<and> reader_inv m' \<and> m_bufs m' = m_bufs m \<and> m_queued m' = m_queued m \<and>
        (\<exists>fs. frames hs fl (pending m) = Some (fs, pending m') \<and>
              map ibuf_bytes (m_rbufs m') = map ibuf_bytes (m_rbufs m) @ fs) \<or>
      ret = - 1 \<and> (ok \<longrightarrow> frames hs fl (pending m) = None))"
proof -
  let ?d = "take (m_roff m) rb"
  have "length ?d < SIZE_MOD"
    using assms by simp
  note fb = ibuf_from_buffer_inv[OF this]
  obtain good m' rbuf fd' cl where
    l: "read_loop ok' readhdr (m, ibuf_from_buffer ?d, fd, []) = Some (good, m', rbuf, fd', cl)"
    and f: "found m (ibuf_from_buffer ?d) (good, m', rbuf, fd', cl)"
    using loop_found[of "ibuf_from_buffer ?d" m ok' fd "[]"] fb assms by auto
  have rd: "mem_read rb 0 (m_roff m) = Some ?d"
    using assms by (simp add: mem_read_def)
  have pd: "pending m = partial m @ ?d"
    using assms by (simp add: pending_def)
  show ?thesis
  proof (cases good)
    case False
    then have "ibuf_read_process ok' readhdr m fd = Some (- 1, cl @ close_fd fd', m')"
      using assms(1) rd l by (simp add: ibuf_read_process_def)
    moreover have "ok \<longrightarrow> frames hs fl (pending m) = None"
      using f False pd fb by (simp add: found_def)
    ultimately show ?thesis by blast
  next
    case True
    let ?r = "ibuf_bytes rbuf"
    have r: "ibuf_inv rbuf" "length ?r \<le> m_roff m"
      using f True fb assms by (auto simp: found_def)
    define rb' where "rb' = ?r @ drop (length ?r) rb"
    have w: "(if 0 < ibuf_size rbuf then mem_write rb 0 ?r else Some rb) = Some rb'"
      using r assms by (auto simp: mem_write_def rb'_def ibuf_size_bytes)
    let ?m = "m'\<lparr>m_rbuf := Some rb', m_roff := ibuf_size rbuf\<rparr>"
    have pm: "ibuf_read_process ok' readhdr m fd = Some (1, cl @ close_fd fd', ?m)"
      using assms rd l True w ibuf_read_all[OF r(1)] by (simp add: ibuf_read_process_def)
    have "pending ?m = partial m' @ ?r"
      using r by (simp add: pending_def partial_def rb'_def ibuf_size_bytes)
    moreover have "length rb' = IBUF_READ_SIZE" "m_hdrsize m' = hs" "rbufs_ok ?m"
      using r assms f by (simp_all add: rb'_def found_def same_rest_def rbufs_ok_def)
    then have "reader_inv ?m"
      using f True r(1) assms(5) hs_pos
      by (cases "m_rpmsg m'") (auto simp: reader_inv_def found_def ibuf_size_bytes partial_ok_def)
    moreover have "\<exists>fs. frames hs fl (pending m) = Some (fs, partial m' @ ?r) \<and>
        map ibuf_bytes (m_rbufs ?m) = map ibuf_bytes (m_rbufs m) @ fs"
      "m_bufs ?m = m_bufs m" "m_queued ?m = m_queued m"
      using f True pd fb by (auto simp: found_def same_rest_def)
    ultimately show ?thesis
      using pm by simp
  qed
qed

lemma receive_spec:
  assumes "reader_inv m" "m_rbuf m = Some rb" "m_roff m + length d \<le> IBUF_READ_SIZE"
  shows "\<exists>rb'. mem_write rb (m_roff m) d = Some rb' \<and>
    (\<exists>ret cl m'. ibuf_read_process ok' readhdr
        (m\<lparr>m_rbuf := Some rb', m_roff := m_roff m + length d\<rparr>) fd = Some (ret, cl, m') \<and>
     (ret = 1 \<and> reader_inv m' \<and> m_bufs m' = m_bufs m \<and> m_queued m' = m_queued m \<and>
        (\<exists>fs. frames hs fl (pending m @ d) = Some (fs, pending m') \<and>
              map ibuf_bytes (m_rbufs m') = map ibuf_bytes (m_rbufs m) @ fs) \<or>
      ret = - 1 \<and> (ok \<longrightarrow> frames hs fl (pending m @ d) = None)))"
proof -
  have len: "length rb = IBUF_READ_SIZE"
    using assms by (auto simp: reader_inv_def)
  define rb' where "rb' = take (m_roff m) rb @ d @ drop (m_roff m + length d) rb"
  let ?m = "m\<lparr>m_rbuf := Some rb', m_roff := m_roff m + length d\<rparr>"
  have w: "mem_write rb (m_roff m) d = Some rb'"
    using assms(3) len by (simp add: mem_write_def rb'_def)
  have t: "take (m_roff m + length d) rb' = take (m_roff m) rb @ d" "length rb' = IBUF_READ_SIZE"
    using assms(3) len by (auto simp: rb'_def)
  have pd: "pending ?m = pending m @ d"
    using assms t by (simp add: pending_def partial_def)
  have "partial_ok ?m (take (m_roff m + length d) rb')"
    using assms(1,2) t by (auto simp: reader_inv_def partial_ok_def split: option.splits)
  then show ?thesis
    using process_spec[of ?m rb' ok' fd] assms(1,3) t pd w by (simp add: reader_inv_def rbufs_ok_def)
qed

lemma msgbuf_read_spec:
  assumes "reader_inv m" "length d \<le> IBUF_READ_SIZE - m_roff m"
  shows "\<exists>ret cl m'. msgbuf_read ok' readhdr [Rd_data d fds] m = Some (ret, cl, m') \<and>
     (ret = 1 \<and> reader_inv m' \<and> m_bufs m' = m_bufs m \<and> m_queued m' = m_queued m \<and>
        (\<exists>fs. frames hs fl (pending m @ d) = Some (fs, pending m') \<and>
              map ibuf_bytes (m_rbufs m') = map ibuf_bytes (m_rbufs m) @ fs) \<or>
      ret = - 1 \<and> (ok \<longrightarrow> frames hs fl (pending m @ d) = None))"
proof -
  obtain rb where rb: "m_rbuf m = Some rb" and off: "m_roff m + length d \<le> IBUF_READ_SIZE"
    using assms by (auto simp: reader_inv_def)
  let ?fd = "case fds of [] \<Rightarrow> - 1 | f # _ \<Rightarrow> f"
  obtain rb' ret cl m' where "mem_write rb (m_roff m) d = Some rb'"
    and p: "ibuf_read_process ok' readhdr
        (m\<lparr>m_rbuf := Some rb', m_roff := m_roff m + length d\<rparr>) ?fd = Some (ret, cl, m')"
    and q: "ret = 1 \<and> reader_inv m' \<and> m_bufs m' = m_bufs m \<and> m_queued m' = m_queued m \<and>
        (\<exists>fs. frames hs fl (pending m @ d) = Some (fs, pending m') \<and>
              map ibuf_bytes (m_rbufs m') = map ibuf_bytes (m_rbufs m) @ fs) \<or>
      ret = - 1 \<and> (ok \<longrightarrow> frames hs fl (pending m @ d) = None)"
    using receive_spec[OF assms(1) rb off, of ok' ?fd] by blast
  then have "msgbuf_read ok' readhdr [Rd_data d fds] m = Some (ret, tl fds @ cl, m')"
    using rb by (simp add: msgbuf_read_def)
  then show ?thesis
    using q by blast
qed

lemma reads_total:
  assumes "reader_inv m" "\<forall>(d, fds)\<in>set cs. length d \<le> IBUF_READ_SIZE div 2"
  shows "\<exists>good m'. msgbuf_reads ok' readhdr cs m = Some (good, m') \<and> (good \<longrightarrow> reader_inv m')"
  using assms
proof (induction cs arbitrary: m)
  case (Cons c cs)
  obtain d fds where c: "c = (d, fds)" by (cases c)
  have len: "length d \<le> IBUF_READ_SIZE - m_roff m"
    using Cons.prems c by (auto simp: reader_inv_def)
  obtain ret cl m' where r: "msgbuf_read ok' readhdr [Rd_data d fds] m = Some (ret, cl, m')"
      "ret = 1 \<Longrightarrow> reader_inv m'"
    using msgbuf_read_spec[OF Cons.prems(1) len, of ok' fds] by force
  show ?case
    using Cons.IH[of m'] r c Cons.prems(2) by (cases "ret = 1") auto
qed auto

text \<open>
  A stream read in any chunks gives the frames of the whole stream: the messages do not depend
  on how the kernel cuts the stream.
\<close>

lemma reads_spec:
  assumes "reader_inv m" "\<forall>(d, fds)\<in>set cs. length d \<le> IBUF_READ_SIZE div 2" "ok"
    "frames hs fl (pending m @ concat (map fst cs)) = Some (fs, r)"
  shows "\<exists>m'. msgbuf_reads ok' readhdr cs m = Some (True, m') \<and> reader_inv m' \<and> pending m' = r \<and>
     m_bufs m' = m_bufs m \<and> m_queued m' = m_queued m \<and>
     map ibuf_bytes (m_rbufs m') = map ibuf_bytes (m_rbufs m) @ fs"
  using assms
proof (induction cs arbitrary: m fs)
  case Nil
  then have "frames hs fl (pending m) = Some ([], pending m)"
    by (auto simp: reader_inv_def pending_def partial_def partial_ok_def frames_short frames_partial
        split: option.splits)
  then show ?case
    using Nil by auto
next
  case (Cons c cs)
  obtain d fds where c: "c = (d, fds)" by (cases c)
  let ?t = "concat (map fst cs)"
  have len: "length d \<le> IBUF_READ_SIZE - m_roff m"
    using Cons.prems(1,2) c by (auto simp: reader_inv_def)
  have flm: "\<And>h n. fl h = Some n \<Longrightarrow> hs \<le> n"
    using fl_min by blast
  have all: "frames hs fl ((pending m @ d) @ ?t) = Some (fs, r)"
    using Cons.prems(4) c by simp
  have "frames hs fl (pending m @ d) \<noteq> None"
    using all frames_append_None[of hs fl "pending m @ d" ?t] flm hs_pos
    by (metis option.distinct(1))
  then obtain cl m' fs1 where r1: "msgbuf_read ok' readhdr [Rd_data d fds] m = Some (1, cl, m')"
      "reader_inv m'" "m_bufs m' = m_bufs m" "m_queued m' = m_queued m"
      "frames hs fl (pending m @ d) = Some (fs1, pending m')"
      "map ibuf_bytes (m_rbufs m') = map ibuf_bytes (m_rbufs m) @ fs1"
    using msgbuf_read_spec[OF Cons.prems(1) len, of ok' fds] Cons.prems(3) by auto
  obtain fs2 where fs2: "frames hs fl (pending m' @ ?t) = Some (fs2, r)" "fs = fs1 @ fs2"
    using all frames_append[OF r1(5), of ?t] flm hs_pos
    by (cases "frames hs fl (pending m' @ ?t)") auto
  obtain m'' where "msgbuf_reads ok' readhdr cs m' = Some (True, m'')" "reader_inv m''"
      "pending m'' = r" "m_bufs m'' = m_bufs m'" "m_queued m'' = m_queued m'"
      "map ibuf_bytes (m_rbufs m'') = map ibuf_bytes (m_rbufs m') @ fs2"
    using Cons.IH[OF r1(2) _ Cons.prems(3) fs2(1)] Cons.prems(2) by auto
  then show ?case
    using r1 c fs2 by simp
qed

end

end
