(* ===== verification/Imsg.thy ===== *)
theory Imsg
  imports Msgbuf
begin

section \<open>The message layer between the processes: compat/imsg.c\<close>

text \<open>
  Every message starts with the 16 bytes of \<^verbatim>\<open>struct imsg_hdr\<close> in host byte order (little
  endian); bit 31 of \<^verbatim>\<open>len\<close> marks a message that carries a descriptor.  The pointer \<^verbatim>\<open>w\<close> of
  \<^verbatim>\<open>struct imsgbuf\<close> is an option, since \<^verbatim>\<open>imsgbuf_clear\<close> sets it to \<open>NULL\<close>; using it then is the
  outer \<open>None\<close>.
\<close>

record imsg_hdr =
  h_type :: u32
  h_len :: u32
  h_peerid :: u32
  h_pid :: u32

record imsgbuf =
  i_w :: "msgbuf option"
  i_pid :: u32
  i_maxsize :: u32
  i_fd :: int
  i_flags :: u32

record imsg =
  im_hdr :: imsg_hdr
  im_data :: "nat option"
  im_buf :: ibuf

abbreviation IMSG_HEADER_SIZE :: nat where
  "IMSG_HEADER_SIZE \<equiv> 16"

abbreviation MAX_IMSGSIZE :: u32 where
  "MAX_IMSGSIZE \<equiv> 16384"

abbreviation IMSG_ALLOW_FDPASS :: u32 where
  "IMSG_ALLOW_FDPASS \<equiv> 1"

abbreviation IMSG_FD_MARK :: u32 where
  "IMSG_FD_MARK \<equiv> 2147483648"

definition hdr_bytes :: "imsg_hdr \<Rightarrow> byte list" where
  "hdr_bytes h = le_bytes 4 (unat (h_type h)) @ le_bytes 4 (unat (h_len h)) @
     le_bytes 4 (unat (h_peerid h)) @ le_bytes 4 (unat (h_pid h))"

definition hdr_of :: "byte list \<Rightarrow> imsg_hdr" where
  "hdr_of d = \<lparr>h_type = word_of_nat (le_val (take 4 d)),
               h_len = word_of_nat (le_val (take 4 (drop 4 d))),
               h_peerid = word_of_nat (le_val (take 4 (drop 8 d))),
               h_pid = word_of_nat (le_val (take 4 (drop 12 d)))\<rparr>"

subsection \<open>Reading headers\<close>

definition imsg_parse_hdr :: "bool \<Rightarrow> u32 \<Rightarrow> readhdr" where
  "imsg_parse_hdr ok maxsize buf fd = do {
     r \<leftarrow> ibuf_get buf IMSG_HEADER_SIZE;
     (case r of
        Inl e \<Rightarrow> Some (None, fd, [])
      | Inr (d, _) \<Rightarrow>
          (let hdr = hdr_of d; len = h_len hdr AND NOT IMSG_FD_MARK in
           if unat len < IMSG_HEADER_SIZE \<or> maxsize < len then Some (None, fd, [])
           else (case ibuf_open ok (unat len) of
                   Inl e \<Rightarrow> Some (None, fd, [])
                 | Inr b \<Rightarrow>
                     if h_len hdr AND IMSG_FD_MARK \<noteq> 0 then do {
                       (cl, b') \<leftarrow> ibuf_fd_set b fd;
                       Some (Some b', - 1, cl) }
                     else Some (Some b, fd, [])))) }"

subsection \<open>The channel\<close>

definition imsgbuf_init :: "bool \<Rightarrow> byte list \<Rightarrow> u32 \<Rightarrow> int \<Rightarrow> errno + imsgbuf" where
  "imsgbuf_init ok junk pid fd =
     (case msgbuf_new_reader ok junk IMSG_HEADER_SIZE of
        Inl e \<Rightarrow> Inl e
      | Inr w \<Rightarrow> Inr \<lparr>i_w = Some w, i_pid = pid, i_maxsize = MAX_IMSGSIZE, i_fd = fd, i_flags = 0\<rparr>)"

definition imsgbuf_allow_fdpass :: "imsgbuf \<Rightarrow> imsgbuf" where
  "imsgbuf_allow_fdpass ib = ib\<lparr>i_flags := i_flags ib OR IMSG_ALLOW_FDPASS\<rparr>"

definition imsgbuf_set_maxsize :: "imsgbuf \<Rightarrow> u32 \<Rightarrow> errno + imsgbuf" where
  "imsgbuf_set_maxsize ib maxsize =
     (if unat maxsize < IMSG_HEADER_SIZE \<or> maxsize AND IMSG_FD_MARK \<noteq> 0 then Inl EINVAL
      else Inr (ib\<lparr>i_maxsize := maxsize\<rparr>))"

definition imsgbuf_read :: "bool \<Rightarrow> rd list \<Rightarrow> imsgbuf \<Rightarrow> (int \<times> int list \<times> imsgbuf) option" where
  "imsgbuf_read ok rs ib = do {
     w \<leftarrow> i_w ib;
     (ret, cl, w') \<leftarrow>
       (if i_flags ib AND IMSG_ALLOW_FDPASS \<noteq> 0
        then msgbuf_read ok (imsg_parse_hdr ok (i_maxsize ib)) rs w
        else ibuf_read ok (imsg_parse_hdr ok (i_maxsize ib)) rs w);
     Some (ret, cl, ib\<lparr>i_w := Some w'\<rparr>) }"

definition imsgbuf_write :: "wr list \<Rightarrow> imsgbuf \<Rightarrow> (int \<times> int list \<times> imsgbuf) option" where
  "imsgbuf_write rs ib = do {
     w \<leftarrow> i_w ib;
     (ret, cl, w') \<leftarrow>
       (if i_flags ib AND IMSG_ALLOW_FDPASS \<noteq> 0 then msgbuf_write rs w else ibuf_write rs w);
     Some (ret, cl, ib\<lparr>i_w := Some w'\<rparr>) }"

definition imsgbuf_queuelen :: "imsgbuf \<Rightarrow> u32 option" where
  "imsgbuf_queuelen ib = map_option msgbuf_queuelen (i_w ib)"

text \<open>
  \<^verbatim>\<open>imsgbuf_flush\<close> over the outcomes of its successive \<^verbatim>\<open>writev\<close> calls; \<open>None\<close> when they do not
  suffice to end the loop.
\<close>

fun imsgbuf_flush :: "wr list list \<Rightarrow> imsgbuf \<Rightarrow> (int \<times> imsgbuf) option" where
  "imsgbuf_flush rss ib = do {
     n \<leftarrow> imsgbuf_queuelen ib;
     if n = 0 then Some (0, ib)
     else (case rss of
             [] \<Rightarrow> None
           | rs # rss' \<Rightarrow> do {
               (ret, cl, ib') \<leftarrow> imsgbuf_write rs ib;
               if ret = - 1 then Some (- 1, ib') else imsgbuf_flush rss' ib' }) }"

definition imsgbuf_clear :: "imsgbuf \<Rightarrow> (int list \<times> imsgbuf) option" where
  "imsgbuf_clear ib = do {
     cl \<leftarrow> msgbuf_free (i_w ib);
     Some (cl, ib\<lparr>i_w := None\<rparr>) }"

subsection \<open>Receiving\<close>

definition imsg_get :: "imsgbuf \<Rightarrow> (int \<times> imsg option \<times> imsgbuf) option" where
  "imsg_get ib = do {
     w \<leftarrow> i_w ib;
     (case msgbuf_get w of
        (None, w') \<Rightarrow> Some (0, None, ib\<lparr>i_w := Some w'\<rparr>)
      | (Some buf, w') \<Rightarrow> do {
          r \<leftarrow> ibuf_get buf IMSG_HEADER_SIZE;
          (case r of
             Inl e \<Rightarrow> Some (- 1, None, ib\<lparr>i_w := Some w'\<rparr>)
           | Inr (d, buf') \<Rightarrow>
               (let hdr = hdr_of d in
                Some (int (ibuf_size buf' + IMSG_HEADER_SIZE),
                      Some \<lparr>im_hdr = hdr\<lparr>h_len := h_len hdr AND NOT IMSG_FD_MARK\<rparr>,
                            im_data = (if ibuf_size buf' \<noteq> 0 then Some (ibuf_data buf') else None),
                            im_buf = buf'\<rparr>,
                      ib\<lparr>i_w := Some w'\<rparr>))) }) }"

definition imsg_get_ibuf :: "imsg \<Rightarrow> (errno + (ibuf \<times> imsg)) option" where
  "imsg_get_ibuf im =
     (if ibuf_size (im_buf im) = 0 then Some (Inl EBADMSG)
      else map_option (map_sum id (map_prod id (\<lambda>b. im\<lparr>im_buf := b\<rparr>)))
             (ibuf_get_ibuf (im_buf im) (ibuf_size (im_buf im))))"

definition imsg_get_data :: "imsg \<Rightarrow> nat \<Rightarrow> (errno + (byte list \<times> imsg)) option" where
  "imsg_get_data im len =
     (if len = 0 then Some (Inl EINVAL)
      else if ibuf_size (im_buf im) \<noteq> len then Some (Inl EBADMSG)
      else map_option (map_sum id (map_prod id (\<lambda>b. im\<lparr>im_buf := b\<rparr>))) (ibuf_get (im_buf im) len))"

definition imsg_get_fd :: "imsg \<Rightarrow> int \<times> imsg" where
  "imsg_get_fd im = (case ibuf_fd_get (im_buf im) of (fd, b) \<Rightarrow> (fd, im\<lparr>im_buf := b\<rparr>))"

definition imsg_get_id :: "imsg \<Rightarrow> u32" where
  "imsg_get_id im = h_peerid (im_hdr im)"

definition imsg_get_len :: "imsg \<Rightarrow> nat" where
  "imsg_get_len im = ibuf_size (im_buf im)"

definition imsg_get_pid :: "imsg \<Rightarrow> u32" where
  "imsg_get_pid im = h_pid (im_hdr im)"

definition imsg_get_type :: "imsg \<Rightarrow> u32" where
  "imsg_get_type im = h_type (im_hdr im)"

definition imsg_free :: "imsg \<Rightarrow> int list option" where
  "imsg_free im = ibuf_free (Some (im_buf im))"

subsection \<open>Composing\<close>

definition imsg_add :: "bool \<Rightarrow> ibuf \<Rightarrow> byte list \<Rightarrow> (int list \<times> (errno + ibuf)) option" where
  "imsg_add ok msg data =
     (if length data = 0 then Some ([], Inr msg)
      else do {
        r \<leftarrow> ibuf_add ok msg data;
        (case r of
           Inl e \<Rightarrow> do { cl \<leftarrow> ibuf_free (Some msg); Some (cl, Inl e) }
         | Inr msg' \<Rightarrow> Some ([], Inr msg')) })"

text \<open>The field \<^verbatim>\<open>len\<close> of the header that \<^verbatim>\<open>imsg_create\<close> copies is not initialised: \<open>junk\<close>.\<close>

definition imsg_create ::
    "bool \<Rightarrow> u32 \<Rightarrow> imsgbuf \<Rightarrow> u32 \<Rightarrow> u32 \<Rightarrow> u32 \<Rightarrow> nat \<Rightarrow> (errno + ibuf) option" where
  "imsg_create ok junk ib type peerid pid datalen =
     (let datalen = uadd datalen IMSG_HEADER_SIZE in
      if unat (i_maxsize ib) < datalen then Some (Inl ERANGE)
      else
        (let hdr = \<lparr>h_type = type, h_len = junk, h_peerid = peerid,
                    h_pid = (if pid = 0 then i_pid ib else pid)\<rparr> in
         (case ibuf_dynamic ok datalen (unat (i_maxsize ib)) of
            Inl e \<Rightarrow> Some (Inl e)
          | Inr wbuf \<Rightarrow> map_option snd (imsg_add ok wbuf (hdr_bytes hdr)))))"

definition imsg_close :: "imsgbuf \<Rightarrow> ibuf \<Rightarrow> imsgbuf option" where
  "imsg_close ib msg = do {
     w \<leftarrow> i_w ib;
     let len = (of_nat (ibuf_size msg) :: u32);
     let len = (if ibuf_fd_avail msg then len OR IMSG_FD_MARK else len);
     r \<leftarrow> ibuf_set_h32 msg 4 (ucast len);
     w' \<leftarrow> ibuf_close w (case r of Inl e \<Rightarrow> msg | Inr msg' \<Rightarrow> msg');
     Some (ib\<lparr>i_w := Some w'\<rparr>) }"

definition imsg_compose ::
    "bool \<Rightarrow> u32 \<Rightarrow> imsgbuf \<Rightarrow> u32 \<Rightarrow> u32 \<Rightarrow> u32 \<Rightarrow> int \<Rightarrow> byte list \<Rightarrow> (int \<times> imsgbuf) option" where
  "imsg_compose ok junk ib type peerid pid fd data = do {
     c \<leftarrow> imsg_create ok junk ib type peerid pid (length data);
     (case c of
        Inl e \<Rightarrow> Some (- 1, ib)
      | Inr wbuf \<Rightarrow> do {
          (cl, a) \<leftarrow> imsg_add ok wbuf data;
          (case a of
             Inl e \<Rightarrow> Some (- 1, ib)
           | Inr wbuf \<Rightarrow> do {
               (cl', wbuf) \<leftarrow> ibuf_fd_set wbuf fd;
               ib' \<leftarrow> imsg_close ib wbuf;
               Some (1, ib') }) }) }"

fun imsg_addv :: "bool \<Rightarrow> ibuf \<Rightarrow> byte list list \<Rightarrow> (errno + ibuf) option" where
  "imsg_addv ok wbuf [] = Some (Inr wbuf)"
| "imsg_addv ok wbuf (d # ds) = do {
     (cl, a) \<leftarrow> imsg_add ok wbuf d;
     (case a of Inl e \<Rightarrow> Some (Inl e) | Inr wbuf' \<Rightarrow> imsg_addv ok wbuf' ds) }"

definition imsg_composev ::
    "bool \<Rightarrow> u32 \<Rightarrow> imsgbuf \<Rightarrow> u32 \<Rightarrow> u32 \<Rightarrow> u32 \<Rightarrow> int \<Rightarrow> byte list list \<Rightarrow> (int \<times> imsgbuf) option"
  where
  "imsg_composev ok junk ib type peerid pid fd iov = do {
     c \<leftarrow> imsg_create ok junk ib type peerid pid (foldl (\<lambda>n d. uadd n (length d)) 0 iov);
     (case c of
        Inl e \<Rightarrow> Some (- 1, ib)
      | Inr wbuf \<Rightarrow> do {
          a \<leftarrow> imsg_addv ok wbuf iov;
          (case a of
             Inl e \<Rightarrow> Some (- 1, ib)
           | Inr wbuf \<Rightarrow> do {
               (cl', wbuf) \<leftarrow> ibuf_fd_set wbuf fd;
               ib' \<leftarrow> imsg_close ib wbuf;
               Some (1, ib') }) }) }"

text \<open>
  \<^verbatim>\<open>imsg_compose_ibuf\<close> consumes \<open>buf\<close>: it is queued, or freed when the call fails.  If adding the
  header failed, \<^verbatim>\<open>imsg_add\<close> would already have freed \<^verbatim>\<open>hdrbuf\<close> and the code at \<^verbatim>\<open>fail\<close> would free
  it again: that branch is undefined behaviour (\<open>None\<close>), and is shown not to be reached.
\<close>

definition imsg_compose_ibuf ::
    "bool \<Rightarrow> imsgbuf \<Rightarrow> u32 \<Rightarrow> u32 \<Rightarrow> u32 \<Rightarrow> ibuf \<Rightarrow> (int \<times> int list \<times> imsgbuf) option" where
  "imsg_compose_ibuf ok ib type peerid pid buf =
     (if unat (i_maxsize ib) < uadd (ibuf_size buf) IMSG_HEADER_SIZE
      then do { cl \<leftarrow> ibuf_free (Some buf); Some (- 1, cl, ib) }
      else
        (let hdr = \<lparr>h_type = type, h_len = of_nat (ibuf_size buf + IMSG_HEADER_SIZE), h_peerid = peerid,
                    h_pid = (if pid = 0 then i_pid ib else pid)\<rparr> in
         (case ibuf_open ok IMSG_HEADER_SIZE of
            Inl e \<Rightarrow> do { cl \<leftarrow> ibuf_free (Some buf); Some (- 1, cl, ib) }
          | Inr hdrbuf \<Rightarrow> do {
              (cl, a) \<leftarrow> imsg_add ok hdrbuf (hdr_bytes hdr);
              hdrbuf' \<leftarrow> (case a of Inl e \<Rightarrow> None | Inr b \<Rightarrow> Some b);
              w \<leftarrow> i_w ib;
              w' \<leftarrow> ibuf_close w hdrbuf';
              w'' \<leftarrow> ibuf_close w' buf;
              Some (1, [], ib\<lparr>i_w := Some w''\<rparr>) })))"

definition imsg_forward :: "bool \<Rightarrow> u32 \<Rightarrow> imsgbuf \<Rightarrow> imsg \<Rightarrow> (int \<times> imsgbuf \<times> imsg) option" where
  "imsg_forward ok junk ib im =
     (let b0 = ibuf_rewind (im_buf im);
          b = (case ibuf_skip b0 IMSG_HEADER_SIZE of Inl e \<Rightarrow> b0 | Inr b' \<Rightarrow> b');
          im' = im\<lparr>im_buf := b\<rparr> in
      do {
        c \<leftarrow> imsg_create ok junk ib (h_type (im_hdr im)) (h_peerid (im_hdr im)) (h_pid (im_hdr im))
               (ibuf_size b);
        (case c of
           Inl e \<Rightarrow> Some (- 1, ib, im')
         | Inr wbuf \<Rightarrow> do {
             a \<leftarrow> (if ibuf_size b \<noteq> 0 then ibuf_add_ibuf ok wbuf b else Some (Inr wbuf));
             (case a of
                Inl e \<Rightarrow> do { cl \<leftarrow> ibuf_free (Some wbuf); Some (- 1, ib, im') }
              | Inr wbuf' \<Rightarrow> do { ib' \<leftarrow> imsg_close ib wbuf'; Some (1, ib', im') }) }) })"

subsection \<open>Headers\<close>

lemma length_hdr_bytes [simp]: "length (hdr_bytes h) = IMSG_HEADER_SIZE"
  by (simp add: hdr_bytes_def)

lemma le_val_word32: "word_of_nat (le_val (le_bytes 4 (unat (x :: u32)))) = x"
proof -
  have "unat x < 256 ^ 4"
    using unsigned_less[of x] by simp
  then show ?thesis
    by (simp add: le_val_le_bytes)
qed

lemma hdr_of_bytes [simp]: "hdr_of (hdr_bytes h @ rest) = h"
  by (simp add: hdr_of_def hdr_bytes_def le_val_word32)

lemma hdr_of_bytes' [simp]: "hdr_of (hdr_bytes h) = h"
  using hdr_of_bytes[of h "[]"] by simp

lemma fd_mark_bit: "bit IMSG_FD_MARK n \<longleftrightarrow> n = 31"
proof -
  have "IMSG_FD_MARK = (2 :: u32) ^ 31" by simp
  then show ?thesis
    by (simp only: bit_exp_iff) auto
qed

lemma unmark_bit:
  fixes w m :: u32
  assumes "\<not> bit w 31" "\<And>n. bit m n \<longleftrightarrow> n = 31"
  shows "w AND NOT m = w" "(w OR m) AND NOT m = w"
  using assms by (auto intro!: bit_word_eqI simp: bit_and_iff bit_or_iff bit_not_iff)

lemma unmark_small:
  assumes "w < IMSG_FD_MARK"
  shows "w AND NOT IMSG_FD_MARK = w" "(w OR IMSG_FD_MARK) AND NOT IMSG_FD_MARK = w"
  using unmark_bit[OF msb32_clear[OF assms] fd_mark_bit] by blast+

text \<open>The frame length a header announces, and the contract of the reader.\<close>

definition imsg_framelen :: "u32 \<Rightarrow> byte list \<Rightarrow> nat option" where
  "imsg_framelen maxsize h =
     (let len = h_len (hdr_of h) AND NOT IMSG_FD_MARK in
      if unat len < IMSG_HEADER_SIZE \<or> maxsize < len then None else Some (unat len))"

lemma imsg_parse_hdr_spec:
  assumes "length h = IMSG_HEADER_SIZE"
  shows "\<exists>r fd' cl. imsg_parse_hdr ok maxsize (ibuf_from_buffer h) fd = Some (r, fd', cl) \<and>
     (case r of
        None \<Rightarrow> ok \<longrightarrow> imsg_framelen maxsize h = None
      | Some b \<Rightarrow> imsg_framelen maxsize h = Some (ibuf_left b) \<and> ibuf_inv b \<and> ibuf_bytes b = [] \<and>
          ibuf_writable b \<and> b_size b = b_max b)"
proof -
  let ?len = "h_len (hdr_of h) AND NOT IMSG_FD_MARK"
  have g: "ibuf_get (ibuf_from_buffer h) IMSG_HEADER_SIZE =
      Some (Inr (h, (ibuf_from_buffer h)\<lparr>b_rpos := IMSG_HEADER_SIZE\<rparr>))"
    using assms ibuf_get_spec[of "ibuf_from_buffer h" IMSG_HEADER_SIZE] ibuf_from_buffer_inv[of h]
    by (simp add: ibuf_from_buffer_def)
  have "unat ?len < SIZE_MOD"
    by (rule unat32_size)
  then show ?thesis
    using g
    by (auto simp: imsg_parse_hdr_def imsg_framelen_def Let_def ibuf_open_def ibuf_fd_set_def
        ibuf_inv_def ibuf_bytes_def ibuf_writable_def ibuf_left_def)
qed

interpretation imsg_rd: frame_reader "imsg_parse_hdr ok maxsize" IMSG_HEADER_SIZE
    "imsg_framelen maxsize" ok for ok maxsize
proof unfold_locales
  show "0 < IMSG_HEADER_SIZE" by simp
next
  fix h n
  assume "imsg_framelen maxsize h = Some n"
  then show "IMSG_HEADER_SIZE \<le> n"
    by (auto simp: imsg_framelen_def Let_def split: if_splits)
next
  fix h :: "byte list" and fd
  assume h: "length h = IMSG_HEADER_SIZE"
  note spec = imsg_parse_hdr_spec[OF h, of ok maxsize fd]
  show "imsg_parse_hdr ok maxsize (ibuf_from_buffer h) fd \<noteq> None"
    using spec by auto
  show "imsg_framelen maxsize h = Some (ibuf_left b) \<and> ibuf_inv b \<and> ibuf_bytes b = [] \<and>
      ibuf_writable b \<and> b_size b = b_max b"
    if "imsg_parse_hdr ok maxsize (ibuf_from_buffer h) fd = Some (Some b, fd', cl)" for b fd' cl
    using spec that by auto
  show "imsg_framelen maxsize h = None"
    if "imsg_parse_hdr ok maxsize (ibuf_from_buffer h) fd = Some (None, fd', cl)" "ok" for fd' cl
    using spec that by auto
qed

subsection \<open>Composed messages\<close>

text \<open>A message as the users of the layer see it, and its form on the wire.\<close>

record message =
  g_type :: u32
  g_peerid :: u32
  g_pid :: u32
  g_fd :: int
  g_data :: "byte list"

definition sent_pid :: "imsgbuf \<Rightarrow> message \<Rightarrow> u32" where
  "sent_pid ib g = (if g_pid g = 0 then i_pid ib else g_pid g)"

definition wire :: "imsgbuf \<Rightarrow> message \<Rightarrow> byte list" where
  "wire ib g =
     (let len = of_nat (length (g_data g) + IMSG_HEADER_SIZE) in
      hdr_bytes \<lparr>h_type = g_type g,
                 h_len = (if 0 \<le> g_fd g then len OR IMSG_FD_MARK else len),
                 h_peerid = g_peerid g, h_pid = sent_pid ib g\<rparr> @ g_data g)"

definition fits :: "imsgbuf \<Rightarrow> message \<Rightarrow> bool" where
  "fits ib g \<longleftrightarrow> length (g_data g) + IMSG_HEADER_SIZE \<le> unat (i_maxsize ib)"

definition imsgbuf_inv :: "imsgbuf \<Rightarrow> bool" where
  "imsgbuf_inv ib \<longleftrightarrow> IMSG_HEADER_SIZE \<le> unat (i_maxsize ib) \<and> i_maxsize ib < IMSG_FD_MARK \<and>
     (\<exists>w. i_w ib = Some w \<and> queue_inv w)"

definition out_bytes :: "imsgbuf \<Rightarrow> byte list" where
  "out_bytes ib = (case i_w ib of None \<Rightarrow> [] | Some w \<Rightarrow> queue_bytes w)"

lemma imsg_add_spec:
  assumes "ibuf_inv b" "ibuf_writable b" "length d \<le> ibuf_left b" "ok \<or> b_wpos b + length d \<le> b_size b"
  shows "\<exists>b'. imsg_add ok b d = Some ([], Inr b') \<and> ibuf_inv b' \<and> ibuf_bytes b' = ibuf_bytes b @ d \<and>
     ibuf_writable b' \<and> ibuf_left b' = ibuf_left b - length d \<and> b_fd b' = b_fd b"
proof (cases "d = []")
  case True
  then show ?thesis
    using assms by (simp add: imsg_add_def)
next
  case False
  obtain b' where "ibuf_add ok b d = Some (Inr b')"
    using ibuf_add_succeeds[OF assms] by blast
  then show ?thesis
    using False ibuf_add_inv[OF _ assms(1)] by (auto simp: imsg_add_def)
qed

lemma imsg_create_spec:
  assumes "ok" "imsgbuf_inv ib" "n + IMSG_HEADER_SIZE \<le> unat (i_maxsize ib)"
  shows "\<exists>b. imsg_create ok junk ib ty peerid pid n = Some (Inr b) \<and> ibuf_inv b \<and> ibuf_writable b \<and>
     b_fd b = - 1 \<and> ibuf_left b = unat (i_maxsize ib) - IMSG_HEADER_SIZE \<and>
     ibuf_bytes b = hdr_bytes \<lparr>h_type = ty, h_len = junk, h_peerid = peerid,
                               h_pid = (if pid = 0 then i_pid ib else pid)\<rparr>"
proof -
  let ?mx = "unat (i_maxsize ib)"
  have mx: "?mx < SIZE_MOD"
    by (rule unat32_size)
  then have u: "uadd n IMSG_HEADER_SIZE = n + IMSG_HEADER_SIZE"
    using assms(3) by simp
  obtain b where b: "ibuf_dynamic ok (n + IMSG_HEADER_SIZE) ?mx = Inr b" "b_fd b = - 1"
    using assms(1,3) by (simp add: ibuf_dynamic_def)
  note bi = ibuf_dynamic_inv[OF b(1) mx]
  let ?h = "hdr_bytes \<lparr>h_type = ty, h_len = junk, h_peerid = peerid,
      h_pid = (if pid = 0 then i_pid ib else pid)\<rparr>"
  obtain b' where "imsg_add ok b ?h = Some ([], Inr b')" "ibuf_inv b'"
      "ibuf_bytes b' = ?h" "ibuf_writable b'" "ibuf_left b' = ?mx - IMSG_HEADER_SIZE" "b_fd b' = - 1"
    using imsg_add_spec[of b ?h ok] bi b(2) assms(1,3) by auto
  then show ?thesis
    using b(1) u assms(3) by (simp add: imsg_create_def Let_def)
qed

definition marked_len :: "nat \<Rightarrow> int \<Rightarrow> u32" where
  "marked_len n fd = (if 0 \<le> fd then of_nat n OR IMSG_FD_MARK else of_nat n)"

lemma imsg_close_spec:
  assumes "imsgbuf_inv ib" "ibuf_inv b" "ibuf_writable b" "ibuf_bytes b = hdr_bytes h @ d"
    "length d + IMSG_HEADER_SIZE \<le> unat (i_maxsize ib)"
  shows "\<exists>w. imsg_close ib b = Some (ib\<lparr>i_w := Some w\<rparr>) \<and> queue_inv w \<and>
     queue_bytes w = out_bytes ib @
       hdr_bytes (h\<lparr>h_len := marked_len (length d + IMSG_HEADER_SIZE) (b_fd b)\<rparr>) @ d"
proof -
  obtain w where w: "i_w ib = Some w" "queue_inv w"
    using assms(1) by (auto simp: imsgbuf_inv_def)
  let ?l = "marked_len (length d + IMSG_HEADER_SIZE) (b_fd b)"
  have sz: "ibuf_size b = length d + IMSG_HEADER_SIZE"
    using assms(2,4) by (simp add: ibuf_size_bytes)
  have l32: "unat (ucast ?l :: u64) = unat ?l" "\<not> 4294967295 < unat ?l"
    using unat32_less[of ?l] by (simp_all add: unat_ucast_32_64)
  have "\<exists>p. ibuf_seek b 4 4 = Inr p"
    using ibuf_seek_iff[OF assms(2), of 4 4] assms(4) by simp
  then obtain b' where s: "ibuf_set b 4 (le_bytes 4 (unat ?l)) = Some (Inr b')"
    using ibuf_set_total[OF assms(2), of 4 "le_bytes 4 (unat ?l)"]
    by (auto simp: ibuf_set_def bind_Some_iff split: sum.splits)
  have b': "ibuf_inv b'" "ibuf_bytes b' = hdr_bytes (h\<lparr>h_len := ?l\<rparr>) @ d" "b_fd b' = b_fd b"
    using ibuf_set_inv[OF assms(2) s] s assms(4)
    by (auto simp: hdr_bytes_def ibuf_set_def bind_Some_iff split: sum.splits)
  obtain w' where "msgbuf_enqueue w b' = Some w'" "queue_inv w'"
      "queue_bytes w' = queue_bytes w @ ibuf_bytes b'"
    using msgbuf_enqueue_inv[OF w(2) b'(1)] b'(3) assms(3) by (auto simp: ibuf_writable_def)
  moreover have "ibuf_set_h32 b 4 (ucast ?l) = Some (Inr b')"
    using s l32 by (simp add: ibuf_set_h32_def)
  moreover have "(if ibuf_fd_avail b then of_nat (ibuf_size b) OR IMSG_FD_MARK
      else of_nat (ibuf_size b)) = ?l"
    by (simp only: sz marked_len_def ibuf_fd_avail_def)
  ultimately have "imsg_close ib b = Some (ib\<lparr>i_w := Some w'\<rparr>)" "queue_inv w'"
      "queue_bytes w' = queue_bytes w @ ibuf_bytes b'"
    using w(1) by (simp_all only: imsg_close_def Let_def ibuf_close_def bind.bind_lunit sum.case)
  then show ?thesis
    using w(1) b'(2) by (auto simp: out_bytes_def)
qed

lemma imsg_finish:
  assumes "imsgbuf_inv ib" "ibuf_inv b" "ibuf_writable b" "ibuf_bytes b = hdr_bytes h @ d"
    "b_fd b = - 1" "length d + IMSG_HEADER_SIZE \<le> unat (i_maxsize ib)"
  shows "\<exists>b' w. ibuf_fd_set b fd = Some ([], b') \<and> imsg_close ib b' = Some (ib\<lparr>i_w := Some w\<rparr>) \<and>
     queue_inv w \<and> queue_bytes w = out_bytes ib @
       hdr_bytes (h\<lparr>h_len := marked_len (length d + IMSG_HEADER_SIZE) fd\<rparr>) @ d"
proof -
  let ?b = "b\<lparr>b_fd := (if 0 \<le> fd then fd else - 1)\<rparr>"
  have b: "ibuf_fd_set b fd = Some ([], ?b)" "ibuf_inv ?b" "ibuf_writable ?b"
      "ibuf_bytes ?b = hdr_bytes h @ d"
    using assms by (auto simp: ibuf_fd_set_def ibuf_inv_def ibuf_writable_def ibuf_bytes_def)
  have "marked_len n (b_fd ?b) = marked_len n fd" for n
    by (simp add: marked_len_def)
  then show ?thesis
    using imsg_close_spec[OF assms(1) b(2-4) assms(6)] b(1) by auto
qed

lemma imsg_compose_spec:
  assumes "ok" "imsgbuf_inv ib" "fits ib g"
  shows "\<exists>w. imsg_compose ok junk ib (g_type g) (g_peerid g) (g_pid g) (g_fd g) (g_data g) =
       Some (1, ib\<lparr>i_w := Some w\<rparr>) \<and> queue_inv w \<and> queue_bytes w = out_bytes ib @ wire ib g"
proof -
  let ?d = "g_data g"
  have len: "length ?d + IMSG_HEADER_SIZE \<le> unat (i_maxsize ib)"
    using assms(3) by (simp add: fits_def)
  let ?h = "\<lparr>h_type = g_type g, h_len = junk, h_peerid = g_peerid g, h_pid = sent_pid ib g\<rparr>"
  obtain b where b: "imsg_create ok junk ib (g_type g) (g_peerid g) (g_pid g) (length ?d) = Some (Inr b)"
      "ibuf_inv b" "ibuf_writable b" "b_fd b = - 1"
      "ibuf_left b = unat (i_maxsize ib) - IMSG_HEADER_SIZE" "ibuf_bytes b = hdr_bytes ?h"
    using imsg_create_spec[OF assms(1,2) len, of junk "g_type g" "g_peerid g" "g_pid g"]
    by (auto simp: sent_pid_def)
  obtain b1 where b1: "imsg_add ok b ?d = Some ([], Inr b1)" "ibuf_inv b1" "ibuf_writable b1"
      "ibuf_bytes b1 = hdr_bytes ?h @ ?d" "b_fd b1 = - 1"
    using imsg_add_spec[OF b(2,3), of ?d ok] b(4-6) len assms(1) by fastforce
  show ?thesis
    using imsg_finish[OF assms(2) b1(2-5) len, of "g_fd g"] b(1) b1(1)
    by (auto simp: imsg_compose_def wire_def marked_len_def Let_def)
qed

text \<open>A composed message is one frame, and \<^verbatim>\<open>imsg_get\<close> takes it apart again.\<close>

lemma length_wire: "length (wire ib g) = length (g_data g) + IMSG_HEADER_SIZE"
  by (simp add: wire_def Let_def)

lemma marked_len_unmark:
  assumes "n \<le> unat mx" "mx < IMSG_FD_MARK"
  shows "unat (marked_len n fd AND NOT IMSG_FD_MARK) = n"
proof -
  have n: "unat (of_nat n :: u32) = n"
    using assms(1) unat32_less[of mx] by (simp add: unat_of_nat32)
  then have "(of_nat n :: u32) < IMSG_FD_MARK"
    using assms by (simp add: word_less_nat_alt)
  then show ?thesis
    using n unmark_small[of "of_nat n"] by (simp add: marked_len_def)
qed

lemma framelen_wire:
  assumes "fits ib g" "i_maxsize ib < IMSG_FD_MARK"
  shows "imsg_framelen (i_maxsize ib) (take IMSG_HEADER_SIZE (wire ib g @ rest)) =
     Some (length (wire ib g))"
proof -
  let ?n = "length (g_data g) + IMSG_HEADER_SIZE"
  have u: "unat (marked_len ?n (g_fd g) AND NOT IMSG_FD_MARK) = ?n" "?n \<le> unat (i_maxsize ib)"
    using marked_len_unmark[of ?n "i_maxsize ib"] assms by (simp_all add: fits_def)
  have "take IMSG_HEADER_SIZE (wire ib g @ rest) =
      hdr_bytes \<lparr>h_type = g_type g, h_len = marked_len ?n (g_fd g),
                 h_peerid = g_peerid g, h_pid = sent_pid ib g\<rparr>"
    by (simp add: wire_def Let_def marked_len_def)
  then show ?thesis
    using u by (simp add: imsg_framelen_def Let_def length_wire word_less_nat_alt)
qed

lemma frames_wires:
  assumes "\<forall>g\<in>set gs. fits ib g" "i_maxsize ib < IMSG_FD_MARK"
  shows "frames IMSG_HEADER_SIZE (imsg_framelen (i_maxsize ib)) (concat (map (wire ib) gs)) =
     Some (map (wire ib) gs, [])"
  using assms
proof (induction gs)
  case (Cons g gs)
  let ?t = "concat (map (wire ib) gs)"
  have "imsg_framelen (i_maxsize ib) (take IMSG_HEADER_SIZE (wire ib g @ ?t)) =
      Some (length (wire ib g))"
    using framelen_wire[of ib g ?t] Cons.prems by simp
  then show ?case
    using Cons frames_Cons[of IMSG_HEADER_SIZE "wire ib g @ ?t"] by (simp add: length_wire)
qed (simp add: frames_short)


subsection \<open>From one process to another\<close>

text \<open>
  The sender composes a list of messages; the kernel accepts its writes in arbitrary portions.
  \<open>imsgbuf_writes\<close> collects the bytes that the successful writes put on the wire.
\<close>

fun imsg_compose_all :: "bool \<Rightarrow> u32 \<Rightarrow> imsgbuf \<Rightarrow> message list \<Rightarrow> imsgbuf option" where
  "imsg_compose_all ok junk ib [] = Some ib"
| "imsg_compose_all ok junk ib (g # gs) = do {
     (ret, ib') \<leftarrow> imsg_compose ok junk ib (g_type g) (g_peerid g) (g_pid g) (g_fd g) (g_data g);
     if ret = 1 then imsg_compose_all ok junk ib' gs else None }"

fun imsgbuf_writes :: "wr list \<Rightarrow> imsgbuf \<Rightarrow> (byte list \<times> imsgbuf) option" where
  "imsgbuf_writes [] ib = Some ([], ib)"
| "imsgbuf_writes (r # rs) ib = do {
     (ret, cl, ib') \<leftarrow> imsgbuf_write [r] ib;
     (out, ib'') \<leftarrow> imsgbuf_writes rs ib';
     Some ((case r of Wr_n n \<Rightarrow> take n (out_bytes ib) | _ \<Rightarrow> []) @ out, ib'') }"

fun imsg_get_all :: "nat \<Rightarrow> imsgbuf \<Rightarrow> (imsg list \<times> imsgbuf) option" where
  "imsg_get_all 0 ib = Some ([], ib)"
| "imsg_get_all (Suc n) ib = do {
     (ret, im, ib') \<leftarrow> imsg_get ib;
     (case im of
        None \<Rightarrow> Some ([], ib')
      | Some m \<Rightarrow> do { (ms, ib'') \<leftarrow> imsg_get_all n ib'; Some (m # ms, ib'') }) }"

definition received :: "imsg \<Rightarrow> u32 \<times> u32 \<times> u32 \<times> byte list" where
  "received im = (imsg_get_type im, imsg_get_id im, imsg_get_pid im, ibuf_bytes (im_buf im))"

definition sent :: "imsgbuf \<Rightarrow> message \<Rightarrow> u32 \<times> u32 \<times> u32 \<times> byte list" where
  "sent ib g = (g_type g, g_peerid g, sent_pid ib g, g_data g)"

lemma wire_cong: "i_pid ib' = i_pid ib \<Longrightarrow> wire ib' = wire ib"
  by (intro ext) (simp add: wire_def sent_pid_def)

lemma imsgbuf_inv_upd: "imsgbuf_inv ib \<Longrightarrow> queue_inv w \<Longrightarrow> imsgbuf_inv (ib\<lparr>i_w := Some w\<rparr>)"
  by (simp add: imsgbuf_inv_def)

lemma imsg_compose_all_spec:
  assumes "ok" "imsgbuf_inv ib" "\<forall>g\<in>set gs. fits ib g"
  shows "\<exists>ib'. imsg_compose_all ok junk ib gs = Some ib' \<and> imsgbuf_inv ib' \<and>
     out_bytes ib' = out_bytes ib @ concat (map (wire ib) gs)"
  using assms
proof (induction gs arbitrary: ib)
  case (Cons g gs)
  obtain w where w: "imsg_compose ok junk ib (g_type g) (g_peerid g) (g_pid g) (g_fd g) (g_data g) =
       Some (1, ib\<lparr>i_w := Some w\<rparr>)" "queue_inv w" "queue_bytes w = out_bytes ib @ wire ib g"
    using imsg_compose_spec[OF Cons.prems(1,2), of g junk] Cons.prems(3) by auto
  let ?ib = "ib\<lparr>i_w := Some w\<rparr>"
  have ib: "wire ?ib = wire ib" "out_bytes ?ib = queue_bytes w" "\<forall>g\<in>set gs. fits ?ib g"
    using Cons.prems(3) wire_cong[of ?ib ib] by (simp_all add: out_bytes_def fits_def)
  obtain ib' where "imsg_compose_all ok junk ?ib gs = Some ib'" "imsgbuf_inv ib'"
      "out_bytes ib' = out_bytes ?ib @ concat (map (wire ?ib) gs)"
    using Cons.IH[OF Cons.prems(1) imsgbuf_inv_upd[OF Cons.prems(2) w(2)] ib(3)] by blast
  then show ?case
    using w ib(1,2) by simp
qed simp

lemma imsgbuf_write_spec:
  assumes "imsgbuf_inv ib" "r \<noteq> Wr_intr"
  shows "\<exists>ret cl w. imsgbuf_write [r] ib = Some (ret, cl, ib\<lparr>i_w := Some w\<rparr>) \<and> queue_inv w \<and>
     queue_bytes w = (case r of Wr_n n \<Rightarrow> drop n (out_bytes ib) | _ \<Rightarrow> out_bytes ib)"
proof -
  obtain w where w: "i_w ib = Some w" "queue_inv w"
    using assms(1) by (auto simp: imsgbuf_inv_def)
  have "wr_retry [r] = Some r"
    using assms(2) by (cases r) auto
  then obtain ret cl w' where
    w': "(if i_flags ib AND IMSG_ALLOW_FDPASS \<noteq> 0 then msgbuf_write [r] w else ibuf_write [r] w) =
        Some (ret, cl, w')" "queue_inv w'"
      "queue_bytes w' = (case r of Wr_n n \<Rightarrow> drop n (queue_bytes w) | _ \<Rightarrow> queue_bytes w)"
    using msgbuf_write_spec[OF w(2), of "[r]" r] ibuf_write_spec[OF w(2), of "[r]" r] 
    by (cases "i_flags ib AND IMSG_ALLOW_FDPASS \<noteq> 0") auto
  then have "imsgbuf_write [r] ib = Some (ret, cl, ib\<lparr>i_w := Some w'\<rparr>)"
    using w(1) by (simp add: imsgbuf_write_def)
  moreover have "out_bytes ib = queue_bytes w"
    using w(1) by (simp add: out_bytes_def)
  ultimately show ?thesis
    using w'(2,3) by metis
qed

lemma imsgbuf_writes_spec:
  assumes "imsgbuf_inv ib" "Wr_intr \<notin> set rs"
  shows "\<exists>out ib'. imsgbuf_writes rs ib = Some (out, ib') \<and> imsgbuf_inv ib' \<and>
     out @ out_bytes ib' = out_bytes ib"
  using assms
proof (induction rs arbitrary: ib)
  case (Cons r rs)
  obtain ret cl w where w: "imsgbuf_write [r] ib = Some (ret, cl, ib\<lparr>i_w := Some w\<rparr>)" "queue_inv w"
     "queue_bytes w = (case r of Wr_n n \<Rightarrow> drop n (out_bytes ib) | _ \<Rightarrow> out_bytes ib)"
    using imsgbuf_write_spec[OF Cons.prems(1), of r] Cons.prems(2) by auto
  let ?ib = "ib\<lparr>i_w := Some w\<rparr>"
  obtain out ib' where "imsgbuf_writes rs ?ib = Some (out, ib')" "imsgbuf_inv ib'"
      "out @ out_bytes ib' = out_bytes ?ib"
    using Cons.IH[of ?ib] imsgbuf_inv_upd[OF Cons.prems(1) w(2)] Cons.prems(2) by auto
  moreover have "out_bytes ?ib = queue_bytes w"
    by (simp add: out_bytes_def)
  ultimately show ?case
    using w by (cases r) simp_all
qed auto

text \<open>Taking received frames apart.\<close>

lemma imsg_get_wire:
  assumes "i_w ib = Some w" "m_rbufs w = b # bs" "ibuf_inv b" "ibuf_bytes b = wire sib g"
  shows "\<exists>im. imsg_get ib = Some (int (length (wire sib g)), Some im, ib\<lparr>i_w := Some (w\<lparr>m_rbufs := bs\<rparr>)\<rparr>) \<and>
     received im = sent sib g"
proof -
  let ?b = "b\<lparr>b_rpos := b_rpos b + IMSG_HEADER_SIZE\<rparr>"
    and ?h = "hdr_of (take IMSG_HEADER_SIZE (wire sib g))"
  have g: "ibuf_get b IMSG_HEADER_SIZE = Some (Inr (take IMSG_HEADER_SIZE (wire sib g), ?b))"
    using ibuf_get_spec[OF assms(3), of IMSG_HEADER_SIZE] assms(4) by (simp add: length_wire)
  have b: "ibuf_inv ?b" "ibuf_bytes ?b = g_data g"
    using ibuf_advance_inv[OF assms(3), of IMSG_HEADER_SIZE] assms(4)
    by (simp_all add: length_wire) (simp add: wire_def Let_def)
  have h: "h_type ?h = g_type g" "h_peerid ?h = g_peerid g" "h_pid ?h = sent_pid sib g"
    by (simp_all add: wire_def Let_def)
  have sz: "ibuf_size ?b + IMSG_HEADER_SIZE = length (wire sib g)"
    using ibuf_size_bytes[OF b(1)] b(2) by (simp add: length_wire)
  let ?im = "\<lparr>im_hdr = ?h\<lparr>h_len := h_len ?h AND NOT IMSG_FD_MARK\<rparr>,
      im_data = (if ibuf_size ?b \<noteq> 0 then Some (ibuf_data ?b) else None), im_buf = ?b\<rparr>"
  have "imsg_get ib = Some (int (length (wire sib g)), Some ?im, ib\<lparr>i_w := Some (w\<lparr>m_rbufs := bs\<rparr>)\<rparr>)"
    using sz by (simp add: imsg_get_def msgbuf_get_def assms(1,2) g Let_def)
  moreover have "received ?im = sent sib g"
    using h b(2) by (simp add: received_def sent_def imsg_get_type_def imsg_get_id_def imsg_get_pid_def)
  ultimately show ?thesis by blast
qed

lemma imsg_get_all_wires:
  assumes "i_w ib = Some w" "rbufs_ok w" "map ibuf_bytes (m_rbufs w) = map (wire sib) gs"
    "length gs \<le> n"
  shows "\<exists>ims w'. imsg_get_all n ib = Some (ims, ib\<lparr>i_w := Some w'\<rparr>) \<and> map received ims = map (sent sib) gs \<and>
     m_rbufs w' = []"
  using assms
proof (induction n arbitrary: ib w gs)
  case 0
  then show ?case by (intro exI[of _ "[]"] exI[of _ w]) simp
next
  case (Suc n)
  show ?case
  proof (cases gs)
    case Nil
    then have "imsg_get_all (Suc n) ib = Some ([], ib\<lparr>i_w := Some w\<rparr>)"
      using Suc.prems by (simp add: imsg_get_def msgbuf_get_def)
    then show ?thesis
      using Nil Suc.prems(3) by (intro exI[of _ "[]"] exI[of _ w]) simp
  next
    case (Cons g gs')
    then obtain b bs where b: "m_rbufs w = b # bs" "ibuf_bytes b = wire sib g" "ibuf_inv b"
        "map ibuf_bytes bs = map (wire sib) gs'"
      using Suc.prems(2,3) by (auto simp: rbufs_ok_def)
    obtain im where im: "imsg_get ib = Some (int (length (wire sib g)), Some im,
          ib\<lparr>i_w := Some (w\<lparr>m_rbufs := bs\<rparr>)\<rparr>)" "received im = sent sib g"
      using imsg_get_wire[OF Suc.prems(1) b(1,3,2)] by blast
    have "rbufs_ok (w\<lparr>m_rbufs := bs\<rparr>)"
      using Suc.prems(2) b(1) by (simp add: rbufs_ok_def)
    then obtain ims w' where "imsg_get_all n (ib\<lparr>i_w := Some (w\<lparr>m_rbufs := bs\<rparr>)\<rparr>) =
          Some (ims, ib\<lparr>i_w := Some w'\<rparr>)" "map received ims = map (sent sib) gs'" "m_rbufs w' = []"
      using Suc.IH[of "ib\<lparr>i_w := Some (w\<lparr>m_rbufs := bs\<rparr>)\<rparr>" "w\<lparr>m_rbufs := bs\<rparr>" gs'] b(4)
        Suc.prems(4) Cons by auto
    then show ?thesis
      using im Cons by (intro exI[of _ "im # ims"] exI[of _ w']) simp
  qed
qed


text \<open>The receiving process reads its channel chunk by chunk.\<close>

fun imsgbuf_reads :: "bool \<Rightarrow> (byte list \<times> int list) list \<Rightarrow> imsgbuf \<Rightarrow> (bool \<times> imsgbuf) option" where
  "imsgbuf_reads ok [] ib = Some (True, ib)"
| "imsgbuf_reads ok ((d, fds) # cs) ib = do {
     (ret, cl, ib') \<leftarrow> imsgbuf_read ok [Rd_data d fds] ib;
     if ret = 1 then imsgbuf_reads ok cs ib' else Some (False, ib') }"

lemma imsgbuf_reads_eq:
  assumes "i_w ib = Some w" "i_flags ib AND IMSG_ALLOW_FDPASS \<noteq> 0"
  shows "imsgbuf_reads ok cs ib =
     map_option (\<lambda>(g, w'). (g, ib\<lparr>i_w := Some w'\<rparr>))
       (msgbuf_reads ok (imsg_parse_hdr ok (i_maxsize ib)) cs w)"
  using assms
proof (induction cs arbitrary: ib w)
  case (Cons c cs)
  obtain d fds where c: "c = (d, fds)" by (cases c)
  show ?case
    by (cases "msgbuf_read ok (imsg_parse_hdr ok (i_maxsize ib)) [Rd_data d fds] w")
      (auto simp: c Cons.prems Cons.IH imsgbuf_read_def)
qed simp

lemma imsgbuf_init_inv:
  assumes "imsgbuf_init ok mem pid fd = Inr ib"
  shows "imsgbuf_inv ib \<and> out_bytes ib = [] \<and> i_maxsize ib = MAX_IMSGSIZE \<and> i_pid ib = pid"
  using assms
  by (auto simp: imsgbuf_init_def msgbuf_new_reader_def msgbuf_new_def imsgbuf_inv_def queue_inv_def
      queue_bytes_def out_bytes_def split: if_splits)

lemma imsgbuf_init_reader:
  assumes "imsgbuf_init ok mem pid fd = Inr ib" "length mem = IBUF_READ_SIZE"
  shows "\<exists>w. i_w ib = Some w \<and> imsg_rd.reader_inv MAX_IMSGSIZE w \<and> imsg_rd.pending w = [] \<and>
     m_rbufs w = []"
  using assms
  by (auto simp: imsgbuf_init_def msgbuf_new_reader_def msgbuf_new_def imsg_rd.reader_inv_def
      imsg_rd.pending_def imsg_rd.partial_def imsg_rd.partial_ok_def rbufs_ok_def split: if_splits)

lemma imsgbuf_reads_wires:
  assumes "imsgbuf_init True mem pid fd = Inr ib" "length mem = IBUF_READ_SIZE"
    "\<forall>g\<in>set gs. fits sib g" "i_maxsize sib = MAX_IMSGSIZE"
    "concat (map fst cs) = concat (map (wire sib) gs)"
    "\<forall>(d, fds)\<in>set cs. length d \<le> IBUF_READ_SIZE div 2"
  shows "\<exists>w. imsgbuf_reads True cs (imsgbuf_allow_fdpass ib) =
       Some (True, imsgbuf_allow_fdpass ib\<lparr>i_w := Some w\<rparr>) \<and>
     rbufs_ok w \<and> map ibuf_bytes (m_rbufs w) = map (wire sib) gs"
proof -
  let ?ib = "imsgbuf_allow_fdpass ib"
  obtain w where w: "i_w ib = Some w" "imsg_rd.reader_inv MAX_IMSGSIZE w"
      "imsg_rd.pending w = []" "m_rbufs w = []"
    using imsgbuf_init_reader[OF assms(1,2)] by blast
  have mx: "i_maxsize ?ib = MAX_IMSGSIZE" "i_w ?ib = Some w" "i_flags ?ib AND IMSG_ALLOW_FDPASS \<noteq> 0"
    using imsgbuf_init_inv[OF assms(1)] w(1) assms(1)
    by (auto simp: imsgbuf_allow_fdpass_def imsgbuf_init_def split: sum.splits)
  have "frames IMSG_HEADER_SIZE (imsg_framelen MAX_IMSGSIZE)
      (imsg_rd.pending w @ concat (map fst cs)) = Some (map (wire sib) gs, [])"
    using frames_wires[OF assms(3)] assms(4,5) w(3) by simp
  then obtain w' where "msgbuf_reads True (imsg_parse_hdr True MAX_IMSGSIZE) cs w = Some (True, w')"
      "imsg_rd.reader_inv MAX_IMSGSIZE w'" "map ibuf_bytes (m_rbufs w') = map (wire sib) gs"
    using imsg_rd.reads_spec[OF w(2) assms(6) TrueI] w(4) by fastforce
  then show ?thesis
    using imsgbuf_reads_eq[OF mx(2,3), of True cs] mx(1) by (auto simp: imsg_rd.reader_inv_def)
qed

text \<open>When the writes accept at least the queued number of bytes, the queue is empty.\<close>

fun accepted :: "wr list \<Rightarrow> nat" where
  "accepted [] = 0"
| "accepted (r # rs) = (case r of Wr_n n \<Rightarrow> n | _ \<Rightarrow> 0) + accepted rs"

lemma imsgbuf_writes_drained:
  assumes "imsgbuf_inv ib" "imsgbuf_writes rs ib = Some (out, ib')" "Wr_intr \<notin> set rs"
  shows "out_bytes ib' = drop (accepted rs) (out_bytes ib)"
  using assms
proof (induction rs arbitrary: ib out)
  case (Cons r rs)
  obtain ret cl w where w: "imsgbuf_write [r] ib = Some (ret, cl, ib\<lparr>i_w := Some w\<rparr>)" "queue_inv w"
     "queue_bytes w = (case r of Wr_n n \<Rightarrow> drop n (out_bytes ib) | _ \<Rightarrow> out_bytes ib)"
    using imsgbuf_write_spec[OF Cons.prems(1), of r] Cons.prems(3) by auto
  let ?ib = "ib\<lparr>i_w := Some w\<rparr>"
  obtain out' where "imsgbuf_writes rs ?ib = Some (out', ib')"
    using Cons.prems(2) w(1) by (auto simp: bind_Some_iff)
  then have "out_bytes ib' = drop (accepted rs) (queue_bytes w)"
    using Cons.IH[of ?ib out'] imsgbuf_inv_upd[OF Cons.prems(1) w(2)] Cons.prems(3)
    by (simp add: out_bytes_def)
  then show ?case
    using w(3) by (cases r) (simp_all add: add.commute)
qed simp



subsection \<open>Hostile input\<close>



subsection \<open>The three ways to compose\<close>

lemma imsg_addv_spec:
  assumes "ibuf_inv b" "ibuf_writable b" "length (concat ds) \<le> ibuf_left b"
  shows "\<exists>b'. imsg_addv True b ds = Some (Inr b') \<and> ibuf_inv b' \<and> ibuf_writable b' \<and>
     ibuf_bytes b' = ibuf_bytes b @ concat ds \<and> b_fd b' = b_fd b"
  using assms
proof (induction ds arbitrary: b)
  case (Cons d ds)
  obtain b1 where b1: "imsg_add True b d = Some ([], Inr b1)" "ibuf_inv b1" "ibuf_writable b1"
      "ibuf_bytes b1 = ibuf_bytes b @ d" "ibuf_left b1 = ibuf_left b - length d" "b_fd b1 = b_fd b"
    using imsg_add_spec[OF Cons.prems(1,2), of d True] Cons.prems(3) by auto
  then show ?case
    using Cons.IH[OF b1(2,3)] Cons.prems(3) by auto
qed simp

lemma sum_uadd: "n + length (concat ds) < SIZE_MOD \<Longrightarrow>
    foldl (\<lambda>n d. uadd n (length d)) n ds = n + length (concat ds)"
  by (induction ds arbitrary: n) (simp_all add: add.assoc)

lemma imsg_composev_spec:
  assumes "imsgbuf_inv ib" "fits ib g" "concat iov = g_data g"
  shows "\<exists>w. imsg_composev True junk ib (g_type g) (g_peerid g) (g_pid g) (g_fd g) iov =
       Some (1, ib\<lparr>i_w := Some w\<rparr>) \<and> queue_inv w \<and> queue_bytes w = out_bytes ib @ wire ib g"
proof -
  let ?d = "g_data g"
  have len: "length ?d + IMSG_HEADER_SIZE \<le> unat (i_maxsize ib)"
    using assms(2) by (simp add: fits_def)
  have "length (concat iov) < SIZE_MOD"
    using len unat32_size[of "i_maxsize ib"] assms(3) by simp
  then have n: "foldl (\<lambda>n d. uadd n (length d)) 0 iov = length ?d"
    using sum_uadd[of 0 iov] assms(3) by simp
  let ?h = "\<lparr>h_type = g_type g, h_len = junk, h_peerid = g_peerid g, h_pid = sent_pid ib g\<rparr>"
  obtain b where b: "imsg_create True junk ib (g_type g) (g_peerid g) (g_pid g) (length ?d) = Some (Inr b)"
      "ibuf_inv b" "ibuf_writable b" "b_fd b = - 1"
      "ibuf_left b = unat (i_maxsize ib) - IMSG_HEADER_SIZE" "ibuf_bytes b = hdr_bytes ?h"
    using imsg_create_spec[OF TrueI assms(1) len, of junk "g_type g" "g_peerid g" "g_pid g"]
    by (auto simp: sent_pid_def)
  obtain b1 where b1: "imsg_addv True b iov = Some (Inr b1)" "ibuf_inv b1" "ibuf_writable b1"
      "ibuf_bytes b1 = hdr_bytes ?h @ ?d" "b_fd b1 = - 1"
    using imsg_addv_spec[OF b(2,3), of iov] b(4-6) len assms(3) by fastforce
  show ?thesis
    using imsg_finish[OF assms(1) b1(2-5) len, of "g_fd g"] b(1) b1(1) n
    by (auto simp: imsg_composev_def wire_def marked_len_def Let_def)
qed

lemma imsg_compose_ibuf_spec:
  assumes "imsgbuf_inv ib" "fits ib g" "g_fd g < 0"
    and "ibuf_inv b" "ibuf_writable b" "ibuf_bytes b = g_data g"
  shows "\<exists>w. imsg_compose_ibuf True ib (g_type g) (g_peerid g) (g_pid g) b =
       Some (1, [], ib\<lparr>i_w := Some w\<rparr>) \<and> queue_inv w \<and> queue_bytes w = out_bytes ib @ wire ib g"
proof -
  let ?n = "length (g_data g) + IMSG_HEADER_SIZE"
  let ?h = "\<lparr>h_type = g_type g, h_len = of_nat ?n, h_peerid = g_peerid g, h_pid = sent_pid ib g\<rparr>"
  obtain w where w: "i_w ib = Some w" "queue_inv w"
    using assms(1) by (auto simp: imsgbuf_inv_def)
  have sz: "ibuf_size b = length (g_data g)" "\<not> unat (i_maxsize ib) < ?n"
    using assms by (simp_all add: ibuf_size_bytes fits_def)
  then have u: "uadd (ibuf_size b) IMSG_HEADER_SIZE = ?n"
    using unat32_size[of "i_maxsize ib"] by simp
  obtain hb where hb: "ibuf_open True IMSG_HEADER_SIZE = Inr hb"
    by (simp add: ibuf_open_def)
  obtain hb' where hb': "imsg_add True hb (hdr_bytes ?h) = Some ([], Inr hb')" "ibuf_inv hb'"
      "ibuf_writable hb'" "ibuf_bytes hb' = hdr_bytes ?h"
    using imsg_add_spec[of hb "hdr_bytes ?h" True] ibuf_open_inv[OF hb] by auto
  obtain w1 where w1: "msgbuf_enqueue w hb' = Some w1" "queue_inv w1"
      "queue_bytes w1 = queue_bytes w @ hdr_bytes ?h"
    using msgbuf_enqueue_inv[OF w(2) hb'(2,3)] hb'(4) by auto
  obtain w2 where w2: "msgbuf_enqueue w1 b = Some w2" "queue_inv w2"
      "queue_bytes w2 = queue_bytes w1 @ g_data g"
    using msgbuf_enqueue_inv[OF w1(2) assms(4,5)] assms(6) by auto
  have "imsg_compose_ibuf True ib (g_type g) (g_peerid g) (g_pid g) b = Some (1, [], ib\<lparr>i_w := Some w2\<rparr>)"
    unfolding imsg_compose_ibuf_def Let_def u sz(1) sent_pid_def[symmetric]
    using sz hb hb'(1) w(1) w1(1) w2(1) u by (simp add: ibuf_close_def)
  moreover have "queue_bytes w2 = out_bytes ib @ wire ib g"
    using w1(3) w2(3) w(1) assms(3) by (simp add: out_bytes_def wire_def Let_def)
  ultimately show ?thesis
    using w2(2) by blast
qed



end
