(* ===== verification/Util.thy ===== *)
theory Util
  imports Prelude
begin

section \<open>Socket addresses, netmasks and strings: iked/util.c, compat/ffs.c\<close>

text \<open>
  A \<^verbatim>\<open>struct sockaddr\<close> is a tagged union over \<^verbatim>\<open>sa_family\<close>.  Addresses are their bytes in
  memory (network order); a 32-bit access to them is a little-endian read, as on the host, and
  \<^verbatim>\<open>htons\<close>, \<^verbatim>\<open>ntohs\<close>, \<^verbatim>\<open>htonl\<close>, \<^verbatim>\<open>ntohl\<close> swap bytes.  Ports are kept as stored in memory.
\<close>

datatype sockaddr =
    Unspec
  | Sin (sin_addr: "byte list") (sin_port: u16)
  | Sin6 (sin6_addr: "byte list") (sin6_port: u16) (sin6_scope_id: u32)
  | Other nat

fun sa_family :: "sockaddr \<Rightarrow> nat" where
  "sa_family Unspec = 0"
| "sa_family (Sin _ _) = 2"
| "sa_family (Sin6 _ _ _) = 10"
| "sa_family (Other f) = f"

abbreviation (input) AF_UNSPEC :: nat where "AF_UNSPEC \<equiv> 0"

abbreviation (input) AF_INET :: nat where "AF_INET \<equiv> 2"

abbreviation (input) AF_INET6 :: nat where "AF_INET6 \<equiv> 10"

fun sa_wf :: "sockaddr \<Rightarrow> bool" where
  "sa_wf (Sin a _) = (length a = 4)"
| "sa_wf (Sin6 a _ _) = (length a = 16)"
| "sa_wf (Other f) = (f \<noteq> AF_UNSPEC \<and> f \<noteq> AF_INET \<and> f \<noteq> AF_INET6)"
| "sa_wf Unspec = True"

definition swap16 :: "u16 \<Rightarrow> u16" where
  "swap16 w = word_of_nat (le_val (be_bytes 2 (unat w)))"

definition swap32 :: "u32 \<Rightarrow> u32" where
  "swap32 w = word_of_nat (le_val (be_bytes 4 (unat w)))"

definition load32 :: "byte list \<Rightarrow> nat \<Rightarrow> u32" where
  "load32 bs i = word_of_nat (le_val (take 4 (drop (4 * i) bs)))"

subsection \<open>Ports\<close>

fun socket_af :: "sockaddr \<Rightarrow> u16 \<Rightarrow> sockaddr option" where
  "socket_af (Sin a p) port = Some (Sin a port)"
| "socket_af (Sin6 a p s) port = Some (Sin6 a port s)"
| "socket_af _ port = None"

fun socket_getport :: "sockaddr \<Rightarrow> u16" where
  "socket_getport (Sin a p) = swap16 p"
| "socket_getport (Sin6 a p s) = swap16 p"
| "socket_getport _ = 0"

fun socket_setport :: "sockaddr \<Rightarrow> u16 \<Rightarrow> sockaddr option" where
  "socket_setport (Sin a p) port = Some (Sin a (swap16 port))"
| "socket_setport (Sin6 a p s) port = Some (Sin6 a (swap16 port) s)"
| "socket_setport _ port = None"

subsection \<open>Netmasks\<close>

text \<open>The position of the lowest set bit, counted from 1, by halving and a table.\<close>

definition ffs_table :: "int list" where
  "ffs_table = [- 28, 1, 2, 1, 3, 1, 2, 1, 4, 1, 2, 1, 3, 1, 2, 1]"

definition ffs :: "u32 \<Rightarrow> int" where
  "ffs r =
     (let b0 = 0 :: int;
          (b1, r1) = (if r AND 0xffff = 0 then (b0 + 16, drop_bit 16 r) else (b0, r));
          (b2, r2) = (if r1 AND 0xff = 0 then (b1 + 8, drop_bit 8 r1) else (b1, r1));
          (b3, r3) = (if r2 AND 0xf = 0 then (b2 + 4, drop_bit 4 r2) else (b2, r2))
      in b3 + ffs_table ! unat (r3 AND 0xf))"

definition mask2prefixlen :: "byte list \<Rightarrow> nat" where
  "mask2prefixlen a = (if load32 a 0 = 0 then 0 else nat ((33 - ffs (swap32 (load32 a 0))) mod 256))"

text \<open>
  \<^verbatim>\<open>mask2prefixlen6\<close> walks the bytes from \<^verbatim>\<open>sin6_addr\<close> to the end of the structure, which
  includes the scope id; \<open>None\<close> is \<^verbatim>\<open>fatalx\<close>.
\<close>

fun mask_bytes_len :: "byte list \<Rightarrow> nat \<Rightarrow> nat option" where
  "mask_bytes_len [] l = Some l"
| "mask_bytes_len (b # bs) l =
     (if b = 0xff then mask_bytes_len bs (l + 8)
      else if b = 0xfe then Some (l + 7)
      else if b = 0xfc then Some (l + 6)
      else if b = 0xf8 then Some (l + 5)
      else if b = 0xf0 then Some (l + 4)
      else if b = 0xe0 then Some (l + 3)
      else if b = 0xc0 then Some (l + 2)
      else if b = 0x80 then Some (l + 1)
      else if b = 0 then Some l
      else None)"

definition mask2prefixlen6 :: "byte list \<Rightarrow> u32 \<Rightarrow> nat option" where
  "mask2prefixlen6 a scope = do {
     l \<leftarrow> mask_bytes_len (a @ le_bytes 4 (unat scope)) 0;
     if 128 < l then None else Some l }"

definition prefixlen2mask :: "nat \<Rightarrow> u32" where
  "prefixlen2mask prefixlen =
     (if prefixlen = 0 then 0
      else let prefixlen = (if 32 < prefixlen then 32 else prefixlen)
           in swap32 (push_bit (32 - prefixlen) 0xffffffff))"

definition prefixlen2mask6 :: "nat \<Rightarrow> byte list" where
  "prefixlen2mask6 prefixlen =
     (let prefixlen = (if 128 < prefixlen then 128 else prefixlen);
          s6 = replicate 16 0;
          s6 = replicate (prefixlen div 8) 0xff @ drop (prefixlen div 8) s6;
          i = prefixlen mod 8
      in if i \<noteq> 0 then s6[prefixlen div 8 := word_of_nat (0xff00 div 2 ^ i mod 256)] else s6)"

subsection \<open>Comparison\<close>

definition cmp32 :: "u32 \<Rightarrow> u32 \<Rightarrow> int" where
  "cmp32 x y = (if y < x then 1 else if x < y then - 1 else 0)"

text \<open>\<^verbatim>\<open>prefixlen\<close> is an \<^verbatim>\<open>int\<close> that is converted to \<^verbatim>\<open>uint8_t\<close> in the calls; \<open>-1\<close> means all bits.\<close>

fun sockaddr_cmp :: "sockaddr \<Rightarrow> sockaddr \<Rightarrow> int \<Rightarrow> int" where
  "sockaddr_cmp a b prefixlen =
     (if sa_family a = AF_UNSPEC \<or> sa_family b = AF_UNSPEC then 0
      else if sa_family b < sa_family a then 1
      else if sa_family a < sa_family b then - 1
      else
        (case (a, b) of
           (Sin a4 _, Sin b4 _) \<Rightarrow>
             (let mv = (if prefixlen = - 1 then 0xffffffff
                        else prefixlen2mask (nat (prefixlen mod 256)))
              in cmp32 (load32 a4 0 AND mv) (load32 b4 0 AND mv))
         | (Sin6 a6 _ _, Sin6 b6 _ _) \<Rightarrow>
             (let mv = (if prefixlen = - 1 then replicate 16 0xff
                        else prefixlen2mask6 (nat (prefixlen mod 256)));
                  c = (\<lambda>i. cmp32 (load32 a6 i AND load32 mv i) (load32 b6 i AND load32 mv i))
              in if c 3 \<noteq> 0 then c 3 else if c 2 \<noteq> 0 then c 2 else if c 1 \<noteq> 0 then c 1 else c 0)
         | _ \<Rightarrow> 0))"

declare sockaddr_cmp.simps [simp del]

subsection \<open>Strings\<close>

text \<open>\<^verbatim>\<open>isprint\<close> in the C locale.  A string is the list of its bytes before the terminating NUL.\<close>

definition isprint :: "byte \<Rightarrow> bool" where
  "isprint c = (0x20 \<le> c \<and> c \<le> 0x7e)"

definition tolower :: "byte \<Rightarrow> byte" where
  "tolower c = (if 0x41 \<le> c \<and> c \<le> 0x5a then c + 0x20 else c)"

definition get_string :: "bool \<Rightarrow> byte list \<Rightarrow> byte list option" where
  "get_string ok ptr = (if \<not> ok then None else Some (takeWhile isprint ptr))"

fun lc_idtype :: "byte list \<Rightarrow> byte list" where
  "lc_idtype [] = []"
| "lc_idtype (c # cs) = (if c = 0x2f then c # cs else tolower c # lc_idtype cs)"

text \<open>The entries of a constant map before its terminating entry; the last match wins.\<close>

definition constmap_name :: "(nat \<times> string) list \<Rightarrow> nat \<Rightarrow> string option" where
  "constmap_name m t = foldl (\<lambda>name (ty, nm). if ty = t then Some nm else name) None m"

definition string2unicode :: "byte list \<Rightarrow> byte list \<times> nat" where
  "string2unicode ascii = (concat (map (\<lambda>c. [c, 0]) ascii) @ [0, 0], length ascii * 2)"

text \<open>
  \<^verbatim>\<open>strstr\<close> as the text before and after the first occurrence; \<^verbatim>\<open>strlcat\<close> on a buffer of \<open>len\<close>
  bytes, \<open>None\<close> when the result and its NUL do not fit.
\<close>

fun strstr :: "byte list \<Rightarrow> byte list \<Rightarrow> (byte list \<times> byte list) option" where
  "strstr [] srch = (if srch = [] then Some ([], []) else None)"
| "strstr (c # cs) srch =
     (if take (length srch) (c # cs) = srch then Some ([], drop (length srch) (c # cs))
      else map_option (apfst (Cons c)) (strstr cs srch))"

definition strlcat_fits :: "nat \<Rightarrow> byte list \<Rightarrow> byte list \<Rightarrow> byte list option" where
  "strlcat_fits len dst src = (if len \<le> length dst + length src then None else Some (dst @ src))"

text \<open>
  The loop of \<^verbatim>\<open>expand_string\<close>: the outer \<open>None\<close> is divergence (an empty \<^verbatim>\<open>srch\<close> and \<^verbatim>\<open>repl\<close>), the
  inner one a string that is too long.
\<close>

partial_function (option) expand_loop ::
    "nat \<Rightarrow> byte list \<Rightarrow> byte list \<Rightarrow> byte list \<Rightarrow> byte list \<Rightarrow> byte list option option" where
  "expand_loop len srch repl tmp p =
     (case strstr p srch of
        None \<Rightarrow> Some (strlcat_fits len tmp p)
      | Some (before, after) \<Rightarrow>
          (case strlcat_fits len tmp before of
             None \<Rightarrow> Some None
           | Some t \<Rightarrow>
               (case strlcat_fits len t repl of
                  None \<Rightarrow> Some None
                | Some t' \<Rightarrow> expand_loop len srch repl t' after)))"

text \<open>The result is the return value and the new contents of \<^verbatim>\<open>label\<close>.\<close>

definition expand_string ::
    "bool \<Rightarrow> byte list \<Rightarrow> nat \<Rightarrow> byte list \<Rightarrow> byte list \<Rightarrow> (int \<times> byte list) option" where
  "expand_string ok label len srch repl =
     (if \<not> ok then Some (- 1, label)
      else do {
        r \<leftarrow> expand_loop len srch repl [] label;
        (case r of
           None \<Rightarrow> Some (- 1, (case strstr label srch of None \<Rightarrow> label | Some (before, _) \<Rightarrow> before))
         | Some tmp \<Rightarrow> Some (0, tmp)) })"

subsection \<open>Byte order\<close>

lemma swap_bytes: "be_bytes (length xs) (le_val xs) = rev xs"
  by (simp add: be_bytes_def codec_simps)

lemma swap16_swap16 [simp]: "swap16 (swap16 w) = w"
proof -
  let ?b = "be_bytes 2 (unat w)"
  have "unat (swap16 w) = le_val ?b"
    using le_val_less[of ?b] by (simp add: swap16_def unsigned_of_nat take_bit_nat_eq_self)
  then have "be_bytes 2 (unat (swap16 w)) = rev ?b"
    using swap_bytes[of ?b] by simp
  then show ?thesis
    using unat16_less[of w] by (simp add: swap16_def be_bytes_def codec_simps)
qed

lemma socket_port_roundtrip: "socket_setport sa p = Some sa' \<Longrightarrow> socket_getport sa' = p"
  by (cases sa) auto

subsection \<open>Bits of addresses and masks\<close>

lemma bit_byte_add:
  "bit (unat (x :: byte) + 256 * v) n \<longleftrightarrow> (if n < 8 then bit x n else bit v (n - 8))"
proof (cases "n < 8")
  case True
  have e: "256 * v = 2 ^ n * (2 ^ (8 - n) * v)"
    using True by (simp flip: mult.assoc power_add)
  have "(unat x + 256 * v) div 2 ^ n = 2 ^ (8 - n) * v + unat x div 2 ^ n"
    unfolding e by (rule div_mult_self2) simp
  then have "bit (unat x + 256 * v) n \<longleftrightarrow> bit (unat x) n"
    using True by (simp add: bit_iff_odd)
  then show ?thesis
    using True by (simp add: bit_unsigned_iff)
next
  case False
  then obtain k where "n = 8 + k"
    using le_Suc_ex not_less by blast
  then have "(2 :: nat) ^ n = 256 * 2 ^ (n - 8)"
    by (simp add: power_add)
  then have "(unat x + 256 * v) div 2 ^ n = (unat x + 256 * v) div 256 div 2 ^ (n - 8)"
    by (simp add: div_mult2_eq)
  also have "(unat x + 256 * v) div 256 = v"
    using unat_less_byte[of x] by simp
  finally show ?thesis
    using False by (simp add: bit_iff_odd)
qed

lemma bit_le_val: "bit (le_val xs) n \<longleftrightarrow> n < 8 * length xs \<and> bit (xs ! (n div 8)) (n mod 8)"
proof (induction xs arbitrary: n)
  case (Cons x xs)
  show ?case
  proof (cases "n < 8")
    case False
    then have "n div 8 = Suc ((n - 8) div 8)" "n mod 8 = (n - 8) mod 8"
      by (auto simp: le_div_geq le_mod_geq)
    then show ?thesis
      using False Cons.IH[of "n - 8"] by (auto simp: bit_byte_add)
  qed (simp add: bit_byte_add)
qed simp

lemma bit_le_bytes: "j < n \<Longrightarrow> k < 8 \<Longrightarrow> bit (le_bytes n v ! j) k \<longleftrightarrow> bit v (8 * j + k)"
proof (induction n arbitrary: j v)
  case (Suc n)
  show ?case
  proof (cases j)
    case 0
    moreover have "v mod 256 = take_bit 8 v"
      by (simp add: take_bit_eq_mod)
    ultimately show ?thesis
      using Suc.prems by (simp add: bit_simps)
  next
    case (Suc i)
    moreover have "v div 256 = drop_bit 8 v"
      by (simp add: drop_bit_eq_div)
    ultimately show ?thesis
      using Suc.prems Suc.IH[of i "v div 256"] by (simp add: bit_simps algebra_simps)
  qed
qed simp

lemma bit_be_bytes: "j < n \<Longrightarrow> k < 8 \<Longrightarrow> bit (be_bytes n v ! j) k \<longleftrightarrow> bit v (8 * (n - 1 - j) + k)"
  by (simp add: be_bytes_def rev_nth bit_le_bytes)

lemma bit_load32: "4 * i + 4 \<le> length bs \<Longrightarrow>
    bit (load32 bs i) n \<longleftrightarrow> n < 32 \<and> bit (bs ! (4 * i + n div 8)) (n mod 8)"
  by (auto simp: load32_def bit_of_nat_iff bit_le_val add.commute)

lemma bit_swap32: "bit (swap32 w) n \<longleftrightarrow> n < 32 \<and> bit w (8 * (3 - n div 8) + n mod 8)"
  by (cases "n < 32") (auto simp: swap32_def bit_of_nat_iff bit_le_val bit_be_bytes bit_unsigned_iff)

text \<open>The mask for a prefix has exactly the bits of the prefix, counted from the first byte down.\<close>

lemma bit_prefixlen2mask:
  "bit (prefixlen2mask p) n \<longleftrightarrow> n < 32 \<and> 8 * (n div 8) + (7 - n mod 8) < p"
proof (cases "p = 0")
  case False
  have 1: "(0xffffffff :: u32) = mask 32"
    by (simp add: mask_eq_exp_minus_1)
  define e where "e = 8 * (n div 8) + (7 - n mod 8)"
  have e: "8 * (3 - n div 8) + n mod 8 = 31 - e" "e < 32" if "n < 32"
  proof -
    define j k where "j = n div 8" and "k = n mod 8"
    have "j < 4" "k < 8"
      using that by (auto simp: j_def k_def)
    then show "8 * (3 - n div 8) + n mod 8 = 31 - e" "e < 32"
      unfolding e_def j_def[symmetric] k_def[symmetric] by linarith+
  qed
  show ?thesis
    unfolding e_def[symmetric]
    using False e
    by (auto simp: prefixlen2mask_def Let_def bit_swap32 1 bit_push_bit_iff bit_mask_iff)
qed (simp add: prefixlen2mask_def)

lemma mask_byte:
  assumes "i < 8" "k < 8"
  shows "bit (word_of_nat (0xff00 div 2 ^ i mod 256) :: byte) k \<longleftrightarrow> 7 - k < i"
proof -
  have "(0xff00 :: nat) = push_bit 8 (mask 8)"
    by (simp add: mask_eq_exp_minus_1 push_bit_eq_mult)
  then have "0xff00 div 2 ^ i mod 256 = take_bit 8 (drop_bit i (push_bit 8 (mask 8 :: nat)))"
    by (simp add: take_bit_eq_mod drop_bit_eq_div)
  then show ?thesis
    using assms by (auto simp: bit_simps)
qed

lemma length_prefixlen2mask6 [simp]: "length (prefixlen2mask6 p) = 16"
  by (auto simp: prefixlen2mask6_def Let_def)

lemma bit_prefixlen2mask6:
  assumes "j < 16" "k < 8"
  shows "bit (prefixlen2mask6 p ! j) k \<longleftrightarrow> 8 * j + (7 - k) < p"
proof -
  define q where "q = (if 128 < p then 128 else p)"
  define d where "d = q div 8"
  define m where "m = q mod 8"
  have q: "q = 8 * d + m" "m < 8"
    by (simp_all add: d_def m_def)
  have ff: "bit (0xff :: byte) k"
    using assms(2) bit_mask_iff[of 8 k, where 'a = byte] by (simp add: mask_eq_exp_minus_1)
  have s6: "prefixlen2mask6 p =
      (if m \<noteq> 0 then (replicate d 0xff @ replicate (16 - d) 0)[d := word_of_nat (0xff00 div 2 ^ m mod 256)]
       else replicate d 0xff @ replicate (16 - d) 0)"
    unfolding prefixlen2mask6_def Let_def q_def[symmetric] d_def[symmetric] m_def[symmetric]
    by simp
  have nth: "prefixlen2mask6 p ! j =
      (if j < d then 0xff
       else if j = d \<and> m \<noteq> 0 then word_of_nat (0xff00 div 2 ^ m mod 256) else 0)"
    using assms(1) unfolding s6 by (simp add: nth_append nth_list_update)
  have p: "8 * j + (7 - k) < p \<longleftrightarrow> 8 * j + (7 - k) < 8 * d + m"
  proof (cases "128 < p")
    case True
    then have "8 * j + (7 - k) < 128" "8 * d + m = 128"
      using assms q(1) by (simp_all add: q_def)
    then show ?thesis using True by linarith
  next
    case False
    then show ?thesis using q(1) by (simp add: q_def)
  qed
  consider "j < d" | "j = d" "m \<noteq> 0" | "j = d" "m = 0" | "d < j" by linarith
  then show ?thesis
  proof cases
    case 1
    then show ?thesis using nth p ff q by simp
  next
    case 2
    then show ?thesis using nth p mask_byte[OF q(2) assms(2)] by simp
  next
    case 3
    then show ?thesis using nth p by simp
  next
    case 4
    then show ?thesis using nth p q by simp
  qed
qed

subsection \<open>Comparison is prefix equality\<close>

text \<open>The bits of an address, most significant first.\<close>

definition addr_bits :: "byte list \<Rightarrow> bool list" where
  "addr_bits bs = map (\<lambda>q. bit (bs ! (q div 8)) (7 - q mod 8)) [0..<8 * length bs]"

definition same_prefix :: "nat \<Rightarrow> byte list \<Rightarrow> byte list \<Rightarrow> bool" where
  "same_prefix p a b \<longleftrightarrow> take p (addr_bits a) = take p (addr_bits b)"

lemma same_prefix_iff:
  assumes "length a = n" "length b = n"
  shows "same_prefix p a b \<longleftrightarrow>
     (\<forall>j<n. \<forall>k<8. 8 * j + (7 - k) < p \<longrightarrow> bit (a ! j) k = bit (b ! j) k)"
proof -
  have "same_prefix p a b \<longleftrightarrow>
      (\<forall>q<min (8 * n) p. bit (a ! (q div 8)) (7 - q mod 8) = bit (b ! (q div 8)) (7 - q mod 8))"
    using assms by (auto simp: same_prefix_def addr_bits_def list_eq_iff_nth_eq)
  also have "\<dots> \<longleftrightarrow> (\<forall>j<n. \<forall>k<8. 8 * j + (7 - k) < p \<longrightarrow> bit (a ! j) k = bit (b ! j) k)"
  proof (rule iffI; intro allI impI)
    fix j k :: nat
    assume *: "\<forall>q<min (8 * n) p. bit (a ! (q div 8)) (7 - q mod 8) = bit (b ! (q div 8)) (7 - q mod 8)"
      and jk: "j < n" "k < 8" "8 * j + (7 - k) < p"
    define r where "r = 7 - k"
    have "r < 8" "k = 7 - r"
      using jk by (simp_all add: r_def)
    then have "(8 * j + r) div 8 = j" "7 - (8 * j + r) mod 8 = k" "8 * j + r < 8 * n"
      using jk by simp_all
    then show "bit (a ! j) k = bit (b ! j) k"
      using * jk by (metis min_less_iff_conj r_def)
  next
    fix q
    assume *: "\<forall>j<n. \<forall>k<8. 8 * j + (7 - k) < p \<longrightarrow> bit (a ! j) k = bit (b ! j) k"
      and q: "q < min (8 * n) p"
    have "q div 8 < n" "8 * (q div 8) + (7 - (7 - q mod 8)) = q"
      using q by (auto simp: less_mult_imp_div_less mult.commute)
    then show "bit (a ! (q div 8)) (7 - q mod 8) = bit (b ! (q div 8)) (7 - q mod 8)"
      using *[rule_format, of "q div 8" "7 - q mod 8"] q by simp
  qed
  finally show ?thesis .
qed

lemma masked_eq_iff:
  fixes x y m :: u32
  shows "x AND m = y AND m \<longleftrightarrow> (\<forall>n<32. bit m n \<longrightarrow> bit x n = bit y n)"
  by (auto simp: bit_eq_iff bit_and_iff)

lemma cmp32_0_iff: "cmp32 x y = 0 \<longleftrightarrow> x = y"
  by (auto simp: cmp32_def)

lemma all_bytes32: "(\<forall>n<32. P (n div 8) (n mod 8)) \<longleftrightarrow> (\<forall>j<4. \<forall>k<8. P j (k :: nat))"
proof (intro iffI allI impI)
  fix j k :: nat
  assume "\<forall>n<32. P (n div 8) (n mod 8)" "j < 4" "k < 8"
  moreover have "(8 * j + k) div 8 = j" "(8 * j + k) mod 8 = k" "8 * j + k < 32"
    using \<open>j < 4\<close> \<open>k < 8\<close> by auto
  ultimately show "P j k" by metis
next
  fix n :: nat
  assume *: "\<forall>j<4. \<forall>k<8. P j k" "n < 32"
  then have "n div 8 < 4" "n mod 8 < 8" by auto
  then show "P (n div 8) (n mod 8)" using * by blast
qed

lemma load32_masked_eq:
  assumes "4 * i + 4 \<le> length a" "length b = length a"
    "\<And>n. n < 32 \<Longrightarrow> bit m n \<longleftrightarrow> 8 * (4 * i + n div 8) + (7 - n mod 8) < p"
  shows "load32 a i AND m = load32 b i AND m \<longleftrightarrow>
     (\<forall>j<4. \<forall>k<8. 8 * (4 * i + j) + (7 - k) < p \<longrightarrow> bit (a ! (4 * i + j)) k = bit (b ! (4 * i + j)) k)"
proof -
  have "load32 a i AND m = load32 b i AND m \<longleftrightarrow>
      (\<forall>n<32. 8 * (4 * i + n div 8) + (7 - n mod 8) < p \<longrightarrow>
        bit (a ! (4 * i + n div 8)) (n mod 8) = bit (b ! (4 * i + n div 8)) (n mod 8))"
    using assms by (simp add: masked_eq_iff bit_load32)
  then show ?thesis
    using all_bytes32[of "\<lambda>j k. 8 * (4 * i + j) + (7 - k) < p \<longrightarrow>
        bit (a ! (4 * i + j)) k = bit (b ! (4 * i + j)) k"] by simp
qed

lemma all_less_4: "(\<forall>i<4. P i) \<longleftrightarrow> P 3 \<and> P 2 \<and> P 1 \<and> P (0 :: nat)"
  by (auto simp: less_Suc_eq numeral_eq_Suc)

lemma if_eq_0_chain: "(if x \<noteq> 0 then x else y) = 0 \<longleftrightarrow> x = 0 \<and> y = (0 :: int)"
  by simp

definition prefix_bits :: "nat \<Rightarrow> int \<Rightarrow> nat" where
  "prefix_bits width prefixlen = (if prefixlen = - 1 then width else nat (prefixlen mod 256))"

lemma sockaddr_cmp_Sin:
  assumes "length a = 4" "length b = 4"
  shows "sockaddr_cmp (Sin a p) (Sin b q) n = 0 \<longleftrightarrow> same_prefix (prefix_bits 32 n) a b"
proof -
  let ?m = "if n = - 1 then 0xffffffff else prefixlen2mask (nat (n mod 256))"
  have "bit (0xffffffff :: u32) i" if "i < 32" for i
    using that bit_mask_iff[of 32 i, where 'a = u32] by (simp add: mask_eq_exp_minus_1)
  moreover have "8 * (i div 8) + (7 - i mod 8) < 32" if "i < 32" for i :: nat
  proof -
    have "i div 8 < 4" using that by auto
    then show ?thesis by linarith
  qed
  ultimately have m: "bit ?m i \<longleftrightarrow> 8 * (4 * 0 + i div 8) + (7 - i mod 8) < prefix_bits 32 n" if "i < 32" for i
    using that by (simp add: prefix_bits_def bit_prefixlen2mask)
  have "sockaddr_cmp (Sin a p) (Sin b q) n = 0 \<longleftrightarrow> load32 a 0 AND ?m = load32 b 0 AND ?m"
    by (cases "n = - 1") (simp_all add: sockaddr_cmp.simps cmp32_0_iff Let_def)
  then show ?thesis
    using load32_masked_eq[of 0 a b ?m "prefix_bits 32 n", OF _ _ m] assms
    by (simp add: same_prefix_iff[of a 4 b])
qed

lemma all_bytes128: "(\<forall>j<16. P j) \<longleftrightarrow> (\<forall>i<4. \<forall>j<4. P (4 * i + j))" for P :: "nat \<Rightarrow> bool"
proof (intro iffI allI impI)
  fix j :: nat
  assume "\<forall>i<4. \<forall>j<4. P (4 * i + j)" "j < 16"
  moreover have "j = 4 * (j div 4) + j mod 4" "j div 4 < 4" "j mod 4 < 4"
    using \<open>j < 16\<close> by auto
  ultimately show "P j" by metis
qed auto

lemma sockaddr_cmp_Sin6:
  assumes "length a = 16" "length b = 16"
  shows "sockaddr_cmp (Sin6 a p s) (Sin6 b q t) n = 0 \<longleftrightarrow> same_prefix (prefix_bits 128 n) a b"
proof -
  let ?m = "if n = - 1 then replicate 16 0xff else prefixlen2mask6 (nat (n mod 256))"
  have ff: "bit (0xff :: byte) k" if "k < 8" for k
    using that bit_mask_iff[of 8 k, where 'a = byte] by (simp add: mask_eq_exp_minus_1)
  have m: "bit (load32 ?m i) k \<longleftrightarrow> 8 * (4 * i + k div 8) + (7 - k mod 8) < prefix_bits 128 n"
    if "k < 32" "i < 4" for k i
  proof -
    have "4 * i + k div 8 < 16" "k mod 8 < 8"
      using that by auto
    moreover have "8 * x + y < 128" if "x < 16" "y < 8" for x y :: nat
      using that by linarith
    ultimately have "8 * (4 * i + k div 8) + (7 - k mod 8) < 128" by simp
    then show ?thesis
      using that ff \<open>4 * i + k div 8 < 16\<close>
      by (simp add: bit_load32 prefix_bits_def bit_prefixlen2mask6)
  qed
  have "sockaddr_cmp (Sin6 a p s) (Sin6 b q t) n = 0 \<longleftrightarrow>
      (\<forall>i<4. load32 a i AND load32 ?m i = load32 b i AND load32 ?m i)"
    by (simp add: sockaddr_cmp.simps Let_def cmp32_0_iff all_less_4 if_eq_0_chain)
  also have "\<dots> \<longleftrightarrow> (\<forall>i<4. \<forall>j<4. \<forall>k<8. 8 * (4 * i + j) + (7 - k) < prefix_bits 128 n \<longrightarrow>
      bit (a ! (4 * i + j)) k = bit (b ! (4 * i + j)) k)"
    using load32_masked_eq[of _ a b _ "prefix_bits 128 n"] m assms by simp
  finally show ?thesis
    using assms all_bytes128[of "\<lambda>j. \<forall>k<8. 8 * j + (7 - k) < prefix_bits 128 n \<longrightarrow> bit (a ! j) k = bit (b ! j) k"]
    by (simp add: same_prefix_iff[of a 16 b])
qed

lemma sockaddr_cmp_mixed:
  "sockaddr_cmp Unspec b n = 0" "sockaddr_cmp a Unspec n = 0"
  "sockaddr_cmp (Sin a4 p) (Sin6 b6 q t) n \<noteq> 0" "sockaddr_cmp (Sin6 b6 q t) (Sin a4 p) n \<noteq> 0"
  "sa_wf (Other f) \<Longrightarrow> sockaddr_cmp (Sin a4 p) (Other f) n \<noteq> 0"
  "sa_wf (Other f) \<Longrightarrow> sockaddr_cmp (Sin6 b6 q t) (Other f) n \<noteq> 0"
  "sa_wf (Other f) \<Longrightarrow> sockaddr_cmp (Other f) (Sin a4 p) n \<noteq> 0"
  "sa_wf (Other f) \<Longrightarrow> sockaddr_cmp (Other f) (Sin6 b6 q t) n \<noteq> 0"
  "sa_wf (Other f) \<Longrightarrow> sa_wf (Other g) \<Longrightarrow> sockaddr_cmp (Other f) (Other g) n = 0 \<longleftrightarrow> f = g"
  by (auto simp: sockaddr_cmp.simps)

text \<open>
  C15: \<^verbatim>\<open>sockaddr_cmp\<close> with a prefix length is equality of the prefixes: two addresses of one
  family compare equal exactly when their first \<^verbatim>\<open>prefixlen\<close> bits agree (all bits for \<open>-1\<close>), and
  addresses of different families never do, unless one of them is unspecified.
\<close>

theorem sockaddr_cmp_prefix:
  assumes "sa_wf a" "sa_wf b"
  shows "sockaddr_cmp a b n = 0 \<longleftrightarrow>
     (case (a, b) of
        (Unspec, _) \<Rightarrow> True
      | (_, Unspec) \<Rightarrow> True
      | (Sin a4 _, Sin b4 _) \<Rightarrow> same_prefix (prefix_bits 32 n) a4 b4
      | (Sin6 a6 _ _, Sin6 b6 _ _) \<Rightarrow> same_prefix (prefix_bits 128 n) a6 b6
      | _ \<Rightarrow> sa_family a = sa_family b)"
  using assms
  by (cases a; cases b) (simp_all add: sockaddr_cmp_Sin sockaddr_cmp_Sin6 sockaddr_cmp_mixed)

theorem sockaddr_cmp_prefix_witness:
  "sockaddr_cmp (Sin [10, 1, 2, 3] 0) (Sin [10, 1, 2, 200] 5) 24 = 0 \<and>
   sockaddr_cmp (Sin [10, 1, 2, 3] 0) (Sin [10, 1, 3, 3] 0) 24 \<noteq> 0"
  using sockaddr_cmp_prefix[of "Sin [10, 1, 2, 3] 0" "Sin [10, 1, 2, 200] 5" 24]
    sockaddr_cmp_prefix[of "Sin [10, 1, 2, 3] 0" "Sin [10, 1, 3, 3] 0" 24]
  by (simp add: same_prefix_def prefix_bits_def addr_bits_def upt_rec)

subsection \<open>Lowest set bit and the lengths of masks\<close>

definition lowest :: "u32 \<Rightarrow> nat \<Rightarrow> bool" where
  "lowest r k \<longleftrightarrow> bit r k \<and> (\<forall>i<k. \<not> bit r i)"

lemma lowest_step:
  assumes "lowest r k"
  shows "if r AND mask s = 0 then s \<le> k \<and> lowest (drop_bit s r) (k - s) else k < s"
proof -
  have lt: "i < 32" if "bit r i" for i
    using bit_imp_le_length[OF that] by simp
  have "r AND mask s = 0 \<longleftrightarrow> (\<forall>i < s. \<not> bit r i)"
    using lt by (auto simp: bit_eq_iff bit_and_iff bit_mask_iff)
  moreover have "s \<le> k" if "\<forall>i < s. \<not> bit r i"
    using that assms by (meson lowest_def not_less)
  moreover have "k < s" if "i < s" "bit r i" for i
    using that assms by (metis less_trans linorder_neqE_nat lowest_def)
  ultimately show ?thesis
    using assms by (auto simp: lowest_def bit_drop_bit_eq)
qed

lemma ffs_table_lowest:
  assumes "lowest r k" "k < 4"
  shows "ffs_table ! unat (r AND 0xf) = int k + 1"
proof -
  have m: "(0xf :: u32) = mask 4"
    by (simp add: mask_eq_exp_minus_1)
  define v where "v = unat (r AND 0xf)"
  have v: "v = take_bit 4 (unat r)"
    by (simp add: v_def m flip: take_bit_eq_mask unsigned_take_bit_eq)
  have bits: "bit v i \<longleftrightarrow> i < 4 \<and> bit r i" for i
    by (simp add: v bit_take_bit_iff bit_unsigned_iff)
  have "v < 16"
    using take_bit_nat_less_exp[of 4 "unat r"] by (simp add: v)
  moreover have "bit v k" "\<forall>i<k. \<not> bit v i"
    using assms by (auto simp: lowest_def bits)
  ultimately have "ffs_table ! v = int k + 1"
  proof -
    have "v \<in> set [0..<16]" "k \<in> set [0..<4]"
      using \<open>v < 16\<close> assms(2) by auto
    moreover have all: "\<forall>k\<in>set [0..<4]. \<forall>v\<in>set [0..<16]. odd (v div 2 ^ k) \<and> v mod 2 ^ k = 0 \<longrightarrow>
        ffs_table ! v = int k + 1"
      by code_simp
    moreover have "take_bit k v = 0"
      using \<open>\<forall>i<k. \<not> bit v i\<close> by (intro bit_eqI) (auto simp: bit_take_bit_iff)
    then have "odd (v div 2 ^ k)" "v mod 2 ^ k = 0"
      using \<open>bit v k\<close> by (simp_all add: bit_iff_odd take_bit_eq_mod)
    ultimately show ?thesis
      using all[rule_format, of k v] by metis
  qed
  then show ?thesis by (simp add: v_def)
qed

text \<open>\<^verbatim>\<open>ffs\<close> is one more than the index of the lowest set bit, and 0 for 0.\<close>

lemma ffs_lowest:
  assumes "lowest r k" "k < 32"
  shows "ffs r = int k + 1"
proof -
  have m: "(0xffff :: u32) = mask 16" "(0xff :: u32) = mask 8" "(0xf :: u32) = mask 4"
    by (simp_all add: mask_eq_exp_minus_1)
  define r1 k1 where "r1 = (if r AND mask 16 = 0 then drop_bit 16 r else r)"
    and "k1 = (if r AND mask 16 = 0 then k - 16 else k)"
  have 1: "lowest r1 k1" "k1 < 16"
    using lowest_step[OF assms(1), of 16] assms by (auto simp: r1_def k1_def split: if_splits)
  define r2 k2 where "r2 = (if r1 AND mask 8 = 0 then drop_bit 8 r1 else r1)"
    and "k2 = (if r1 AND mask 8 = 0 then k1 - 8 else k1)"
  have 2: "lowest r2 k2" "k2 < 8"
    using lowest_step[OF 1(1), of 8] 1 by (auto simp: r2_def k2_def split: if_splits)
  define r3 k3 where "r3 = (if r2 AND mask 4 = 0 then drop_bit 4 r2 else r2)"
    and "k3 = (if r2 AND mask 4 = 0 then k2 - 4 else k2)"
  have 3: "lowest r3 k3" "k3 < 4"
    using lowest_step[OF 2(1), of 4] 2 by (auto simp: r3_def k3_def split: if_splits)
  have t: "ffs_table ! unat (r3 AND mask 4) = int k3 + 1"
    using ffs_table_lowest[OF 3] by (simp add: m)
  have "ffs r = (if r AND mask 16 = 0 then 16 else 0) + (if r1 AND mask 8 = 0 then 8 else 0) +
      (if r2 AND mask 4 = 0 then 4 else 0) + ffs_table ! unat (r3 AND mask 4)"
    unfolding ffs_def Let_def m r3_def r2_def r1_def by (simp split: if_splits)
  moreover have "int k = (if r AND mask 16 = 0 then 16 else 0) + int k1"
    "int k1 = (if r1 AND mask 8 = 0 then 8 else 0) + int k2"
    "int k2 = (if r2 AND mask 4 = 0 then 4 else 0) + int k3"
    using lowest_step[OF assms(1), of 16] lowest_step[OF 1(1), of 8] lowest_step[OF 2(1), of 4]
    by (auto simp: k1_def k2_def k3_def split: if_splits)
  ultimately show ?thesis
    using t by linarith
qed

lemma swap32_swap32 [simp]: "swap32 (swap32 w) = w"
proof (rule bit_word_eqI)
  fix n :: nat
  assume "n < LENGTH(32)"
  then have n: "n < 32" by simp
  define j k where "j = n div 8" and "k = n mod 8"
  have jk: "n = 8 * j + k" "j < 4" "k < 8"
    using n by (auto simp: j_def k_def)
  then have "(8 * (3 - j) + k) div 8 = 3 - j" "(8 * (3 - j) + k) mod 8 = k"
    "8 * (3 - j) + k < 32" "3 - (3 - j) = j"
    by auto
  then show "bit (swap32 (swap32 w)) n = bit w n"
    using n jk(1) unfolding bit_swap32 j_def[symmetric] k_def[symmetric] by simp
qed

lemma load32_le_bytes: "load32 (le_bytes 4 (unat w)) 0 = w"
  using unat32_less[of w] by (simp add: load32_def le_val_le_bytes)

lemma mask2prefixlen_inverse:
  assumes "p \<le> 32"
  shows "mask2prefixlen (le_bytes 4 (unat (prefixlen2mask p))) = p"
proof (cases "p = 0")
  case False
  let ?w = "push_bit (32 - p) 0xffffffff :: u32"
  have m: "(0xffffffff :: u32) = mask 32"
    by (simp add: mask_eq_exp_minus_1)
  have sw: "swap32 (prefixlen2mask p) = ?w" "prefixlen2mask p \<noteq> 0"
  proof -
    show "swap32 (prefixlen2mask p) = ?w"
      using False assms by (simp add: prefixlen2mask_def Let_def)
    have "bit (prefixlen2mask p) 7"
      using False by (simp add: bit_prefixlen2mask)
    then show "prefixlen2mask p \<noteq> 0" by auto
  qed
  have "lowest ?w (32 - p)"
    using False assms unfolding lowest_def m by (auto simp: bit_push_bit_iff bit_mask_iff)
  then have "ffs ?w = int (32 - p) + 1"
    using ffs_lowest False assms by simp
  then show ?thesis
    using sw assms by (simp add: mask2prefixlen_def load32_le_bytes of_nat_diff)
qed (use load32_le_bytes[of 0] in \<open>simp add: mask2prefixlen_def prefixlen2mask_def\<close>)

lemma mask_bytes_len_full: "mask_bytes_len (replicate d 0xff @ rest) l = mask_bytes_len rest (l + 8 * d)"
  by (induction d arbitrary: l) (simp_all add: algebra_simps)

lemma prefixlen2mask6_form:
  assumes "p \<le> 128" "p = 8 * d + m" "m < 8"
  shows "prefixlen2mask6 p = replicate d 0xff @
     (if m \<noteq> 0 then word_of_nat (0xff00 div 2 ^ m mod 256) # replicate (15 - d) 0
      else replicate (16 - d) 0)"
proof -
  define z :: "byte list" where "z = replicate 16 0"
  have q: "(if 128 < p then 128 else p) = p" "p div 8 = d" "p mod 8 = m"
    using assms by auto
  have "drop d z = replicate (16 - d) 0"
    by (simp add: z_def)
  then have "prefixlen2mask6 p =
      (if m \<noteq> 0 then (replicate d 0xff @ replicate (16 - d) 0)[d := word_of_nat (0xff00 div 2 ^ m mod 256)]
       else replicate d 0xff @ replicate (16 - d) 0)"
    unfolding prefixlen2mask6_def Let_def q z_def[symmetric] by simp
  moreover have "16 - d = Suc (15 - d)" if "m \<noteq> 0"
    using assms that by auto
  ultimately show ?thesis
    by (simp add: list_update_append)
qed

lemma mask_bytes_len_partial:
  assumes "0 < m" "m < 8"
  shows "mask_bytes_len (word_of_nat (0xff00 div 2 ^ m mod 256) # bs) l = Some (l + m)"
proof -
  consider "m = 1" | "m = 2" | "m = 3" | "m = 4" | "m = 5" | "m = 6" | "m = 7"
    using assms by linarith
  then show ?thesis by cases simp_all
qed

lemma mask2prefixlen6_inverse:
  assumes "p \<le> 128"
  shows "mask2prefixlen6 (prefixlen2mask6 p) 0 = Some p"
proof -
  define d m where "d = p div 8" and "m = p mod 8"
  have p: "p = 8 * d + m" "m < 8"
    by (simp_all add: d_def m_def)
  note form = prefixlen2mask6_form[OF assms p]
  have "4 = Suc (Suc (Suc (Suc 0)))"
    by simp
  then have z: "le_bytes 4 0 = [0, 0, 0, 0]"
    by (simp only: le_bytes.simps) simp
  have "mask_bytes_len (prefixlen2mask6 p @ [0, 0, 0, 0]) 0 = Some (8 * d + m)"
  proof (cases "m = 0")
    case True
    have "mask_bytes_len (replicate (16 - d) 0 @ [0, 0, 0, 0]) (8 * d) = Some (8 * d)"
      by (cases "16 - d") simp_all
    then show ?thesis
      using True unfolding form by (simp add: mask_bytes_len_full)
  next
    case False
    then show ?thesis
      using p(2) unfolding form by (simp add: mask_bytes_len_full mask_bytes_len_partial
          del: mask_bytes_len.simps(2))
  qed
  then show ?thesis
    using assms p(1) z by (simp add: mask2prefixlen6_def)
qed

text \<open>C16: Converting a prefix length to a netmask and back is the identity, for IPv4 and IPv6.\<close>

theorem prefixlen_mask_roundtrip:
  assumes "p \<le> 32" "q \<le> 128"
  shows "mask2prefixlen (le_bytes 4 (unat (prefixlen2mask p))) = p \<and>
    mask2prefixlen6 (prefixlen2mask6 q) 0 = Some q"
  using mask2prefixlen_inverse[OF assms(1)] mask2prefixlen6_inverse[OF assms(2)] by blast

theorem prefixlen_mask_roundtrip_witness:
  "mask2prefixlen (le_bytes 4 (unat (prefixlen2mask 20))) = 20 \<and>
   mask2prefixlen6 (prefixlen2mask6 64) 0 = Some 64"
  using prefixlen_mask_roundtrip[of 20 64] by simp

subsection \<open>Substitution in tags\<close>

lemma strstr_Some:
  "strstr p srch = Some (before, after) \<Longrightarrow> p = before @ srch @ after"
proof (induction p srch arbitrary: before after rule: strstr.induct)
  case (2 c cs srch)
  show ?case
  proof (cases "take (length srch) (c # cs) = srch")
    case True
    then show ?thesis
      using "2.prems" by (metis append_Nil append_take_drop_id option.inject prod.inject strstr.simps(2))
  next
    case False
    then show ?thesis
      using 2 by auto
  qed
qed (auto split: if_splits)

text \<open>The reference: every leftmost, non-overlapping occurrence is replaced.\<close>

function replace_all :: "byte list \<Rightarrow> byte list \<Rightarrow> byte list \<Rightarrow> byte list" where
  "replace_all srch repl s =
     (case strstr s srch of
        None \<Rightarrow> s
      | Some (before, after) \<Rightarrow>
          if srch = [] then s else before @ repl @ replace_all srch repl after)"
  by pat_completeness auto
termination
  by (relation "measure (\<lambda>(srch, repl, s). length s)") (auto dest!: strstr_Some)

declare replace_all.simps [simp del]

lemma expand_loop_spec:
  assumes "srch \<noteq> []"
  shows "expand_loop len srch repl tmp p =
     Some (let r = tmp @ replace_all srch repl p in if length r < len then Some r else None)"
proof (induction p arbitrary: tmp rule: length_induct)
  case (1 p)
  show ?case
  proof (cases "strstr p srch")
    case None
    then show ?thesis
      by (subst expand_loop.simps) (auto simp: strlcat_fits_def replace_all.simps Let_def)
  next
    case (Some ba)
    obtain before after where ba: "ba = (before, after)" by (cases ba)
    have "length after < length p"
      using strstr_Some[of p srch before after] Some ba assms by simp
    then have IH: "expand_loop len srch repl (tmp @ before @ repl) after =
       Some (let r = (tmp @ before @ repl) @ replace_all srch repl after
             in if length r < len then Some r else None)"
      using 1 by blast
    have "replace_all srch repl p = before @ repl @ replace_all srch repl after"
      using Some ba assms by (simp add: replace_all.simps[of srch repl p])
    then show ?thesis
      using IH Some ba
      by (subst expand_loop.simps) (auto simp: strlcat_fits_def Let_def)
  qed
qed

text \<open>
  C17: \<^verbatim>\<open>expand_string\<close> with a non-empty search string always ends, and replaces every occurrence
  when the result fits in the buffer; otherwise, and when memory is short, it reports failure.
\<close>

theorem expand_string_correct:
  assumes "srch \<noteq> []"
  shows "\<exists>label'. expand_string ok label len srch repl =
     (if ok \<and> length (replace_all srch repl label) < len
      then Some (0, replace_all srch repl label) else Some (- 1, label'))"
  using expand_loop_spec[OF assms, of len repl "[]" label]
  by (auto simp: expand_string_def Let_def)

theorem expand_string_correct_witness:
  "expand_string True [97, 36, 98, 36] 10 [36] [120, 121] = Some (0, [97, 120, 121, 98, 120, 121])"
proof -
  have "replace_all [36] [120, 121] [97, 36, 98, 36] = [97, 120, 121, 98, 120, 121]"
    by (simp add: replace_all.simps)
  then show ?thesis
    using expand_string_correct[of "[36]" True "[97, 36, 98, 36]" 10 "[120, 121]"] by simp
qed

end
