(* ===== verification/Proposal.thy ===== *)
theory Proposal
  imports Prelude
begin

section \<open>Proposals, transforms and their negotiation: iked/config.c, iked/policy.c, iked/parse.y\<close>

text \<open>
  A proposal carries an array of transforms; \<^verbatim>\<open>prop_nxforms\<close> is the length of the list
  \<open>prop_xforms\<close>.  The list \<^verbatim>\<open>struct iked_proposals\<close> is a list of proposals, and a pointer to one of
  its elements is an index.  The field \<^verbatim>\<open>xform_map\<close> is used for printing only and is left out.
\<close>

record iked_spi =
  spi :: u64
  spi_size :: byte
  spi_protoid :: byte

record iked_transform =
  xform_type :: byte
  xform_id :: u16
  xform_length :: u16
  xform_keylength :: u16
  xform_score :: nat

record iked_proposal =
  prop_id :: byte
  prop_protoid :: byte
  prop_localspi :: iked_spi
  prop_peerspi :: iked_spi
  prop_xforms :: "iked_transform list"

abbreviation (input) IKEV2_XFORMTYPE_ENCR :: byte where "IKEV2_XFORMTYPE_ENCR \<equiv> 1"

abbreviation (input) IKEV2_XFORMTYPE_PRF :: byte where "IKEV2_XFORMTYPE_PRF \<equiv> 2"

abbreviation (input) IKEV2_XFORMTYPE_INTEGR :: byte where "IKEV2_XFORMTYPE_INTEGR \<equiv> 3"

abbreviation (input) IKEV2_XFORMTYPE_DH :: byte where "IKEV2_XFORMTYPE_DH \<equiv> 4"

abbreviation (input) IKEV2_XFORMTYPE_ESN :: byte where "IKEV2_XFORMTYPE_ESN \<equiv> 5"

abbreviation (input) IKEV2_XFORMTYPE_MAX :: nat where "IKEV2_XFORMTYPE_MAX \<equiv> 6"

abbreviation (input) IKEV2_SAPROTO_IKE :: byte where "IKEV2_SAPROTO_IKE \<equiv> 1"

abbreviation (input) IKEV2_SAPROTO_AH :: byte where "IKEV2_SAPROTO_AH \<equiv> 2"

abbreviation (input) IKEV2_SAPROTO_ESP :: byte where "IKEV2_SAPROTO_ESP \<equiv> 3"

abbreviation (input) IKEV2_XFORMDH_NONE :: u16 where "IKEV2_XFORMDH_NONE \<equiv> 0"

definition no_spi :: iked_spi where
  "no_spi = \<lparr>spi = 0, spi_size = 0, spi_protoid = 0\<rparr>"

subsection \<open>Building proposals\<close>

fun find_proposal :: "iked_proposal list \<Rightarrow> byte \<Rightarrow> byte \<Rightarrow> nat option" where
  "find_proposal [] pid proto = None"
| "find_proposal (pp # head) pid proto =
     (if prop_protoid pp = proto \<and> prop_id pp = pid then Some 0
      else map_option Suc (find_proposal head pid proto))"

text \<open>The result is the pointer (an index) and the list; \<open>None\<close> is a failed allocation.\<close>

definition config_add_proposal ::
    "bool \<Rightarrow> iked_proposal list \<Rightarrow> byte \<Rightarrow> byte \<Rightarrow> (nat \<times> iked_proposal list) option" where
  "config_add_proposal ok head pid proto =
     (case find_proposal head pid proto of
        Some i \<Rightarrow> Some (i, head)
      | None \<Rightarrow>
          if \<not> ok then None
          else Some (length head,
                 head @ [\<lparr>prop_id = pid, prop_protoid = proto, prop_localspi = no_spi,
                          prop_peerspi = no_spi, prop_xforms = []\<rparr>]))"

definition config_free_proposal :: "iked_proposal list \<Rightarrow> nat \<Rightarrow> iked_proposal list" where
  "config_free_proposal head i = take i head @ drop (Suc i) head"

definition config_free_proposals :: "iked_proposal list \<Rightarrow> byte \<Rightarrow> iked_proposal list" where
  "config_free_proposals head proto =
     filter (\<lambda>prop. proto \<noteq> 0 \<and> prop_protoid prop \<noteq> proto) head"

definition xform_weight :: "byte \<Rightarrow> nat" where
  "xform_weight type =
     (if type = IKEV2_XFORMTYPE_ENCR \<or> type = IKEV2_XFORMTYPE_INTEGR then 3
      else if type = IKEV2_XFORMTYPE_DH then 2 else 1)"

text \<open>The return value and the proposal; \<open>-2\<close> is an unknown type and \<open>-1\<close> a failed allocation.\<close>

definition config_add_transform ::
    "bool \<Rightarrow> iked_proposal \<Rightarrow> byte \<Rightarrow> u16 \<Rightarrow> u16 \<Rightarrow> u16 \<Rightarrow> int \<times> iked_proposal" where
  "config_add_transform ok prop type xid len keylength =
     (if type \<notin> {1, 2, 3, 4, 5} then (- 2, prop)
      else if \<exists>x\<in>set (prop_xforms prop).
                xform_type x = type \<and> xform_id x = xid \<and> xform_length x = len then (0, prop)
      else if \<not> ok then (- 1, prop)
      else
        (let score = 1 + sum_list (map (\<lambda>x. if xform_type x = type then xform_weight type else 0)
                                     (prop_xforms prop))
         in (0, prop\<lparr>prop_xforms := prop_xforms prop @
              [\<lparr>xform_type = type, xform_id = xid, xform_length = len, xform_keylength = keylength,
                xform_score = score\<rparr>]\<rparr>)))"

definition find_xform :: "int \<Rightarrow> byte \<Rightarrow> iked_transform list \<Rightarrow> iked_transform option" where
  "find_xform xid type xs =
     List.find (\<lambda>x. \<not> (0 \<le> xid \<and> int (unat (xform_id x)) \<noteq> xid) \<and> xform_type x = type) xs"

fun config_findtransform_ext ::
    "iked_proposal list \<Rightarrow> byte \<Rightarrow> int \<Rightarrow> byte \<Rightarrow> iked_transform option" where
  "config_findtransform_ext [] type xid proto = None"
| "config_findtransform_ext (prop # props) type xid proto =
     (if proto \<noteq> 0 \<and> prop_protoid prop \<noteq> proto then config_findtransform_ext props type xid proto
      else (case find_xform xid type (prop_xforms prop) of
              Some x \<Rightarrow> Some x
            | None \<Rightarrow> config_findtransform_ext props type xid proto))"

definition config_findtransform :: "iked_proposal list \<Rightarrow> byte \<Rightarrow> byte \<Rightarrow> iked_transform option" where
  "config_findtransform props type proto = config_findtransform_ext props type (- 1) proto"

subsection \<open>Negotiation\<close>

text \<open>The identifiers and \<^verbatim>\<open>noauth\<close> flags of the table \<^verbatim>\<open>ikeencxfs\<close>; the first entry of an id counts.\<close>

definition ikeencxfs :: "(u16 \<times> bool) list" where
  "ikeencxfs = [(3, False), (3, False), (12, False), (12, False), (12, False),
                (20, True), (20, True), (19, True), (19, True)]"

definition encxf_noauth :: "u16 \<Rightarrow> bool" where
  "encxf_noauth xid = (case map_of ikeencxfs xid of None \<Rightarrow> False | Some b \<Rightarrow> b)"

text \<open>
  The variables of the double loop of \<^verbatim>\<open>proposals_match\<close>.  The array \<^verbatim>\<open>xforms\<close> has an entry per
  transform type, \<open>None\<close> for \<open>NULL\<close>.
\<close>

record match_state =
  requiredh :: bool
  nodh :: bool
  dhforced :: bool
  xforms :: "iked_transform option list"

definition mark_dh :: "bool \<Rightarrow> byte \<Rightarrow> iked_transform \<Rightarrow> match_state \<Rightarrow> match_state" where
  "mark_dh rekey protoid tlocal st =
     (let dh = (rekey \<and> protoid = IKEV2_SAPROTO_ESP \<and> xform_type tlocal = IKEV2_XFORMTYPE_DH)
      in st\<lparr>requiredh := (requiredh st \<or> dh \<and> xform_id tlocal \<noteq> IKEV2_XFORMDH_NONE),
            nodh := (nodh st \<or> dh \<and> xform_id tlocal = IKEV2_XFORMDH_NONE)\<rparr>)"

definition take_xform :: "int \<Rightarrow> iked_transform \<Rightarrow> match_state \<Rightarrow> match_state" where
  "take_xform dhgroup tlocal st =
     (let type = unat (xform_type tlocal);
          dh = (\<not> nodh st \<and> 0 \<le> dhgroup \<and> xform_type tlocal = IKEV2_XFORMTYPE_DH)
      in
      if dh \<and> dhforced st then st
      else
        (let st = (if dh \<and> int (unat (xform_id tlocal)) = dhgroup
                   then st\<lparr>xforms := (xforms st)[type := None], dhforced := True\<rparr> else st)
         in
         (case xforms st ! type of
            None \<Rightarrow> st\<lparr>xforms := (xforms st)[type := Some tlocal]\<rparr>
          | Some x \<Rightarrow>
              if xform_score tlocal < xform_score x
              then st\<lparr>xforms := (xforms st)[type := Some tlocal]\<rparr> else st)))"

text \<open>
  One iteration of the inner loop: the Diffie-Hellman requirements, then the comparison of the
  two transforms, then the choice.
\<close>

definition match_local ::
    "bool \<Rightarrow> int \<Rightarrow> byte \<Rightarrow> iked_transform \<Rightarrow> iked_transform \<Rightarrow> match_state \<Rightarrow> match_state" where
  "match_local rekey dhgroup protoid tpeer tlocal st =
     (let st = mark_dh rekey protoid tlocal st in
      if xform_type tpeer \<noteq> xform_type tlocal \<or> xform_id tpeer \<noteq> xform_id tlocal \<or>
         xform_length tpeer \<noteq> xform_length tlocal then st
      else take_xform dhgroup tlocal st)"

text \<open>The outer loop; \<open>None\<close> is the early \<^verbatim>\<open>return (0)\<close> for an AEAD with an integrity transform.\<close>

fun match_peer ::
    "bool \<Rightarrow> int \<Rightarrow> byte \<Rightarrow> bool \<Rightarrow> iked_transform list \<Rightarrow> iked_transform list \<Rightarrow> match_state \<Rightarrow>
     match_state option" where
  "match_peer rekey dhgroup protoid noauth locals [] st = Some st"
| "match_peer rekey dhgroup protoid noauth locals (tpeer # ts) st =
     (if IKEV2_XFORMTYPE_MAX \<le> unat (xform_type tpeer)
      then match_peer rekey dhgroup protoid noauth locals ts st
      else if noauth \<and> xform_type tpeer = IKEV2_XFORMTYPE_INTEGR then None
      else match_peer rekey dhgroup protoid noauth locals ts
             (fold (\<lambda>tlocal st. match_local rekey dhgroup protoid tpeer tlocal st) locals st))"

text \<open>The condition on which the scoring loop gives up at a type without a match.\<close>

definition missing_fatal :: "byte \<Rightarrow> bool \<Rightarrow> match_state \<Rightarrow> iked_transform list \<Rightarrow> nat \<Rightarrow> bool" where
  "missing_fatal protoid noauth st peerxforms i =
     (protoid = IKEV2_SAPROTO_IKE \<and> (i = 1 \<or> i = 2 \<or> (\<not> noauth \<and> i = 3) \<or> i = 4) \<or>
      protoid = IKEV2_SAPROTO_AH \<and> (i = 3 \<or> i = 5) \<or>
      protoid = IKEV2_SAPROTO_ESP \<and> (i = 1 \<or> i = 5 \<or> (requiredh st \<and> \<not> nodh st \<and> i = 4)) \<or>
      (\<exists>x\<in>set peerxforms. unat (xform_type x) = i))"

fun match_score :: "byte \<Rightarrow> bool \<Rightarrow> match_state \<Rightarrow> iked_transform list \<Rightarrow> nat list \<Rightarrow> nat \<Rightarrow> nat" where
  "match_score protoid noauth st peerxforms [] score = score"
| "match_score protoid noauth st peerxforms (i # is) score =
     (case xforms st ! i of
        None \<Rightarrow> if missing_fatal protoid noauth st peerxforms i then 0
                else match_score protoid noauth st peerxforms is score
      | Some x \<Rightarrow> match_score protoid noauth st peerxforms is (score + xform_score x))"

definition proposals_match ::
    "iked_proposal \<Rightarrow> iked_proposal \<Rightarrow> bool \<Rightarrow> int \<Rightarrow> nat \<times> iked_transform option list" where
  "proposals_match local peer rekey dhgroup =
     (let protoid = prop_protoid peer;
          noauth = (\<exists>x\<in>set (prop_xforms peer).
                      xform_type x = IKEV2_XFORMTYPE_ENCR \<and> encxf_noauth (xform_id x));
          st = \<lparr>requiredh = False, nodh = False, dhforced = False,
                xforms = replicate IKEV2_XFORMTYPE_MAX None\<rparr>
      in
      (case match_peer rekey dhgroup protoid noauth (prop_xforms local) (prop_xforms peer) st of
         None \<Rightarrow> (0, xforms st)
       | Some st' \<Rightarrow> (match_score protoid noauth st' (prop_xforms peer) [0..<IKEV2_XFORMTYPE_MAX] 0,
                      xforms st')))"

text \<open>The best match so far: the score, the matched transforms, the peer's and the local proposal.\<close>

type_synonym chosen = "(nat \<times> iked_transform option list \<times> iked_proposal \<times> iked_proposal) option"

definition negotiate_peer ::
    "iked_proposal \<Rightarrow> bool \<Rightarrow> int \<Rightarrow> iked_proposal \<Rightarrow> chosen \<Rightarrow> chosen" where
  "negotiate_peer plocal rekey groupid ppeer best =
     (if prop_protoid ppeer \<noteq> prop_protoid plocal then best
      else
        (let (score, match) = proposals_match plocal ppeer rekey groupid in
         if score \<noteq> 0 \<and> (case best of None \<Rightarrow> True | Some (s, _) \<Rightarrow> score < s)
         then Some (score, match, ppeer, plocal) else best))"

fun negotiate_loop ::
    "iked_proposal list \<Rightarrow> iked_proposal list \<Rightarrow> bool \<Rightarrow> int \<Rightarrow> chosen" where
  "negotiate_loop [] peer rekey groupid = None"
| "negotiate_loop (plocal # local) peer rekey groupid =
     (case fold (negotiate_peer plocal rekey groupid) peer None of
        Some best \<Rightarrow> Some best
      | None \<Rightarrow> negotiate_loop local peer rekey groupid)"

fun add_transforms :: "bool list \<Rightarrow> iked_proposal \<Rightarrow> iked_transform option list \<Rightarrow> iked_proposal" where
  "add_transforms oks prop [] = prop"
| "add_transforms oks prop (None # xs) = add_transforms oks prop xs"
| "add_transforms oks prop (Some x # xs) =
     (case config_add_transform (case oks of [] \<Rightarrow> True | b # _ \<Rightarrow> b) prop (xform_type x) (xform_id x)
             (xform_length x) (xform_keylength x) of
        (r, prop') \<Rightarrow> if r \<noteq> 0 then prop' else add_transforms (tl oks) prop' xs)"

text \<open>
  \<^verbatim>\<open>result\<close> is \<open>None\<close> for a \<open>NULL\<close> pointer.  The pointer that \<^verbatim>\<open>config_add_proposal\<close> returns is
  used without a check: a failed allocation (\<open>ok\<close> false) is a \<open>NULL\<close> dereference, the outer
  \<open>None\<close>.  \<open>oks\<close> are the outcomes of the allocations of the transforms.
\<close>

definition proposals_negotiate ::
    "bool \<Rightarrow> bool list \<Rightarrow> iked_proposal list option \<Rightarrow> iked_proposal list \<Rightarrow> iked_proposal list \<Rightarrow>
     bool \<Rightarrow> int \<Rightarrow> (int \<times> iked_proposal list option) option" where
  "proposals_negotiate ok oks result local peer rekey groupid =
     (if peer = [] then Some (- 1, result)
      else
        (case (negotiate_loop local peer rekey groupid, result) of
           (None, _) \<Rightarrow> Some (- 1, result)
         | (Some _, None) \<Rightarrow> Some (0, None)
         | (Some (score, match, vpeer, vlocal), Some res) \<Rightarrow> do {
             (i, res') \<leftarrow> config_add_proposal ok (config_free_proposals res (prop_protoid vpeer))
                            (prop_id vpeer) (prop_protoid vpeer);
             let prop = res' ! i;
             let prop = (if spi_size (prop_localspi vpeer) \<noteq> 0
                         then prop\<lparr>prop_localspi := (prop_localspi prop)\<lparr>
                                     spi_size := spi_size (prop_localspi vpeer)\<rparr>,
                                   prop_peerspi := prop_peerspi vpeer\<rparr> else prop);
             let prop = (if spi_size (prop_localspi vlocal) \<noteq> 0
                         then prop\<lparr>prop_localspi := (prop_localspi prop)\<lparr>
                                     spi_size := spi_size (prop_localspi vlocal),
                                     spi := spi (prop_localspi vlocal)\<rparr>\<rparr> else prop);
             Some (0, Some (res'[i := add_transforms oks prop match])) }))"

subsection \<open>Specification: which proposals are acceptable\<close>

text \<open>Two transforms agree when type, id and key length attribute are the same.\<close>

definition same_xform :: "iked_transform \<Rightarrow> iked_transform \<Rightarrow> bool" where
  "same_xform x y \<longleftrightarrow> xform_type x = xform_type y \<and> xform_id x = xform_id y \<and>
     xform_length x = xform_length y"

definition offers_aead :: "iked_proposal \<Rightarrow> bool" where
  "offers_aead p \<longleftrightarrow> (\<exists>x\<in>set (prop_xforms p).
     xform_type x = IKEV2_XFORMTYPE_ENCR \<and> encxf_noauth (xform_id x))"

definition offers :: "iked_proposal \<Rightarrow> nat \<Rightarrow> bool" where
  "offers p i \<longleftrightarrow> (\<exists>x\<in>set (prop_xforms p). unat (xform_type x) = i)"

definition common :: "iked_proposal \<Rightarrow> iked_proposal \<Rightarrow> nat \<Rightarrow> bool" where
  "common l p i \<longleftrightarrow> (\<exists>x\<in>set (prop_xforms l). \<exists>y\<in>set (prop_xforms p).
     same_xform y x \<and> unat (xform_type x) = i)"

definition pfs_required :: "iked_proposal \<Rightarrow> bool \<Rightarrow> bool" where
  "pfs_required l rekey \<longleftrightarrow> rekey \<and>
     (\<exists>x\<in>set (prop_xforms l). xform_type x = IKEV2_XFORMTYPE_DH \<and> xform_id x \<noteq> IKEV2_XFORMDH_NONE) \<and>
     \<not> (\<exists>x\<in>set (prop_xforms l). xform_type x = IKEV2_XFORMTYPE_DH \<and> xform_id x = IKEV2_XFORMDH_NONE)"

definition mandatory :: "iked_proposal \<Rightarrow> iked_proposal \<Rightarrow> bool \<Rightarrow> nat \<Rightarrow> bool" where
  "mandatory l p rekey i \<longleftrightarrow>
     (prop_protoid p = IKEV2_SAPROTO_IKE \<and> (i = 1 \<or> i = 2 \<or> (\<not> offers_aead p \<and> i = 3) \<or> i = 4)) \<or>
     (prop_protoid p = IKEV2_SAPROTO_AH \<and> (i = 3 \<or> i = 5)) \<or>
     (prop_protoid p = IKEV2_SAPROTO_ESP \<and> (i = 1 \<or> i = 5 \<or> (pfs_required l rekey \<and> i = 4)))"

text \<open>
  A peer proposal is acceptable under a local one when it does not combine an AEAD with an
  integrity transform, there is a common transform for every type that the protocol requires and
  for every type that the peer offers, and at least one common transform at all.
\<close>

definition acceptable :: "iked_proposal \<Rightarrow> iked_proposal \<Rightarrow> bool \<Rightarrow> bool" where
  "acceptable l p rekey \<longleftrightarrow>
     \<not> (offers_aead p \<and> offers p 3) \<and>
     (\<forall>i<IKEV2_XFORMTYPE_MAX. mandatory l p rekey i \<or> offers p i \<longrightarrow> common l p i) \<and>
     (\<exists>i<IKEV2_XFORMTYPE_MAX. common l p i)"

definition scored :: "iked_proposal \<Rightarrow> bool" where
  "scored l \<longleftrightarrow> (\<forall>x\<in>set (prop_xforms l). 0 < xform_score x)"

subsection \<open>The matching loop\<close>

type_synonym pairs = "(iked_transform \<times> iked_transform) set"

text \<open>
  What the loop knows after the set \<open>S\<close> of (peer, local) pairs: an entry comes from an agreeing
  pair, every agreeing pair has an entry, the entry is the best one unless a group is forced, and
  the flags record the local groups.
\<close>

definition chosen_ok :: "pairs \<Rightarrow> match_state \<Rightarrow> bool" where
  "chosen_ok S st \<longleftrightarrow> length (xforms st) = IKEV2_XFORMTYPE_MAX \<and>
     (\<forall>i<IKEV2_XFORMTYPE_MAX. \<forall>x. xforms st ! i = Some x \<longrightarrow>
        unat (xform_type x) = i \<and> (\<exists>y. (y, x) \<in> S \<and> same_xform y x))"

definition covered :: "pairs \<Rightarrow> match_state \<Rightarrow> bool" where
  "covered S st \<longleftrightarrow> (dhforced st \<longrightarrow> xforms st ! 4 \<noteq> None) \<and>
     (\<forall>y x. (y, x) \<in> S \<longrightarrow> same_xform y x \<longrightarrow> xforms st ! unat (xform_type x) \<noteq> None)"

definition best_score :: "int \<Rightarrow> pairs \<Rightarrow> match_state \<Rightarrow> bool" where
  "best_score dhgroup S st \<longleftrightarrow> (\<forall>y x z. (y, x) \<in> S \<longrightarrow> same_xform y x \<longrightarrow>
     xform_type x \<noteq> IKEV2_XFORMTYPE_DH \<or> dhgroup < 0 \<longrightarrow>
     xforms st ! unat (xform_type x) = Some z \<longrightarrow> xform_score z \<le> xform_score x)"

definition flags_ok :: "bool \<Rightarrow> byte \<Rightarrow> pairs \<Rightarrow> match_state \<Rightarrow> bool" where
  "flags_ok rekey protoid S st \<longleftrightarrow>
     (requiredh st \<longleftrightarrow> rekey \<and> protoid = IKEV2_SAPROTO_ESP \<and>
        (\<exists>x\<in>snd ` S. xform_type x = IKEV2_XFORMTYPE_DH \<and> xform_id x \<noteq> IKEV2_XFORMDH_NONE)) \<and>
     (nodh st \<longleftrightarrow> rekey \<and> protoid = IKEV2_SAPROTO_ESP \<and>
        (\<exists>x\<in>snd ` S. xform_type x = IKEV2_XFORMTYPE_DH \<and> xform_id x = IKEV2_XFORMDH_NONE))"

definition match_inv :: "bool \<Rightarrow> int \<Rightarrow> byte \<Rightarrow> pairs \<Rightarrow> match_state \<Rightarrow> bool" where
  "match_inv rekey dhgroup protoid S st \<longleftrightarrow>
     chosen_ok S st \<and> covered S st \<and> best_score dhgroup S st \<and> flags_ok rekey protoid S st"

lemma match_local_steps:
  "match_local rekey dhgroup protoid y x st =
     (if same_xform y x then take_xform dhgroup x (mark_dh rekey protoid x st)
      else mark_dh rekey protoid x st)"
  by (auto simp: match_local_def same_xform_def)

lemma mark_dh_fields [simp]:
  "xforms (mark_dh rekey protoid x st) = xforms st"
  "dhforced (mark_dh rekey protoid x st) = dhforced st"
  "requiredh (mark_dh rekey protoid x st) \<longleftrightarrow> requiredh st \<or> rekey \<and> protoid = IKEV2_SAPROTO_ESP \<and>
     xform_type x = IKEV2_XFORMTYPE_DH \<and> xform_id x \<noteq> IKEV2_XFORMDH_NONE"
  "nodh (mark_dh rekey protoid x st) \<longleftrightarrow> nodh st \<or> rekey \<and> protoid = IKEV2_SAPROTO_ESP \<and>
     xform_type x = IKEV2_XFORMTYPE_DH \<and> xform_id x = IKEV2_XFORMDH_NONE"
  by (simp_all add: mark_dh_def Let_def)

text \<open>
  The four ways the entry of a type changes: it stays (a forced group), it is set or replaced by
  the local transform, or it stays because it scores at least as well.
\<close>

lemma take_xform_cases:
  fixes st :: match_state and x :: iked_transform
  defines "i \<equiv> unat (xform_type x)"
  assumes "length (xforms st) = IKEV2_XFORMTYPE_MAX" "i < IKEV2_XFORMTYPE_MAX"
  obtains (forced) "take_xform dhgroup x st = st" "dhforced st" "0 \<le> dhgroup"
      "xform_type x = IKEV2_XFORMTYPE_DH"
    | (new) f where "take_xform dhgroup x st = st\<lparr>xforms := (xforms st)[i := Some x], dhforced := f\<rparr>"
      "xforms st ! i = None \<or> (0 \<le> dhgroup \<and> xform_type x = IKEV2_XFORMTYPE_DH)"
      "f \<longrightarrow> dhforced st \<or> i = 4"
    | (better) z where "take_xform dhgroup x st = st\<lparr>xforms := (xforms st)[i := Some x]\<rparr>"
      "xforms st ! i = Some z" "xform_score x < xform_score z"
    | (keep) z where "take_xform dhgroup x st = st" "xforms st ! i = Some z" "xform_score z \<le> xform_score x"
proof -
  let ?dh = "\<not> nodh st \<and> 0 \<le> dhgroup \<and> xform_type x = IKEV2_XFORMTYPE_DH"
  consider (a) "?dh" "dhforced st" | (b) "?dh" "\<not> dhforced st" "int (unat (xform_id x)) = dhgroup"
    | (c) "\<not> (?dh \<and> dhforced st)" "\<not> (?dh \<and> int (unat (xform_id x)) = dhgroup)" by blast
  then show thesis
  proof cases
    case a
    then have "take_xform dhgroup x st = st"
      by (simp add: take_xform_def Let_def)
    then show ?thesis using a forced by blast
  next
    case b
    then have c: "(?dh \<and> dhforced st) = False" "(?dh \<and> int (unat (xform_id x)) = dhgroup) = True"
      by blast+
    have "take_xform dhgroup x st = st\<lparr>xforms := (xforms st)[i := Some x], dhforced := True\<rparr>"
      unfolding take_xform_def Let_def c i_def[symmetric] using assms(2,3) by simp
    moreover have "i = 4"
      using b by (simp add: i_def)
    ultimately show ?thesis using b new by blast
  next
    case c
    then have c': "(?dh \<and> dhforced st) = False" "(?dh \<and> int (unat (xform_id x)) = dhgroup) = False"
      by blast+
    have e: "take_xform dhgroup x st =
        (case xforms st ! i of
            None \<Rightarrow> st\<lparr>xforms := (xforms st)[i := Some x]\<rparr>
          | Some z \<Rightarrow> if xform_score x < xform_score z then st\<lparr>xforms := (xforms st)[i := Some x]\<rparr> else st)"
      unfolding take_xform_def Let_def c' i_def[symmetric] by simp
    show ?thesis
    proof (cases "xforms st ! i")
      case None
      then have "take_xform dhgroup x st = st\<lparr>xforms := (xforms st)[i := Some x], dhforced := dhforced st\<rparr>"
        using e by simp
      then show ?thesis using None new by blast
    next
      case (Some z)
      then show ?thesis
        using e better keep by (cases "xform_score x < xform_score z") (auto simp: not_less)
    qed
  qed
qed

lemma take_xform_flags [simp]:
  "requiredh (take_xform dhgroup x st) = requiredh st" "nodh (take_xform dhgroup x st) = nodh st"
  by (simp_all add: take_xform_def Let_def split: option.split)

lemma flags_step: "flags_ok rekey protoid S st \<Longrightarrow>
    flags_ok rekey protoid (insert (y, x) S) (match_local rekey dhgroup protoid y x st)"
  by (auto simp: flags_ok_def match_local_steps)

abbreviation xforms_inv :: "int \<Rightarrow> pairs \<Rightarrow> match_state \<Rightarrow> bool" where
  "xforms_inv dhgroup S st \<equiv> chosen_ok S st \<and> covered S st \<and> best_score dhgroup S st"

lemma xforms_inv_keep:
  assumes "xforms_inv dhgroup S st" "xforms st' = xforms st" "dhforced st' = dhforced st"
    and "same_xform y x \<longrightarrow> xforms st ! unat (xform_type x) \<noteq> None"
    and "\<And>z. same_xform y x \<Longrightarrow> xform_type x \<noteq> IKEV2_XFORMTYPE_DH \<or> dhgroup < 0 \<Longrightarrow>
           xforms st ! unat (xform_type x) = Some z \<Longrightarrow> xform_score z \<le> xform_score x"
  shows "xforms_inv dhgroup (insert (y, x) S) st'"
  using assms unfolding chosen_ok_def covered_def best_score_def by (auto; blast)

lemma xforms_inv_set:
  fixes x :: iked_transform
  defines "i \<equiv> unat (xform_type x)"
  assumes "xforms_inv dhgroup S st" "xforms st' = (xforms st)[i := Some x]"
    and "i < IKEV2_XFORMTYPE_MAX" "same_xform y x" "dhforced st' \<longrightarrow> dhforced st \<or> i = 4"
    and "\<And>z. xform_type x \<noteq> IKEV2_XFORMTYPE_DH \<or> dhgroup < 0 \<Longrightarrow> xforms st ! i = Some z \<Longrightarrow>
           xform_score x \<le> xform_score z"
  shows "xforms_inv dhgroup (insert (y, x) S) st'"
proof -
  have len: "length (xforms st) = IKEV2_XFORMTYPE_MAX"
    using assms(2) by (simp add: chosen_ok_def)
  have nth: "xforms st' ! j = (if j = i then Some x else xforms st ! j)" for j
    using assms(3,4) len by (simp add: nth_list_update)
  have tyi: "unat (xform_type z) = i \<longleftrightarrow> xform_type z = xform_type x" for z :: iked_transform
    by (simp add: i_def word_unat_eq_iff)
  have 1: "chosen_ok (insert (y, x) S) st'"
    unfolding chosen_ok_def
  proof (intro conjI allI impI)
    show "length (xforms st') = IKEV2_XFORMTYPE_MAX"
      using assms(3) len by simp
    fix j z
    assume j: "j < IKEV2_XFORMTYPE_MAX" "xforms st' ! j = Some z"
    show "unat (xform_type z) = j" "\<exists>v. (v, z) \<in> insert (y, x) S \<and> same_xform v z"
      using j nth assms(2,5) unfolding chosen_ok_def i_def by (auto split: if_splits) blast+
  qed
  have 2: "covered (insert (y, x) S) st'"
    using assms(2,6) nth by (auto simp: covered_def i_def)
  have "xform_score v \<le> xform_score w"
    if uw: "(u, w) \<in> insert (y, x) S" "same_xform u w" "xform_type w \<noteq> IKEV2_XFORMTYPE_DH \<or> dhgroup < 0"
      "xforms st' ! unat (xform_type w) = Some v" for u v w
  proof (cases "unat (xform_type w) = i")
    case True
    then have v: "v = x" "xform_type w = xform_type x"
      using uw(4) nth tyi by auto
    show ?thesis
    proof (cases "(u, w) \<in> S")
      case True
      obtain z where z: "xforms st ! i = Some z"
        using assms(2) True uw(2) v(2) unfolding covered_def i_def by fastforce
      have "xform_score z \<le> xform_score w"
        using assms(2) True uw(2,3) z v(2) unfolding best_score_def i_def by metis
      moreover have "xform_score x \<le> xform_score z"
        using assms(7)[OF _ z] uw(3) v(2) by simp
      ultimately show ?thesis using v(1) by simp
    qed (use uw(1) v(1) in auto)
  next
    case False
    then have "(u, w) \<in> S"
      using uw(1) by (auto simp: i_def)
    then show ?thesis
      using assms(2) uw False nth unfolding best_score_def by metis
  qed
  then show ?thesis
    using 1 2 unfolding best_score_def by blast
qed

lemma xforms_step:
  assumes "xforms_inv dhgroup S st" "unat (xform_type y) < IKEV2_XFORMTYPE_MAX"
  shows "xforms_inv dhgroup (insert (y, x) S) (match_local rekey dhgroup protoid y x st)"
proof (cases "same_xform y x")
  case False
  then show ?thesis
    using xforms_inv_keep[OF assms(1), of "mark_dh rekey protoid x st" y x]
    by (simp add: match_local_steps)
next
  case True
  let ?i = "unat (xform_type x)" and ?m = "mark_dh rekey protoid x st"
  let ?st = "match_local rekey dhgroup protoid y x st"
  have i: "?i < IKEV2_XFORMTYPE_MAX" and len: "length (xforms ?m) = IKEV2_XFORMTYPE_MAX"
    using True assms by (simp_all add: same_xform_def chosen_ok_def)
  have st: "?st = take_xform dhgroup x ?m"
    using True by (simp add: match_local_steps)
  show ?thesis
  proof (cases rule: take_xform_cases[of ?m x dhgroup, OF len i])
    case 1
    then show ?thesis
      using xforms_inv_keep[OF assms(1), of ?st y x] st assms(1) by (auto simp: covered_def)
  next
    case (2 f)
    then show ?thesis
      using xforms_inv_set[OF assms(1) _ i True, of ?st] st by auto
  next
    case (3 z)
    show ?thesis
      by (rule xforms_inv_set[OF assms(1) _ i True]) (use 3 st in auto)
  next
    case (4 z)
    then show ?thesis
      using xforms_inv_keep[OF assms(1), of ?st y x] st by auto
  qed
qed

lemma match_inv_step: "match_inv rekey dhgroup protoid S st \<Longrightarrow>
    unat (xform_type y) < IKEV2_XFORMTYPE_MAX \<Longrightarrow>
    match_inv rekey dhgroup protoid (insert (y, x) S) (match_local rekey dhgroup protoid y x st)"
  using xforms_step flags_step by (simp add: match_inv_def)

lemma match_inv_fold:
  assumes "match_inv rekey dhgroup protoid S st" "unat (xform_type y) < IKEV2_XFORMTYPE_MAX"
  shows "match_inv rekey dhgroup protoid (S \<union> Pair y ` set xs)
     (fold (match_local rekey dhgroup protoid y) xs st)"
  using assms(1)
proof (induction xs arbitrary: S st)
  case (Cons x xs)
  then show ?case
    using Cons.IH[OF match_inv_step[OF Cons.prems assms(2), of x]] by simp
qed simp

definition known :: "iked_transform list \<Rightarrow> iked_transform list" where
  "known ts = filter (\<lambda>y. unat (xform_type y) < IKEV2_XFORMTYPE_MAX) ts"

lemma match_peer_spec:
  assumes "match_inv rekey dhgroup protoid S st"
  shows "(match_peer rekey dhgroup protoid noauth locals ts st = None \<longleftrightarrow>
       noauth \<and> (\<exists>y\<in>set ts. xform_type y = IKEV2_XFORMTYPE_INTEGR)) \<and>
     (\<forall>st'. match_peer rekey dhgroup protoid noauth locals ts st = Some st' \<longrightarrow>
       match_inv rekey dhgroup protoid (S \<union> set (known ts) \<times> set locals) st')"
  using assms
proof (induction ts arbitrary: S st)
  case (Cons y ts)
  consider (big) "\<not> unat (xform_type y) < IKEV2_XFORMTYPE_MAX"
    | (aead) "noauth" "xform_type y = IKEV2_XFORMTYPE_INTEGR"
    | (use) "unat (xform_type y) < IKEV2_XFORMTYPE_MAX" "\<not> (noauth \<and> xform_type y = IKEV2_XFORMTYPE_INTEGR)"
    by blast
  then show ?case
  proof cases
    case big
    then show ?thesis
      using Cons by (auto simp: known_def)
  next
    case aead
    then show ?thesis by simp
  next
    case use
    note inv = match_inv_fold[OF Cons.prems use(1), of locals]
    have "S \<union> Pair y ` set locals \<union> set (known ts) \<times> set locals = S \<union> set (known (y # ts)) \<times> set locals"
      using use(1) by (auto simp: known_def)
    then show ?thesis
      using Cons.IH[OF inv] use by (auto simp: not_le)
  qed
qed (simp add: known_def)

lemma match_score_pos:
  assumes "\<And>i x. i \<in> set is \<Longrightarrow> xforms st ! i = Some x \<Longrightarrow> 0 < xform_score x"
  shows "match_score protoid noauth st ps is score \<noteq> 0 \<longleftrightarrow>
     (\<forall>i\<in>set is. xforms st ! i = None \<longrightarrow> \<not> missing_fatal protoid noauth st ps i) \<and>
     (0 < score \<or> (\<exists>i\<in>set is. xforms st ! i \<noteq> None))"
  using assms
proof (induction "is" arbitrary: score)
  case (Cons i "is")
  show ?case
  proof (cases "xforms st ! i")
    case None
    then show ?thesis
      using Cons by auto
  next
    case (Some x)
    then have "0 < xform_score x"
      using Cons.prems[of i x] by simp
    then show ?thesis
      using Some Cons.IH[of "score + xform_score x"] Cons.prems by auto
  qed
qed simp

lemma match_inv_init: "match_inv rekey dhgroup protoid {}
    \<lparr>requiredh = False, nodh = False, dhforced = False, xforms = replicate IKEV2_XFORMTYPE_MAX None\<rparr>"
  by (auto simp: match_inv_def chosen_ok_def covered_def best_score_def flags_ok_def)

lemma common_iff_known:
  "i < IKEV2_XFORMTYPE_MAX \<Longrightarrow> common l p i \<longleftrightarrow>
     (\<exists>(y, x)\<in>set (known (prop_xforms p)) \<times> set (prop_xforms l).
        same_xform y x \<and> unat (xform_type x) = i)"
  by (auto simp: common_def known_def same_xform_def)

lemma match_inv_common:
  assumes "match_inv rekey g proto (set (known (prop_xforms p)) \<times> set (prop_xforms l)) st"
    "i < IKEV2_XFORMTYPE_MAX"
  shows "xforms st ! i \<noteq> None \<longleftrightarrow> common l p i"
  using assms
  by (auto simp: common_iff_known match_inv_def chosen_ok_def covered_def) blast+

lemma match_inv_fatal:
  assumes inv: "match_inv rekey g (prop_protoid p) (set (known (prop_xforms p)) \<times> set (prop_xforms l)) st"
    and "known (prop_xforms p) \<noteq> []"
  shows "missing_fatal (prop_protoid p) (offers_aead p) st (prop_xforms p) i \<longleftrightarrow>
     mandatory l p rekey i \<or> offers p i"
proof -
  have "snd ` (set (known (prop_xforms p)) \<times> set (prop_xforms l)) = set (prop_xforms l)"
    using assms(2) by (cases "known (prop_xforms p)") force+
  then have "prop_protoid p = IKEV2_SAPROTO_ESP \<Longrightarrow> requiredh st \<and> \<not> nodh st \<longleftrightarrow> pfs_required l rekey"
    using inv by (auto simp: match_inv_def flags_ok_def pfs_required_def)
  then show ?thesis
    by (auto simp: missing_fatal_def mandatory_def offers_def)
qed

lemma proposals_match_cases:
  obtains (aead) "offers_aead p" "offers p 3" "fst (proposals_match l p rekey g) = 0"
  | (st) st where "\<not> (offers_aead p \<and> offers p 3)"
      "match_inv rekey g (prop_protoid p) (set (known (prop_xforms p)) \<times> set (prop_xforms l)) st"
      "proposals_match l p rekey g = (match_score (prop_protoid p) (offers_aead p) st (prop_xforms p)
          [0..<IKEV2_XFORMTYPE_MAX] 0, xforms st)"
proof -
  define st0 where "st0 = \<lparr>requiredh = False, nodh = False, dhforced = False,
    xforms = replicate IKEV2_XFORMTYPE_MAX (None :: iked_transform option)\<rparr>"
  define r where "r = match_peer rekey g (prop_protoid p) (offers_aead p) (prop_xforms l) (prop_xforms p) st0"
  have inv0: "match_inv rekey g (prop_protoid p) {} st0"
    unfolding st0_def by (rule match_inv_init)
  have e: "proposals_match l p rekey g =
      (case r of None \<Rightarrow> (0, xforms st0)
       | Some st \<Rightarrow> (match_score (prop_protoid p) (offers_aead p) st (prop_xforms p)
           [0..<IKEV2_XFORMTYPE_MAX] 0, xforms st))"
    unfolding proposals_match_def Let_def r_def st0_def offers_aead_def ..
  have three: "offers p 3 \<longleftrightarrow> (\<exists>y\<in>set (prop_xforms p). xform_type y = IKEV2_XFORMTYPE_INTEGR)"
    by (auto simp: offers_def word_unat_eq_iff)
  note spec = match_peer_spec[OF inv0, of "offers_aead p" "prop_xforms l" "prop_xforms p"]
  show thesis
  proof (cases r)
    case None
    then have "offers_aead p" "offers p 3" "fst (proposals_match l p rekey g) = 0"
      using spec e three by (auto simp: r_def)
    then show ?thesis using aead by blast
  next
    case (Some st)
    moreover have "\<not> (offers_aead p \<and> offers p 3)"
      using spec three Some by (auto simp: r_def)
    ultimately show ?thesis
      using st spec e by (auto simp: r_def)
  qed
qed

lemma proposals_match_iff:
  assumes "scored l"
  shows "fst (proposals_match l p rekey g) \<noteq> 0 \<longleftrightarrow> acceptable l p rekey"
proof (cases rule: proposals_match_cases[of p l rekey g])
  case aead
  then show ?thesis by (simp add: acceptable_def)
next
  case (st st)
  have pos: "0 < xform_score x" if "i \<in> set [0..<IKEV2_XFORMTYPE_MAX]" "xforms st ! i = Some x" for i x
    using st(2) that assms by (fastforce simp: match_inv_def chosen_ok_def scored_def)
  have *: "fst (proposals_match l p rekey g) \<noteq> 0 \<longleftrightarrow>
      (\<forall>i<IKEV2_XFORMTYPE_MAX. xforms st ! i = None \<longrightarrow>
         \<not> missing_fatal (prop_protoid p) (offers_aead p) st (prop_xforms p) i) \<and>
      (\<exists>i<IKEV2_XFORMTYPE_MAX. common l p i)"
    using match_score_pos[of "[0..<IKEV2_XFORMTYPE_MAX]" st "prop_protoid p" "offers_aead p" "prop_xforms p" 0, OF pos]
      st(3) match_inv_common[OF st(2)] by auto
  show ?thesis
  proof (cases "known (prop_xforms p) = []")
    case True
    then have "\<not> (\<exists>i<IKEV2_XFORMTYPE_MAX. common l p i)"
      by (simp add: common_iff_known)
    then show ?thesis
      using * unfolding acceptable_def by blast
  next
    case False
    have "xforms st ! i = None \<longleftrightarrow> \<not> common l p i" if "i < IKEV2_XFORMTYPE_MAX" for i
      using match_inv_common[OF st(2) that] by blast
    then show ?thesis
      using * st(1) match_inv_fatal[OF st(2) False] unfolding acceptable_def by blast
  qed
qed

subsection \<open>The choice of a proposal\<close>

definition match_ok :: "iked_proposal \<Rightarrow> iked_proposal \<Rightarrow> bool \<Rightarrow> bool" where
  "match_ok l p rekey \<longleftrightarrow> prop_protoid p = prop_protoid l \<and> acceptable l p rekey"

lemma negotiate_peer_eq:
  assumes "scored l"
  shows "negotiate_peer l rekey g p best =
     (if match_ok l p rekey \<and>
         (case best of None \<Rightarrow> True | Some (s, _) \<Rightarrow> fst (proposals_match l p rekey g) < s)
      then Some (fst (proposals_match l p rekey g), snd (proposals_match l p rekey g), p, l) else best)"
  using proposals_match_iff[OF assms, of p rekey g]
  by (auto simp: negotiate_peer_def match_ok_def Let_def case_prod_beta)

definition best_of :: "iked_proposal \<Rightarrow> bool \<Rightarrow> int \<Rightarrow> iked_proposal set \<Rightarrow> chosen \<Rightarrow> bool" where
  "best_of l rekey g P best \<longleftrightarrow>
     (case best of
        None \<Rightarrow> \<forall>p\<in>P. \<not> match_ok l p rekey
      | Some (s, m, vp, vl) \<Rightarrow> vl = l \<and> vp \<in> P \<and> match_ok l vp rekey \<and>
          proposals_match l vp rekey g = (s, m) \<and>
          (\<forall>p\<in>P. match_ok l p rekey \<longrightarrow> s \<le> fst (proposals_match l p rekey g)))"

lemma best_of_step:
  assumes "scored l" "best_of l rekey g P best"
  shows "best_of l rekey g (insert p P) (negotiate_peer l rekey g p best)"
proof (cases best)
  case None
  then show ?thesis
    using assms(2) by (simp add: negotiate_peer_eq[OF assms(1)] best_of_def)
next
  case (Some b)
  obtain s m vp vl where b: "b = (s, m, vp, vl)" by (cases b)
  have B: "vl = l" "vp \<in> P" "match_ok l vp rekey" "proposals_match l vp rekey g = (s, m)"
    "\<forall>q\<in>P. match_ok l q rekey \<longrightarrow> s \<le> fst (proposals_match l q rekey g)"
    using assms(2) Some b by (simp_all add: best_of_def)
  show ?thesis
  proof (cases "match_ok l p rekey \<and> fst (proposals_match l p rekey g) < s")
    case True
    then show ?thesis
      using B Some b by (auto simp: negotiate_peer_eq[OF assms(1)] best_of_def)
  next
    case False
    then show ?thesis
      using B Some b by (auto simp: negotiate_peer_eq[OF assms(1)] best_of_def)
  qed
qed

lemma best_of_fold:
  assumes "scored l" "best_of l rekey g P best"
  shows "best_of l rekey g (P \<union> set ps) (fold (negotiate_peer l rekey g) ps best)"
  using assms(2)
proof (induction ps arbitrary: P best)
  case (Cons p ps)
  then show ?case
    using Cons.IH[OF best_of_step[OF assms(1) Cons.prems, of p]] by simp
qed simp

lemma negotiate_loop_spec:
  assumes "\<forall>l\<in>set local. scored l"
  shows "case negotiate_loop local peer rekey g of
       None \<Rightarrow> \<forall>l\<in>set local. \<forall>p\<in>set peer. \<not> match_ok l p rekey
     | Some best \<Rightarrow> \<exists>ls l ls'. local = ls @ l # ls' \<and> best_of l rekey g (set peer) (Some best) \<and>
         (\<forall>l'\<in>set ls. \<forall>p\<in>set peer. \<not> match_ok l' p rekey)"
  using assms
proof (induction local)
  case (Cons l local)
  have b: "best_of l rekey g (set peer) (fold (negotiate_peer l rekey g) peer None)"
    using best_of_fold[of l rekey g "{}" None peer] Cons.prems by (simp add: best_of_def)
  show ?case
  proof (cases "fold (negotiate_peer l rekey g) peer None")
    case None
    then have no: "\<forall>p\<in>set peer. \<not> match_ok l p rekey"
      using b by (simp add: best_of_def)
    show ?thesis
    proof (cases "negotiate_loop local peer rekey g")
      case (Some best)
      then obtain ls l' ls' where "local = ls @ l' # ls'" "best_of l' rekey g (set peer) (Some best)"
          "\<forall>l''\<in>set ls. \<forall>p\<in>set peer. \<not> match_ok l'' p rekey"
        using Cons by auto
      then have "l # local = (l # ls) @ l' # ls'" "best_of l' rekey g (set peer) (Some best)"
          "\<forall>l''\<in>set (l # ls). \<forall>p\<in>set peer. \<not> match_ok l'' p rekey"
        using no by auto
      moreover have "negotiate_loop (l # local) peer rekey g = Some best"
        using None Some by simp
      ultimately show ?thesis
        by (simp only: option.case) blast
    qed (use None no Cons in simp)
  next
    case (Some best)
    then show ?thesis
      using b by (simp only: negotiate_loop.simps option.case)
        (intro exI[of _ "[]"] exI[of _ l] exI[of _ local], simp)
  qed
qed simp

subsection \<open>Well-formed proposals\<close>

definition prop_wf :: "iked_proposal \<Rightarrow> bool" where
  "prop_wf p \<longleftrightarrow> (\<forall>x\<in>set (prop_xforms p). xform_type x \<in> {1, 2, 3, 4, 5} \<and> 0 < xform_score x)"

lemma prop_wf_scored: "prop_wf p \<Longrightarrow> scored p"
  by (simp add: prop_wf_def scored_def)

lemma config_add_transform_wf:
  "prop_wf p \<Longrightarrow> prop_wf (snd (config_add_transform ok p ty xid len kl))"
  by (auto simp: prop_wf_def config_add_transform_def Let_def)

lemma config_add_transform_new:
  assumes "ty \<in> {1, 2, 3, 4, 5}" "ty \<notin> xform_type ` set (prop_xforms p)"
  shows "config_add_transform True p ty xid len kl =
     (0, p\<lparr>prop_xforms := prop_xforms p @ [\<lparr>xform_type = ty, xform_id = xid, xform_length = len,
           xform_keylength = kl, xform_score = 1\<rparr>]\<rparr>)"
proof -
  have 1: "\<not> (\<exists>x\<in>set (prop_xforms p). xform_type x = ty \<and> xform_id x = xid \<and> xform_length x = len)"
    using assms(2) by auto
  have 2: "sum_list (map (\<lambda>x. if xform_type x = ty then xform_weight ty else 0) (prop_xforms p)) = 0"
    using assms(2) by (auto simp: sum_list_eq_0_iff)
  show ?thesis
    unfolding config_add_transform_def Let_def 2 using assms(1) 1 by auto
qed

fun somes :: "'a option list \<Rightarrow> 'a list" where
  "somes [] = []"
| "somes (None # xs) = somes xs"
| "somes (Some x # xs) = x # somes xs"

lemma set_somes: "set (somes xs) = {x. Some x \<in> set xs}"
  by (induction xs rule: somes.induct) auto

lemma add_transforms_fresh:
  assumes "\<forall>x\<in>set (somes m). xform_type x \<in> {1, 2, 3, 4, 5}" "distinct (map xform_type (somes m))"
    "\<forall>x\<in>set (somes m). xform_type x \<notin> xform_type ` set (prop_xforms p)"
  shows "add_transforms [] p m =
     p\<lparr>prop_xforms := prop_xforms p @ map (\<lambda>x. x\<lparr>xform_score := 1\<rparr>) (somes m)\<rparr>"
  using assms
proof (induction m arbitrary: p rule: somes.induct)
  case (3 x xs)
  let ?x = "\<lparr>xform_type = xform_type x, xform_id = xform_id x, xform_length = xform_length x,
      xform_keylength = xform_keylength x, xform_score = 1\<rparr>"
  let ?p = "p\<lparr>prop_xforms := prop_xforms p @ [?x]\<rparr>"
  have x: "?x = x\<lparr>xform_score := 1\<rparr>"
    by (cases x) simp
  have "config_add_transform True p (xform_type x) (xform_id x) (xform_length x) (xform_keylength x) = (0, ?p)"
    using config_add_transform_new 3(2,4) by simp
  then have "add_transforms [] p (Some x # xs) = add_transforms [] ?p xs"
    by simp
  also have "\<dots> = ?p\<lparr>prop_xforms := prop_xforms ?p @ map (\<lambda>x. x\<lparr>xform_score := 1\<rparr>) (somes xs)\<rparr>"
    using 3(2-4) by (intro 3(1)) auto
  finally show ?case
    using x by simp
qed auto

lemma somes_typed_distinct:
  assumes "\<forall>i<length m. \<forall>x. m ! i = Some x \<longrightarrow> unat (xform_type x) = k + i"
  shows "distinct (map xform_type (somes m)) \<and>
     (\<forall>x\<in>set (somes m). k \<le> unat (xform_type x) \<and> unat (xform_type x) < k + length m)"
  using assms
proof (induction m arbitrary: k)
  case (Cons a m)
  have "\<forall>i<length m. \<forall>x. m ! i = Some x \<longrightarrow> unat (xform_type x) = Suc k + i"
    using Cons.prems by fastforce
  note IH = Cons.IH[OF this]
  show ?case
  proof (cases a)
    case (Some x)
    then have "unat (xform_type x) = k"
      using Cons.prems by fastforce
    then show ?thesis
      using IH Some by fastforce
  qed (use IH in fastforce)
qed simp

lemma find_proposal_None: "\<forall>p\<in>set ps. prop_protoid p \<noteq> proto \<Longrightarrow> find_proposal ps pid proto = None"
  by (induction ps) auto

subsection \<open>Negotiation is sound and complete\<close>

text \<open>
  A transform that may be chosen for its type: a local one that the peer offers too, and, unless a
  Diffie-Hellman group was asked for, one with the best local score of its type.
\<close>

definition best_common :: "iked_proposal \<Rightarrow> iked_proposal \<Rightarrow> int \<Rightarrow> iked_transform \<Rightarrow> bool" where
  "best_common l p g x \<longleftrightarrow> x \<in> set (prop_xforms l) \<and> (\<exists>y\<in>set (prop_xforms p). same_xform y x) \<and>
     (xform_type x \<noteq> IKEV2_XFORMTYPE_DH \<or> g < 0 \<longrightarrow>
      (\<forall>x'\<in>set (prop_xforms l). \<forall>y\<in>set (prop_xforms p).
         same_xform y x' \<and> xform_type x' = xform_type x \<longrightarrow> xform_score x \<le> xform_score x'))"

lemma match_chosen:
  assumes "match_inv rekey g proto (set (known (prop_xforms p)) \<times> set (prop_xforms l)) st"
  shows "length (xforms st) = IKEV2_XFORMTYPE_MAX \<and>
    (\<forall>i<IKEV2_XFORMTYPE_MAX. (xforms st ! i \<noteq> None \<longleftrightarrow> common l p i) \<and>
      (\<forall>x. xforms st ! i = Some x \<longrightarrow> unat (xform_type x) = i \<and> best_common l p g x))"
proof (intro conjI allI impI)
  show "length (xforms st) = IKEV2_XFORMTYPE_MAX"
    using assms by (simp add: match_inv_def chosen_ok_def)
  fix i
  assume i: "i < IKEV2_XFORMTYPE_MAX"
  show "xforms st ! i \<noteq> None \<longleftrightarrow> common l p i"
    by (rule match_inv_common[OF assms i])
  fix x
  assume x: "xforms st ! i = Some x"
  let ?S = "set (known (prop_xforms p)) \<times> set (prop_xforms l)"
  have c: "unat (xform_type x) = i" "\<exists>y. (y, x) \<in> ?S \<and> same_xform y x"
    using assms x i by (auto simp: match_inv_def chosen_ok_def)
  show "unat (xform_type x) = i" by (rule c(1))
  have "xform_score x \<le> xform_score x'"
    if "x' \<in> set (prop_xforms l)" "y \<in> set (prop_xforms p)" "same_xform y x'"
      "xform_type x' = xform_type x" "xform_type x \<noteq> IKEV2_XFORMTYPE_DH \<or> g < 0" for x' y
  proof -
    have "(y, x') \<in> ?S"
      using that c(1) i by (auto simp: known_def same_xform_def)
    then show ?thesis
      using assms that x c(1) unfolding match_inv_def best_score_def by metis
  qed
  then show "best_common l p g x"
    using c(2) by (auto simp: best_common_def known_def)
qed

lemma negotiate_loop_result:
  assumes "\<forall>l\<in>set local. prop_wf l" "negotiate_loop local peer rekey g = Some (s, m, vp, vl)"
  shows "\<exists>ls ls'. local = ls @ vl # ls' \<and> vp \<in> set peer \<and> match_ok vl vp rekey \<and>
     (\<forall>l'\<in>set ls. \<forall>q\<in>set peer. \<not> match_ok l' q rekey) \<and>
     distinct (map xform_type (somes m)) \<and>
     (\<forall>x\<in>set (somes m). xform_type x \<in> {1, 2, 3, 4, 5} \<and> best_common vl vp g x) \<and>
     (\<forall>i<IKEV2_XFORMTYPE_MAX. (\<exists>x\<in>set (somes m). unat (xform_type x) = i) \<longleftrightarrow> common vl vp i)"
proof -
  have "\<forall>l\<in>set local. scored l"
    using assms(1) prop_wf_scored by blast
  then obtain ls l ls' where l: "local = ls @ l # ls'" "best_of l rekey g (set peer) (Some (s, m, vp, vl))"
      "\<forall>l'\<in>set ls. \<forall>q\<in>set peer. \<not> match_ok l' q rekey"
    using negotiate_loop_spec[of local peer rekey g] assms(2) by auto
  then have b: "vl = l" "vp \<in> set peer" "match_ok vl vp rekey" "proposals_match vl vp rekey g = (s, m)"
    by (auto simp: best_of_def)
  have acc: "\<not> (offers_aead vp \<and> offers vp 3)"
    using b(3) by (auto simp: match_ok_def acceptable_def)
  obtain st where st: "m = xforms st"
      "match_inv rekey g (prop_protoid vp) (set (known (prop_xforms vp)) \<times> set (prop_xforms vl)) st"
    by (cases rule: proposals_match_cases[of vp vl rekey g]) (use acc b(4) in auto)
  note ch = match_chosen[OF st(2), folded st(1)]
  have len: "length m = IKEV2_XFORMTYPE_MAX"
    using ch by blast
  have typed: "\<forall>i<length m. \<forall>x. m ! i = Some x \<longrightarrow> unat (xform_type x) = 0 + i"
    using ch len by simp
  have mem: "x \<in> set (somes m) \<longleftrightarrow> (\<exists>i<IKEV2_XFORMTYPE_MAX. m ! i = Some x)" for x
    using len by (auto simp: set_somes in_set_conv_nth)
  have "best_common vl vp g x" if "x \<in> set (somes m)" for x
    using that ch mem by auto
  moreover from this have "xform_type x \<in> {1, 2, 3, 4, 5}" if "x \<in> set (somes m)" for x
    using that assms(1) l(1) b(1) unfolding best_common_def prop_wf_def by auto
  moreover have "(\<exists>x\<in>set (somes m). unat (xform_type x) = i) \<longleftrightarrow> common vl vp i"
    if "i < IKEV2_XFORMTYPE_MAX" for i
    using that ch mem by (metis not_None_eq)
  ultimately show ?thesis
    using l(1,3) b(1-3) somes_typed_distinct[OF typed] by blast
qed

text \<open>
  C18: Negotiation succeeds exactly when it should: with well-formed local proposals (the only
  ones \<^verbatim>\<open>config_add_transform\<close> builds), \<^verbatim>\<open>proposals_negotiate\<close> reports a match if and only if some
  local and some peer proposal of the same protocol are acceptable together, independently of the
  order of the transforms.
\<close>

theorem proposals_negotiate_iff:
  assumes "\<forall>l\<in>set local. prop_wf l"
  shows "proposals_negotiate ok oks None local peer rekey g =
     Some (if \<exists>l\<in>set local. \<exists>p\<in>set peer. match_ok l p rekey then 0 else - 1, None)"
proof -
  have "\<forall>l\<in>set local. scored l"
    using assms prop_wf_scored by blast
  note spec = negotiate_loop_spec[OF this, of peer rekey g]
  show ?thesis
  proof (cases "negotiate_loop local peer rekey g")
    case None
    then show ?thesis
      using spec by (auto simp: proposals_negotiate_def)
  next
    case (Some best)
    then obtain s m vp vl where best: "best = (s, m, vp, vl)" by (cases best)
    then have "vp \<in> set peer \<and> vl \<in> set local \<and> match_ok vl vp rekey"
      using negotiate_loop_result[OF assms, of peer rekey g s m vp vl] Some by auto
    then show ?thesis
      using Some best by (auto simp: proposals_negotiate_def)
  qed
qed

lemma all_less_6: "(\<forall>i<6. P i) \<longleftrightarrow> P 0 \<and> P 1 \<and> P 2 \<and> P 3 \<and> P 4 \<and> P (5 :: nat)"
  by (simp add: eval_nat_numeral All_less_Suc conj_ac)

abbreviation aes_xforms :: "nat \<Rightarrow> iked_transform list" where
  "aes_xforms s \<equiv>
     [\<lparr>xform_type = 1, xform_id = 12, xform_length = 256, xform_keylength = 256, xform_score = s\<rparr>,
      \<lparr>xform_type = 2, xform_id = 5, xform_length = 0, xform_keylength = 0, xform_score = s\<rparr>,
      \<lparr>xform_type = 3, xform_id = 12, xform_length = 0, xform_keylength = 0, xform_score = s\<rparr>,
      \<lparr>xform_type = 4, xform_id = 14, xform_length = 0, xform_keylength = 0, xform_score = s\<rparr>]"

abbreviation ike_prop :: "byte \<Rightarrow> iked_transform list \<Rightarrow> iked_proposal" where
  "ike_prop i xs \<equiv> \<lparr>prop_id = i, prop_protoid = 1, prop_localspi = no_spi, prop_peerspi = no_spi, prop_xforms = xs\<rparr>"

lemma aes_match_ok: "match_ok (ike_prop 1 (aes_xforms 1)) (ike_prop 2 (aes_xforms 0)) False"
proof -
  have "common (ike_prop 1 (aes_xforms 1)) (ike_prop 2 (aes_xforms 0)) i" if "i \<in> {1, 2, 3, 4}" for i
    using that by (auto simp: common_def same_xform_def)
  moreover have "\<not> offers (ike_prop 2 (aes_xforms 0)) 0" "\<not> offers (ike_prop 2 (aes_xforms 0)) 5"
    "\<not> offers_aead (ike_prop 2 (aes_xforms 0))"
    by (simp_all add: offers_def offers_aead_def encxf_noauth_def ikeencxfs_def)
  moreover have "\<not> mandatory (ike_prop 1 (aes_xforms 1)) (ike_prop 2 (aes_xforms 0)) False i"
    if "i \<in> {0, 5}" for i
    using that by (auto simp: mandatory_def)
  ultimately show ?thesis
    unfolding match_ok_def acceptable_def all_less_6 by (auto intro: exI[of _ 1])
qed

theorem proposals_negotiate_iff_witness:
  "proposals_negotiate True [] None [ike_prop 1 (aes_xforms 1)] [ike_prop 2 (aes_xforms 0)] False (- 1) =
     Some (0, None)"
  using proposals_negotiate_iff[of "[ike_prop 1 (aes_xforms 1)]" True "[]" "[ike_prop 2 (aes_xforms 0)]" False "- 1"]
    aes_match_ok by (simp add: prop_wf_def)
lemma config_free_proposals_other:
  "p \<in> set (config_free_proposals ps proto) \<Longrightarrow> prop_protoid p \<noteq> proto"
  by (auto simp: config_free_proposals_def)

lemma config_add_proposal_freed:
  "config_add_proposal ok (config_free_proposals res proto) pid proto =
     (if ok then Some (length (config_free_proposals res proto), config_free_proposals res proto @
        [\<lparr>prop_id = pid, prop_protoid = proto, prop_localspi = no_spi, prop_peerspi = no_spi, prop_xforms = []\<rparr>])
      else None)"
  using find_proposal_None[of "config_free_proposals res proto" proto pid] config_free_proposals_other
  by (auto simp: config_add_proposal_def)

lemma proposals_negotiate_stored:
  assumes "negotiate_loop local peer rekey g = Some (s, m, vp, vl)" "peer \<noteq> []"
    "\<forall>x\<in>set (somes m). xform_type x \<in> {1, 2, 3, 4, 5}" "distinct (map xform_type (somes m))"
  shows "\<exists>prop. proposals_negotiate True [] (Some res) local peer rekey g =
       Some (0, Some (config_free_proposals res (prop_protoid vp) @ [prop])) \<and>
     prop_id prop = prop_id vp \<and> prop_protoid prop = prop_protoid vp \<and>
     prop_xforms prop = map (\<lambda>x. x\<lparr>xform_score := 1\<rparr>) (somes m) \<and>
     (spi_size (prop_localspi vp) \<noteq> 0 \<longrightarrow> prop_peerspi prop = prop_peerspi vp)"
proof -
  define p0 where "p0 = \<lparr>prop_id = prop_id vp, prop_protoid = prop_protoid vp, prop_localspi = no_spi,
    prop_peerspi = no_spi, prop_xforms = []\<rparr>"
  define p1 where "p1 = (if spi_size (prop_localspi vp) \<noteq> 0
     then p0\<lparr>prop_localspi := (prop_localspi p0)\<lparr>spi_size := spi_size (prop_localspi vp)\<rparr>,
             prop_peerspi := prop_peerspi vp\<rparr> else p0)"
  define p2 where "p2 = (if spi_size (prop_localspi vl) \<noteq> 0
     then p1\<lparr>prop_localspi := (prop_localspi p1)\<lparr>spi_size := spi_size (prop_localspi vl),
             spi := spi (prop_localspi vl)\<rparr>\<rparr> else p1)"
  define fr where "fr = config_free_proposals res (prop_protoid vp)"
  have p2: "prop_id p2 = prop_id vp" "prop_protoid p2 = prop_protoid vp" "prop_xforms p2 = []"
    "spi_size (prop_localspi vp) \<noteq> 0 \<longrightarrow> prop_peerspi p2 = prop_peerspi vp"
    by (simp_all add: p2_def p1_def p0_def)
  have "config_add_proposal True fr (prop_id vp) (prop_protoid vp) = Some (length fr, fr @ [p0])"
    by (simp add: fr_def p0_def config_add_proposal_freed)
  then have "proposals_negotiate True [] (Some res) local peer rekey g =
      Some (0, Some ((fr @ [p0])[length fr := add_transforms [] p2 m]))"
    using assms(1,2)
    by (simp add: proposals_negotiate_def Let_def p2_def p1_def flip: fr_def)
  then have "proposals_negotiate True [] (Some res) local peer rekey g =
      Some (0, Some (fr @ [add_transforms [] p2 m]))"
    by simp
  moreover have "add_transforms [] p2 m =
      p2\<lparr>prop_xforms := map (\<lambda>x. x\<lparr>xform_score := 1\<rparr>) (somes m)\<rparr>"
    using add_transforms_fresh[of m p2] assms(3,4) p2(3) by simp
  ultimately show ?thesis
    using p2 by (intro exI[of _ "p2\<lparr>prop_xforms := map (\<lambda>x. x\<lparr>xform_score := 1\<rparr>) (somes m)\<rparr>"])
      (simp add: fr_def)
qed


text \<open>
  C20: When the allocation of the result proposal fails, the negotiation of every acceptable pair
  dereferences the \<open>NULL\<close> that \<^verbatim>\<open>config_add_proposal\<close> returned.
\<close>

theorem proposals_negotiate_oom:
  assumes "\<forall>l\<in>set local. prop_wf l" "\<exists>l\<in>set local. \<exists>p\<in>set peer. match_ok l p rekey"
  shows "proposals_negotiate False oks (Some res) local peer rekey g = None"
proof -
  have "\<forall>l\<in>set local. scored l"
    using assms(1) prop_wf_scored by blast
  note spec = negotiate_loop_spec[OF this, of peer rekey g]
  obtain s m vp vl where "negotiate_loop local peer rekey g = Some (s, m, vp, vl)"
    using spec assms(2) by (cases "negotiate_loop local peer rekey g") auto
  moreover have "peer \<noteq> []"
    using assms(2) by auto
  ultimately show ?thesis
    by (simp add: proposals_negotiate_def config_add_proposal_freed)
qed

theorem proposals_negotiate_oom_witness:
  "proposals_negotiate False [] (Some []) [ike_prop 1 (aes_xforms 1)] [ike_prop 2 (aes_xforms 0)] False (- 1) = None"
  using proposals_negotiate_oom[of "[ike_prop 1 (aes_xforms 1)]" "[ike_prop 2 (aes_xforms 0)]" False "[]" "[]" "- 1"]
    aes_match_ok by (simp add: prop_wf_def)


end
