(* ===== verification/Rbtree.thy ===== *)
theory Rbtree
  imports Prelude
begin

section \<open>Red-black trees: the RB macros of compat/tree.h\<close>

text \<open>
  The flow, SA and user tables of the daemon are the trees of \<^verbatim>\<open>RB_GENERATE\<close>.  A tree with parent
  pointers is a tree with a position in it: the path from the position to the root is a list of
  frames, the parent first, so that \<^verbatim>\<open>RB_PARENT\<close> is the head of the path and a rotation rebuilds
  the subtree at the position.  Elements stand for the pointers to the nodes, \<open>Leaf\<close> for \<open>NULL\<close>,
  and \<^verbatim>\<open>RB_AUGMENT\<close> is empty, as in the source.  \<open>None\<close> is the dereference of a null pointer.
\<close>

datatype color = Black | Red

datatype 'a rbt = Leaf | Node color "'a rbt" 'a "'a rbt"

text \<open>\<open>InL c x r\<close>: the position is the left child of the node \<open>x\<close> with right child \<open>r\<close>.\<close>

datatype 'a frame = InL color 'a "'a rbt" | InR color "'a rbt" 'a

fun up :: "'a rbt \<Rightarrow> 'a frame \<Rightarrow> 'a rbt" where
  "up t (InL c x r) = Node c t x r"
| "up t (InR c l x) = Node c l x t"

fun plug :: "'a rbt \<Rightarrow> 'a frame list \<Rightarrow> 'a rbt" where
  "plug t [] = t"
| "plug t (p # ps) = plug (up t p) ps"

fun frame_color :: "'a frame \<Rightarrow> color" where
  "frame_color (InL c x r) = c"
| "frame_color (InR c l x) = c"

fun is_red :: "'a rbt \<Rightarrow> bool" where
  "is_red (Node Red l x r) = True"
| "is_red _ = False"

fun paint :: "color \<Rightarrow> 'a rbt \<Rightarrow> 'a rbt" where
  "paint c Leaf = Leaf"
| "paint c (Node c' l x r) = Node c l x r"

fun inorder :: "'a rbt \<Rightarrow> 'a list" where
  "inorder Leaf = []"
| "inorder (Node c l x r) = inorder l @ x # inorder r"

fun RB_ROTATE_LEFT :: "'a rbt \<Rightarrow> 'a rbt option" where
  "RB_ROTATE_LEFT (Node c l x (Node c' l' y r')) = Some (Node c' (Node c l x l') y r')"
| "RB_ROTATE_LEFT _ = None"

fun RB_ROTATE_RIGHT :: "'a rbt \<Rightarrow> 'a rbt option" where
  "RB_ROTATE_RIGHT (Node c (Node c' l' y r') x r) = Some (Node c' l' y (Node c r' x r))"
| "RB_ROTATE_RIGHT _ = None"

subsection \<open>Lookup\<close>

fun RB_FIND :: "('a \<Rightarrow> 'a \<Rightarrow> int) \<Rightarrow> 'a rbt \<Rightarrow> 'a \<Rightarrow> 'a option" where
  "RB_FIND cmp Leaf elm = None"
| "RB_FIND cmp (Node c l tmp r) elm =
     (let comp = cmp elm tmp in
      if comp < 0 then RB_FIND cmp l elm else if 0 < comp then RB_FIND cmp r elm else Some tmp)"

fun nfind :: "('a \<Rightarrow> 'a \<Rightarrow> int) \<Rightarrow> 'a rbt \<Rightarrow> 'a \<Rightarrow> 'a option \<Rightarrow> 'a option" where
  "nfind cmp Leaf elm res = res"
| "nfind cmp (Node c l tmp r) elm res =
     (let comp = cmp elm tmp in
      if comp < 0 then nfind cmp l elm (Some tmp) else if 0 < comp then nfind cmp r elm res else Some tmp)"

definition RB_NFIND :: "('a \<Rightarrow> 'a \<Rightarrow> int) \<Rightarrow> 'a rbt \<Rightarrow> 'a \<Rightarrow> 'a option" where
  "RB_NFIND cmp t elm = nfind cmp t elm None"

fun leftmost :: "'a rbt \<Rightarrow> 'a option" where
  "leftmost Leaf = None"
| "leftmost (Node c l x r) = (case leftmost l of None \<Rightarrow> Some x | Some y \<Rightarrow> Some y)"

fun rightmost :: "'a rbt \<Rightarrow> 'a option" where
  "rightmost Leaf = None"
| "rightmost (Node c l x r) = (case rightmost r of None \<Rightarrow> Some x | Some y \<Rightarrow> Some y)"

definition RB_MINMAX :: "'a rbt \<Rightarrow> int \<Rightarrow> 'a option" where
  "RB_MINMAX t val = (if val < 0 then leftmost t else rightmost t)"

text \<open>
  The node of an element: its color, its children and the path to it.  A pointer that is not in
  the tree is outside the model, which is \<open>None\<close>.
\<close>

fun locate :: "'a \<Rightarrow> 'a rbt \<Rightarrow> 'a frame list \<Rightarrow> (color \<times> 'a rbt \<times> 'a rbt \<times> 'a frame list) option" where
  "locate e Leaf ps = None"
| "locate e (Node c l x r) ps =
     (if x = e then Some (c, l, r, ps)
      else (case locate e l (InL c x r # ps) of
              Some p \<Rightarrow> Some p
            | None \<Rightarrow> locate e r (InR c l x # ps)))"

fun climb_next :: "'a frame list \<Rightarrow> 'a option" where
  "climb_next [] = None"
| "climb_next (InL c x r # ps) = Some x"
| "climb_next (InR c l x # ps) = climb_next ps"

fun climb_prev :: "'a frame list \<Rightarrow> 'a option" where
  "climb_prev [] = None"
| "climb_prev (InR c l x # ps) = Some x"
| "climb_prev (InL c x r # ps) = climb_prev ps"

definition RB_NEXT :: "'a rbt \<Rightarrow> 'a \<Rightarrow> 'a option option" where
  "RB_NEXT t elm =
     (case locate elm t [] of
        None \<Rightarrow> None
      | Some (c, l, r, ps) \<Rightarrow> Some (if r \<noteq> Leaf then leftmost r else climb_next ps))"

definition RB_PREV :: "'a rbt \<Rightarrow> 'a \<Rightarrow> 'a option option" where
  "RB_PREV t elm =
     (case locate elm t [] of
        None \<Rightarrow> None
      | Some (c, l, r, ps) \<Rightarrow> Some (if l \<noteq> Leaf then rightmost l else climb_prev ps))"

subsection \<open>Insertion\<close>

text \<open>
  The position is \<^verbatim>\<open>elm\<close>, the head of the path its parent, the next frame its grandparent.  After
  the rotation of the grandparent the parent of the position is black, which ends the loop.
\<close>

fun RB_INSERT_COLOR :: "'a rbt \<Rightarrow> 'a frame list \<Rightarrow> 'a rbt option" where
  "RB_INSERT_COLOR elm [] = Some elm"
| "RB_INSERT_COLOR elm (parent # ps) =
     (if frame_color parent = Black then Some (plug elm (parent # ps))
      else
        (case ps of
           [] \<Rightarrow> None
         | InL gc gx tmp # ps' \<Rightarrow>
             if is_red tmp
             then RB_INSERT_COLOR (Node Red (paint Black (up elm parent)) gx (paint Black tmp)) ps'
             else do {
               par \<leftarrow> (case parent of
                        InR pc pl px \<Rightarrow> RB_ROTATE_LEFT (up elm parent)
                      | InL pc px pr \<Rightarrow> Some (up elm parent));
               sub \<leftarrow> RB_ROTATE_RIGHT (Node Red (paint Black par) gx tmp);
               Some (plug sub ps') }
         | InR gc tmp gx # ps' \<Rightarrow>
             if is_red tmp
             then RB_INSERT_COLOR (Node Red (paint Black tmp) gx (paint Black (up elm parent))) ps'
             else do {
               par \<leftarrow> (case parent of
                        InL pc px pr \<Rightarrow> RB_ROTATE_RIGHT (up elm parent)
                      | InR pc pl px \<Rightarrow> Some (up elm parent));
               sub \<leftarrow> RB_ROTATE_LEFT (Node Red tmp gx (paint Black par));
               Some (plug sub ps') }))"

text \<open>The descent: an element that compares equal, or the path of the empty place.\<close>

fun insert_at :: "('a \<Rightarrow> 'a \<Rightarrow> int) \<Rightarrow> 'a \<Rightarrow> 'a rbt \<Rightarrow> 'a frame list \<Rightarrow> 'a + 'a frame list" where
  "insert_at cmp elm Leaf ps = Inr ps"
| "insert_at cmp elm (Node c l x r) ps =
     (let comp = cmp elm x in
      if comp < 0 then insert_at cmp elm l (InL c x r # ps)
      else if 0 < comp then insert_at cmp elm r (InR c l x # ps)
      else Inl x)"

text \<open>The result is the element found instead (or \<open>None\<close> for \<open>NULL\<close>) and the new tree.\<close>

definition RB_INSERT :: "('a \<Rightarrow> 'a \<Rightarrow> int) \<Rightarrow> 'a rbt \<Rightarrow> 'a \<Rightarrow> ('a option \<times> 'a rbt) option" where
  "RB_INSERT cmp t elm =
     (case insert_at cmp elm t [] of
        Inl tmp \<Rightarrow> Some (Some tmp, t)
      | Inr ps \<Rightarrow> do {
          t' \<leftarrow> RB_INSERT_COLOR (Node Red Leaf elm Leaf) ps;
          Some (None, paint Black t') })"

subsection \<open>Removal\<close>

text \<open>
  The rebalancing of one level, with the sibling \<^verbatim>\<open>tmp\<close> on the right: the new subtree at the
  parent, and whether the loop goes on from it.  The rotations are needed when a child of the
  sibling is red.
\<close>

fun rotate_over :: "'a rbt \<Rightarrow> color \<Rightarrow> 'a \<Rightarrow> 'a rbt \<Rightarrow> 'a rbt option" where
  "rotate_over elm pc px (Node tc l y r) = RB_ROTATE_LEFT (Node Black elm px (Node pc l y (paint Black r)))"
| "rotate_over elm pc px Leaf = None"

fun recolor_left :: "'a rbt \<Rightarrow> color \<Rightarrow> 'a \<Rightarrow> 'a rbt \<Rightarrow> (bool \<times> 'a rbt) option" where
  "recolor_left elm pc px Leaf = None"
| "recolor_left elm pc px (Node tc ll tx rr) =
     (if \<not> is_red ll \<and> \<not> is_red rr then Some (True, Node pc elm px (Node Red ll tx rr))
      else
        (case (if \<not> is_red rr then RB_ROTATE_RIGHT (Node Red (paint Black ll) tx rr)
               else Some (Node tc ll tx rr)) of
           None \<Rightarrow> None
         | Some tmp \<Rightarrow> map_option (Pair False) (rotate_over elm pc px tmp)))"

fun rotate_over' :: "'a rbt \<Rightarrow> color \<Rightarrow> 'a \<Rightarrow> 'a rbt \<Rightarrow> 'a rbt option" where
  "rotate_over' elm pc px (Node tc l y r) = RB_ROTATE_RIGHT (Node Black (Node pc (paint Black l) y r) px elm)"
| "rotate_over' elm pc px Leaf = None"

fun recolor_right :: "'a rbt \<Rightarrow> color \<Rightarrow> 'a \<Rightarrow> 'a rbt \<Rightarrow> (bool \<times> 'a rbt) option" where
  "recolor_right elm pc px Leaf = None"
| "recolor_right elm pc px (Node tc ll tx rr) =
     (if \<not> is_red ll \<and> \<not> is_red rr then Some (True, Node pc (Node Red ll tx rr) px elm)
      else
        (case (if \<not> is_red ll then RB_ROTATE_LEFT (Node Red ll tx (paint Black rr))
               else Some (Node tc ll tx rr)) of
           None \<Rightarrow> None
         | Some tmp \<Rightarrow> map_option (Pair False) (rotate_over' elm pc px tmp)))"

lemma recolor_continue:
  "recolor_left elm pc px tmp = Some (True, sub) \<Longrightarrow> is_red sub \<longleftrightarrow> pc = Red"
  "recolor_right elm pc px tmp = Some (True, sub) \<Longrightarrow> is_red sub \<longleftrightarrow> pc = Red"
  by (cases pc; cases tmp; simp split: if_split_asm option.split_asm; fastforce)+

text \<open>
  A red sibling is first rotated over the parent; then the level is rebalanced.  When the loop
  stops early, the root is painted black, otherwise the position itself.
\<close>

function RB_REMOVE_COLOR :: "'a rbt \<Rightarrow> 'a frame list \<Rightarrow> 'a rbt option" where
  "RB_REMOVE_COLOR elm [] = Some (paint Black elm)"
| "RB_REMOVE_COLOR elm (InL pc px tmp # ps) =
     (if is_red elm then Some (plug (paint Black elm) (InL pc px tmp # ps))
      else
        (case (case tmp of
                 Node Red sl sx sr \<Rightarrow> (Red, sl, InL Black sx sr # ps)
               | _ \<Rightarrow> (pc, tmp, ps)) of
           (pc', tmp', ps') \<Rightarrow>
             (case recolor_left elm pc' px tmp' of
                None \<Rightarrow> None
              | Some (cont, sub) \<Rightarrow>
                  if cont then RB_REMOVE_COLOR sub ps' else Some (paint Black (plug sub ps')))))"
| "RB_REMOVE_COLOR elm (InR pc tmp px # ps) =
     (if is_red elm then Some (plug (paint Black elm) (InR pc tmp px # ps))
      else
        (case (case tmp of
                 Node Red sl sx sr \<Rightarrow> (Red, sr, InR Black sl sx # ps)
               | _ \<Rightarrow> (pc, tmp, ps)) of
           (pc', tmp', ps') \<Rightarrow>
             (case recolor_right elm pc' px tmp' of
                None \<Rightarrow> None
              | Some (cont, sub) \<Rightarrow>
                  if cont then RB_REMOVE_COLOR sub ps' else Some (paint Black (plug sub ps')))))"
  by pat_completeness auto
termination
  by (relation "measure (\<lambda>(t, ps). 2 * length ps + (if is_red t then 0 else 1))")
    (auto split: rbt.split_asm color.split_asm dest: recolor_continue)

text \<open>The successor of a node with two children: the leftmost node of the right subtree.\<close>

fun succ_of :: "'a rbt \<Rightarrow> 'a frame list \<Rightarrow> (color \<times> 'a \<times> 'a rbt \<times> 'a frame list) option" where
  "succ_of Leaf ps = None"
| "succ_of (Node c l x r) ps =
     (if l = Leaf then Some (c, x, r, ps) else succ_of l (InL c x r # ps))"

text \<open>
  The removed node is replaced by its child, or by its successor, whose place is taken by the
  child of the successor; the color of the place that is gone decides about the rebalancing.
\<close>

definition RB_REMOVE :: "'a rbt \<Rightarrow> 'a \<Rightarrow> 'a rbt option" where
  "RB_REMOVE t old = do {
     (c, l, r, ps) \<leftarrow> locate old t [];
     (color, child, ps') \<leftarrow>
       (if l = Leaf then Some (c, r, ps)
        else if r = Leaf then Some (c, l, ps)
        else do {
          (c', elm, child, qs) \<leftarrow> succ_of r [];
          Some (c', child, qs @ InR c l elm # ps) });
     if color = Black then RB_REMOVE_COLOR child ps' else Some (plug child ps') }"

subsection \<open>Paths\<close>

lemma color_neq [simp]: "c \<noteq> Red \<longleftrightarrow> c = Black" "c \<noteq> Black \<longleftrightarrow> c = Red"
  by (cases c; simp)+

fun lefts :: "'a frame list \<Rightarrow> 'a list" where
  "lefts [] = []"
| "lefts (InL c x r # ps) = lefts ps"
| "lefts (InR c l x # ps) = lefts ps @ inorder l @ [x]"

fun rights :: "'a frame list \<Rightarrow> 'a list" where
  "rights [] = []"
| "rights (InL c x r # ps) = x # inorder r @ rights ps"
| "rights (InR c l x # ps) = rights ps"

lemma inorder_plug [simp]: "inorder (plug t ps) = lefts ps @ inorder t @ rights ps"
  by (induction ps arbitrary: t rule: lefts.induct) auto

lemma lefts_append [simp]: "lefts (ps @ qs) = lefts qs @ lefts ps"
  by (induction ps rule: lefts.induct) auto

lemma rights_append [simp]: "rights (ps @ qs) = rights ps @ rights qs"
  by (induction ps rule: rights.induct) auto

lemma plug_append [simp]: "plug t (ps @ qs) = plug (plug t ps) qs"
  by (induction ps arbitrary: t) auto

lemma inorder_paint [simp]: "inorder (paint c t) = inorder t"
  by (cases t) auto

lemma paint_twice [simp]: "paint c (paint d t) = paint c t"
  by (cases t) auto

lemma is_red_iff: "is_red t \<longleftrightarrow> (\<exists>l x r. t = Node Red l x r)"
  by (cases t rule: is_red.cases) auto

lemma is_red_paint [simp]: "\<not> is_red (paint Black t)"
  by (cases t) auto

subsection \<open>The red-black invariant\<close>

fun bh :: "'a rbt \<Rightarrow> nat" where
  "bh Leaf = 0"
| "bh (Node c l x r) = (if c = Black then Suc (bh l) else bh l)"

fun invh :: "'a rbt \<Rightarrow> bool" where
  "invh Leaf = True"
| "invh (Node c l x r) = (bh l = bh r \<and> invh l \<and> invh r)"

fun invc :: "'a rbt \<Rightarrow> bool" where
  "invc Leaf = True"
| "invc (Node c l x r) = ((c = Red \<longrightarrow> \<not> is_red l \<and> \<not> is_red r) \<and> invc l \<and> invc r)"

text \<open>
  The same for a path: \<open>path_h h\<close> if a subtree of black height \<open>h\<close> fits, \<open>path_c c\<close> if a subtree
  with a root of color \<open>c\<close> fits.
\<close>

fun path_h :: "nat \<Rightarrow> 'a frame list \<Rightarrow> bool" where
  "path_h h [] = True"
| "path_h h (InL c x r # ps) = (invh r \<and> bh r = h \<and> path_h (if c = Black then Suc h else h) ps)"
| "path_h h (InR c l x # ps) = (invh l \<and> bh l = h \<and> path_h (if c = Black then Suc h else h) ps)"

fun path_c :: "bool \<Rightarrow> 'a frame list \<Rightarrow> bool" where
  "path_c red [] = True"
| "path_c red (InL c x r # ps) = (invc r \<and> (c = Red \<longrightarrow> \<not> red \<and> \<not> is_red r) \<and> path_c (c = Red) ps)"
| "path_c red (InR c l x # ps) = (invc l \<and> (c = Red \<longrightarrow> \<not> red \<and> \<not> is_red l) \<and> path_c (c = Red) ps)"

definition root_black :: "'a frame list \<Rightarrow> bool" where
  "root_black ps \<longleftrightarrow> ps = [] \<or> frame_color (last ps) = Black"

lemma root_black_Cons: "root_black (p # ps) \<longleftrightarrow> (if ps = [] then frame_color p = Black else root_black ps)"
  by (simp add: root_black_def)

lemma is_red_Node [simp]: "is_red (Node c l x r) \<longleftrightarrow> c = Red"
  by (cases c) auto

lemma invh_plug: "invh (plug t ps) \<longleftrightarrow> invh t \<and> path_h (bh t) ps"
proof (induction ps arbitrary: t)
  case (Cons p ps)
  have "invh (plug t (p # ps)) \<longleftrightarrow> invh (up t p) \<and> path_h (bh (up t p)) ps"
    using Cons[of "up t p"] by simp
  then show ?case
    by (cases p) (simp; cases "frame_color p"; metis)+
qed simp

lemma invc_plug: "invc (plug t ps) \<longleftrightarrow> invc t \<and> path_c (is_red t) ps"
  by (induction ps arbitrary: t rule: lefts.induct) auto

lemma path_c_weaken: "path_c True ps \<Longrightarrow> path_c b ps"
  by (cases ps rule: rights.cases) auto

lemma path_c_black: "path_c False (p # ps) \<Longrightarrow> frame_color p = Black \<Longrightarrow> path_c b (p # ps)"
  by (cases p) auto

lemma is_red_plug: "ps \<noteq> [] \<Longrightarrow> is_red (plug t ps) \<longleftrightarrow> frame_color (last ps) = Red"
proof (induction ps arbitrary: t)
  case (Cons p ps)
  then show ?case
    by (cases "ps = []"; cases p) auto
qed simp

lemma paint_invs [simp]:
  "invh t \<Longrightarrow> invh (paint c t)" "invc t \<Longrightarrow> invc (paint Black t)"
  by (cases t; simp)+

lemma bh_paint: "bh (paint Black t) = (if is_red t then Suc (bh t) else bh t)"
  by (cases t rule: is_red.cases) auto

definition rb_inv :: "'a rbt \<Rightarrow> bool" where
  "rb_inv t \<longleftrightarrow> invc t \<and> invh t \<and> \<not> is_red t"

lemma rb_inv_Leaf [simp]: "rb_inv Leaf"
  by (simp add: rb_inv_def)

lemma rb_inv_paint: "invc t \<Longrightarrow> invh t \<Longrightarrow> rb_inv (paint Black t)"
  by (simp add: rb_inv_def)

lemma rb_inv_plug:
  "rb_inv (plug t ps) \<Longrightarrow> invc t \<and> invh t \<and> path_h (bh t) ps \<and> path_c (is_red t) ps \<and> root_black ps"
  by (cases "ps = []") (auto simp: rb_inv_def invh_plug invc_plug is_red_plug root_black_def intro: color.exhaust)

subsection \<open>Insertion\<close>

lemma insert_color_ok:
  assumes "is_red t" "invc t" "invh t" "path_h (bh t) ps" "path_c False ps" "root_black ps"
  shows "\<exists>t'. RB_INSERT_COLOR t ps = Some t' \<and> inorder t' = inorder (plug t ps) \<and> invc t' \<and> invh t'"
  using assms
proof (induction t ps rule: RB_INSERT_COLOR.induct)
  case (2 t p ps)
  show ?case
  proof (cases "frame_color p = Black")
    case True
    then show ?thesis
      using "2.prems" path_c_black[of p ps True] by (simp add: invc_plug[of t "p # ps", simplified] invh_plug[of t "p # ps", simplified])
  next
    case False
    then have p: "frame_color p = Red" by (cases "frame_color p") auto
    then obtain g gs where ps: "ps = g # gs"
      using "2.prems"(6) by (cases ps) (auto simp: root_black_Cons)
    obtain l x r where t: "t = Node Red l x r"
      using "2.prems"(1) by (auto simp: is_red_iff)
    have gs: "root_black gs"
      using "2.prems"(6) ps by (auto simp: root_black_Cons split: if_splits) (simp add: root_black_def)
    show ?thesis
    proof (cases g)
      case (InL gc gx tmp)
      note IH = "2.IH"(1)[OF False ps InL]
      show ?thesis
      proof (cases "is_red tmp")
        case True
        note IH = IH[OF True]
        show ?thesis
          using True IH gs p "2.prems" ps InL t by (cases p; cases tmp) (auto intro: path_c_weaken)
      next
        case F: False
        then show ?thesis
          using gs p "2.prems" ps InL t by (cases p) (auto simp: invc_plug invh_plug)
      qed
    next
      case (InR gc tmp gx)
      note IH = "2.IH"(2)[OF False ps InR]
      show ?thesis
      proof (cases "is_red tmp")
        case True
        note IH = IH[OF True]
        show ?thesis
          using True IH gs p "2.prems" ps InR t by (cases p; cases tmp) (auto intro: path_c_weaken)
      next
        case F: False
        then show ?thesis
          using gs p "2.prems" ps InR t by (cases p) (auto simp: invc_plug invh_plug)
      qed
    qed
  qed
qed auto
subsection \<open>Removal\<close>

abbreviation recolored :: "'a rbt \<Rightarrow> color \<Rightarrow> 'a list \<Rightarrow> (bool \<times> 'a rbt) option \<Rightarrow> bool" where
  "recolored t pc xs res \<equiv> \<exists>cont sub. res = Some (cont, sub) \<and> inorder sub = xs \<and> invh sub \<and>
     (is_red sub \<longleftrightarrow> pc = Red) \<and>
     (let h = (if pc = Black then Suc (Suc (bh t)) else Suc (bh t))
      in if cont then Suc (bh sub) = h \<and> invc (paint Black sub) else bh sub = h \<and> invc sub)"

lemma recolor_left_ok:
  assumes "\<not> is_red t" "invc t" "invh t" "\<not> is_red tmp" "invc tmp" "invh tmp" "bh tmp = Suc (bh t)"
  shows "recolored t pc (inorder t @ px # inorder tmp) (recolor_left t pc px tmp)"
proof -
  obtain ll tx rr where tmp: "tmp = Node Black ll tx rr"
    using assms(4,7) by (cases tmp) auto
  consider (both) "\<not> is_red ll" "\<not> is_red rr" | (inner) "is_red ll" "\<not> is_red rr" | (outer) "is_red rr"
    by blast
  then show ?thesis
  proof cases
    case both
    then show ?thesis
      using assms tmp by auto
  next
    case inner
    then obtain a y b where "ll = Node Red a y b"
      by (auto simp: is_red_iff)
    then show ?thesis
      using inner assms tmp by auto
  next
    case outer
    then obtain a y b where "rr = Node Red a y b"
      by (auto simp: is_red_iff)
    then show ?thesis
      using assms tmp by auto
  qed
qed

lemma recolor_right_ok:
  assumes "\<not> is_red t" "invc t" "invh t" "\<not> is_red tmp" "invc tmp" "invh tmp" "bh tmp = Suc (bh t)"
  shows "recolored t pc (inorder tmp @ px # inorder t) (recolor_right t pc px tmp)"
proof -
  obtain ll tx rr where tmp: "tmp = Node Black ll tx rr"
    using assms(4,7) by (cases tmp) auto
  consider (both) "\<not> is_red ll" "\<not> is_red rr" | (inner) "is_red rr" "\<not> is_red ll" | (outer) "is_red ll"
    by blast
  then show ?thesis
  proof cases
    case both
    then show ?thesis
      using assms tmp by auto
  next
    case inner
    then obtain a y b where "rr = Node Red a y b"
      by (auto simp: is_red_iff)
    then show ?thesis
      using inner assms tmp by auto
  next
    case outer
    then obtain a y b where "ll = Node Red a y b"
      by (auto simp: is_red_iff)
    then show ?thesis
      using assms tmp by auto
  qed
qed

text \<open>The state of the loop: the position lacks one black node.\<close>

definition deficit :: "'a rbt \<Rightarrow> 'a frame list \<Rightarrow> bool" where
  "deficit t ps \<longleftrightarrow> invc (paint Black t) \<and> invh t \<and> path_h (Suc (bh t)) ps \<and> path_c False ps \<and> root_black ps"

lemma paint_black_id: "\<not> is_red t \<Longrightarrow> paint Black t = t"
  by (cases t) auto

lemma path_c_frame: "path_c b (InL c x r # ps) \<Longrightarrow> path_c (c = Red) ps"
  "path_c b (InR c l x # ps) \<Longrightarrow> path_c (c = Red) ps"
  by auto

lemma path_c_False: "path_c b ps \<Longrightarrow> path_c False ps"
  by (cases ps rule: rights.cases) auto

lemma root_black_tl: "root_black (p # ps) \<Longrightarrow> root_black ps"
  by (auto simp: root_black_def split: if_splits)

lemma deficit_red:
  assumes "deficit t ps" "is_red t"
  shows "rb_inv (plug (paint Black t) ps)"
proof (cases "ps = []")
  case False
  then show ?thesis
    using assms by (auto simp: deficit_def rb_inv_def invc_plug invh_plug bh_paint is_red_plug root_black_def)
qed (use assms in \<open>simp add: deficit_def rb_inv_def\<close>)

lemma recolored_step:
  assumes rec: "recolored t pc xs (Some (cont, sub))" and "path_c (pc = Red) ps" "root_black ps"
    "path_h (if pc = Black then Suc (Suc (bh t)) else Suc (bh t)) ps"
  shows "cont \<Longrightarrow> deficit sub ps"
    "\<not> cont \<Longrightarrow> rb_inv (paint Black (plug sub ps))" "inorder (plug sub ps) = lefts ps @ xs @ rights ps"
  using assms by (auto simp: deficit_def Let_def intro!: rb_inv_paint path_c_False[of "pc = Red"]
      simp: invc_plug invh_plug split: if_splits)
text \<open>
  The level at a left child, with a red sibling already rotated: the sibling, the color of the
  parent and the rest of the path as the loop uses them.
\<close>

lemma level_left:
  assumes "deficit t (InL pc px tmp # ps)" "\<not> is_red t"
    "(pc', tmp', ps') = (case tmp of Node Red sl sx sr \<Rightarrow> (Red, sl, InL Black sx sr # ps) | _ \<Rightarrow> (pc, tmp, ps))"
  shows "recolored t pc' (inorder t @ px # inorder tmp') (recolor_left t pc' px tmp')"
    "path_c (pc' = Red) ps'" "root_black ps'"
    "path_h (if pc' = Black then Suc (Suc (bh t)) else Suc (bh t)) ps'"
    "lefts ps' @ (inorder t @ px # inorder tmp') @ rights ps' = inorder (plug t (InL pc px tmp # ps))"
proof -
  have d: "invc t" "invh t" "invh tmp" "bh tmp = Suc (bh t)" "invc tmp"
    "path_h (if pc = Black then Suc (Suc (bh t)) else Suc (bh t)) ps" "path_c (pc = Red) ps"
    "pc = Red \<longrightarrow> \<not> is_red tmp" "root_black ps" "ps = [] \<longrightarrow> pc = Black"
    using assms(1,2) by (auto simp: deficit_def paint_black_id root_black_Cons root_black_def split: if_splits)
  have e: "pc' = Red \<and> (\<exists>sl sx sr. tmp = Node Red sl sx sr \<and> tmp' = sl \<and> ps' = InL Black sx sr # ps) \<or>
      pc' = pc \<and> tmp' = tmp \<and> ps' = ps \<and> \<not> is_red tmp"
    using assms(3) by (auto split: rbt.splits color.splits)
  then show "path_c (pc' = Red) ps'" "root_black ps'"
    "path_h (if pc' = Black then Suc (Suc (bh t)) else Suc (bh t)) ps'"
    "lefts ps' @ (inorder t @ px # inorder tmp') @ rights ps' = inorder (plug t (InL pc px tmp # ps))"
    using d by (auto simp: root_black_Cons)
  show "recolored t pc' (inorder t @ px # inorder tmp') (recolor_left t pc' px tmp')"
    using e d assms(2) by (intro recolor_left_ok) auto
qed

lemma level_right:
  assumes "deficit t (InR pc tmp px # ps)" "\<not> is_red t"
    "(pc', tmp', ps') = (case tmp of Node Red sl sx sr \<Rightarrow> (Red, sr, InR Black sl sx # ps) | _ \<Rightarrow> (pc, tmp, ps))"
  shows "recolored t pc' (inorder tmp' @ px # inorder t) (recolor_right t pc' px tmp')"
    "path_c (pc' = Red) ps'" "root_black ps'"
    "path_h (if pc' = Black then Suc (Suc (bh t)) else Suc (bh t)) ps'"
    "lefts ps' @ (inorder tmp' @ px # inorder t) @ rights ps' = inorder (plug t (InR pc tmp px # ps))"
proof -
  have d: "invc t" "invh t" "invh tmp" "bh tmp = Suc (bh t)" "invc tmp"
    "path_h (if pc = Black then Suc (Suc (bh t)) else Suc (bh t)) ps" "path_c (pc = Red) ps"
    "pc = Red \<longrightarrow> \<not> is_red tmp" "root_black ps" "ps = [] \<longrightarrow> pc = Black"
    using assms(1,2) by (auto simp: deficit_def paint_black_id root_black_Cons root_black_def split: if_splits)
  have e: "pc' = Red \<and> (\<exists>sl sx sr. tmp = Node Red sl sx sr \<and> tmp' = sr \<and> ps' = InR Black sl sx # ps) \<or>
      pc' = pc \<and> tmp' = tmp \<and> ps' = ps \<and> \<not> is_red tmp"
    using assms(3) by (auto split: rbt.splits color.splits)
  then show "path_c (pc' = Red) ps'" "root_black ps'"
    "path_h (if pc' = Black then Suc (Suc (bh t)) else Suc (bh t)) ps'"
    "lefts ps' @ (inorder tmp' @ px # inorder t) @ rights ps' = inorder (plug t (InR pc tmp px # ps))"
    using d by (auto simp: root_black_Cons)
  show "recolored t pc' (inorder tmp' @ px # inorder t) (recolor_right t pc' px tmp')"
    using e d assms(2) by (intro recolor_right_ok) auto
qed

lemma remove_color_ok:
  assumes "deficit t ps"
  shows "\<exists>t'. RB_REMOVE_COLOR t ps = Some t' \<and> inorder t' = inorder (plug t ps) \<and> rb_inv t'"
  using assms
proof (induction t ps rule: RB_REMOVE_COLOR.induct)
  case (1 t)
  then show ?case
    by (simp add: deficit_def rb_inv_def)
next
  case (2 t pc px tmp ps)
  show ?case
  proof (cases "is_red t")
    case True
    then show ?thesis
      using deficit_red[OF "2.prems"] by simp
  next
    case False
    obtain pc' tmp' ps' where lv:
      "(pc', tmp', ps') = (case tmp of Node Red sl sx sr \<Rightarrow> (Red, sl, InL Black sx sr # ps) | _ \<Rightarrow> (pc, tmp, ps))"
      by (metis prod_cases3)
    note L = level_left[OF "2.prems" False lv]
    obtain cont sub where r: "recolor_left t pc' px tmp' = Some (cont, sub)"
      using L(1) by blast
    note step = recolored_step[OF L(1)[unfolded r] L(2-4)]
    show ?thesis
      using "2.IH"[OF False lv refl r refl] step L(5) r False lv
      by (cases cont) (simp_all flip: lv)
  qed
next
  case (3 t pc tmp px ps)
  show ?case
  proof (cases "is_red t")
    case True
    then show ?thesis
      using deficit_red[OF "3.prems"] by simp
  next
    case False
    obtain pc' tmp' ps' where lv:
      "(pc', tmp', ps') = (case tmp of Node Red sl sx sr \<Rightarrow> (Red, sr, InR Black sl sx # ps) | _ \<Rightarrow> (pc, tmp, ps))"
      by (metis prod_cases3)
    note L = level_right[OF "3.prems" False lv]
    obtain cont sub where r: "recolor_right t pc' px tmp' = Some (cont, sub)"
      using L(1) by blast
    note step = recolored_step[OF L(1)[unfolded r] L(2-4)]
    show ?thesis
      using "3.IH"[OF False lv refl r refl] step L(5) r False lv
      by (cases cont) (simp_all flip: lv)
  qed
qed
lemma locate_None: "locate e t ps = None \<longleftrightarrow> e \<notin> set (inorder t)"
proof (induction t arbitrary: ps)
  case (Node c l x r)
  show ?case
    using Node(1)[of "InL c x r # ps"] Node(2)[of "InR c l x # ps"] by (auto split: option.splits)
qed simp

lemma locate_Some: "locate e t ps = Some (c, l, r, qs) \<Longrightarrow> plug (Node c l e r) qs = plug t ps"
  by (induction t arbitrary: ps) (auto split: if_splits option.splits)

lemma succ_of_Some:
  "succ_of t ps = Some (c, x, r, qs) \<Longrightarrow> plug (Node c Leaf x r) qs = plug t ps \<and> lefts qs = lefts ps"
proof (induction t arbitrary: ps)
  case (Node c' l y r')
  then show ?case
    by (cases "l = Leaf") fastforce+
qed simp

lemma succ_of_ex: "t \<noteq> Leaf \<Longrightarrow> \<exists>c x r qs. succ_of t ps = Some (c, x, r, qs)"
proof (induction t arbitrary: ps)
  case (Node c l y r)
  then show ?case by (cases "l = Leaf") auto
qed simp

text \<open>A path does not depend on the elements at its nodes.\<close>

lemma path_replace:
  "path_h h (qs @ InR c l e # ps) \<longleftrightarrow> path_h h (qs @ InR c l e' # ps)"
  "path_c b (qs @ InR c l e # ps) \<longleftrightarrow> path_c b (qs @ InR c l e' # ps)"
  "root_black (qs @ InR c l e # ps) \<longleftrightarrow> root_black (qs @ InR c l e' # ps)"
proof -
  show "path_h h (qs @ InR c l e # ps) \<longleftrightarrow> path_h h (qs @ InR c l e' # ps)"
    by (induction qs arbitrary: h rule: lefts.induct) auto
  show "path_c b (qs @ InR c l e # ps) \<longleftrightarrow> path_c b (qs @ InR c l e' # ps)"
    by (induction qs arbitrary: b rule: lefts.induct) auto
  show "root_black (qs @ InR c l e # ps) \<longleftrightarrow> root_black (qs @ InR c l e' # ps)"
    by (simp add: root_black_def)
qed

text \<open>Taking a node with at most one child out of a tree.\<close>

lemma unlink_ok:
  assumes "path_h (bh (Node c Leaf x child)) ps" "path_c (c = Red) ps" "root_black ps"
    "invc child" "invh child" "bh child = 0" "c = Red \<longrightarrow> \<not> is_red child"
  shows "\<exists>t'. (if c = Black then RB_REMOVE_COLOR child ps else Some (plug child ps)) = Some t' \<and>
     inorder t' = lefts ps @ inorder child @ rights ps \<and> rb_inv t'"
proof (cases "c = Black")
  case True
  then have "deficit child ps"
    using assms by (auto simp: deficit_def)
  from remove_color_ok[OF this] show ?thesis
    using True by simp
next
  case False
  then have "ps = [] \<Longrightarrow> \<not> is_red child" "is_red child = False"
    using assms(7) by auto
  then have "rb_inv (plug child ps)"
    using False assms path_c_False[of True ps]
    by (cases "ps = []") (auto simp: rb_inv_def invc_plug invh_plug is_red_plug root_black_def)
  then show ?thesis
    using False by simp
qed

lemma RB_REMOVE_ok:
  assumes "rb_inv t" "e \<in> set (inorder t)" "distinct (inorder t)"
  shows "\<exists>t'. RB_REMOVE t e = Some t' \<and> rb_inv t' \<and> inorder t' = remove1 e (inorder t)"
proof -
  obtain c l r ps where loc: "locate e t [] = Some (c, l, r, ps)"
    using locate_None[of e t "[]"] assms(2) by (cases "locate e t []") auto
  have t: "plug (Node c l e r) ps = t"
    using locate_Some[OF loc] by simp
  have io: "inorder t = lefts ps @ inorder l @ e # inorder r @ rights ps"
    using arg_cong[OF t, of inorder] by simp
  then have rm: "remove1 e (inorder t) = lefts ps @ inorder l @ inorder r @ rights ps"
    using assms(3) by (auto simp: remove1_append)
  have inv: "invc (Node c l e r)" "invh (Node c l e r)" "path_h (bh (Node c l e r)) ps"
    "path_c (c = Red) ps" "root_black ps"
    using rb_inv_plug[of "Node c l e r" ps] assms(1) t by auto
  show ?thesis
  proof (cases "l = Leaf \<or> r = Leaf")
    case True
    define child where "child = (if l = Leaf then r else l)"
    have "invc child" "invh child" "bh child = 0" "c = Red \<longrightarrow> \<not> is_red child"
      "path_h (bh (Node c Leaf e child)) ps"
      using inv True by (auto simp: child_def)
    from unlink_ok[OF this(5) inv(4,5) this(1-4)] show ?thesis
      using loc True rm by (auto simp: RB_REMOVE_def child_def)
  next
    case False
    then obtain c' x child qs where s: "succ_of r [] = Some (c', x, child, qs)"
      using succ_of_ex by blast
    have r: "plug (Node c' Leaf x child) qs = r" "lefts qs = []"
      using succ_of_Some[OF s] by simp_all
    have "rb_inv (plug (Node c' Leaf x child) (qs @ InR c l e # ps))"
      using assms(1) t r by simp
    from rb_inv_plug[OF this] have old: "invc (Node c' Leaf x child)" "invh (Node c' Leaf x child)"
      "path_h (bh (Node c' Leaf x child)) (qs @ InR c l e # ps)"
      "path_c (c' = Red) (qs @ InR c l e # ps)" "root_black (qs @ InR c l e # ps)"
      by auto
    have new: "path_h (bh (Node c' Leaf x child)) (qs @ InR c l x # ps)"
      "path_c (c' = Red) (qs @ InR c l x # ps)" "root_black (qs @ InR c l x # ps)"
      using old(3-5) path_replace(1)[of _ qs c l x ps e] path_replace(2)[of _ qs c l x ps e]
        path_replace(3)[of qs c l x ps e] by blast+
    have "inorder r = x # inorder child @ rights qs"
      using arg_cong[OF r(1), of inorder] r(2) by simp
    then show ?thesis
      using unlink_ok[OF new, simplified] old(1,2) s loc False rm r(2) by (auto simp: RB_REMOVE_def)
  qed
qed
subsection \<open>Comparison functions\<close>

text \<open>
  What the trees need of the comparison function of their elements: on the elements that are ever
  stored, it is a total preorder with the usual sign convention.
\<close>

locale key_order =
  fixes cmp :: "'a \<Rightarrow> 'a \<Rightarrow> int" and S :: "'a set"
  assumes cmp_flip: "x \<in> S \<Longrightarrow> y \<in> S \<Longrightarrow> cmp x y < 0 \<longleftrightarrow> 0 < cmp y x"
    and cmp_le_trans: "x \<in> S \<Longrightarrow> y \<in> S \<Longrightarrow> z \<in> S \<Longrightarrow> cmp x y \<le> 0 \<Longrightarrow> cmp y z \<le> 0 \<Longrightarrow> cmp x z \<le> 0"

definition rb_sorted :: "('a \<Rightarrow> 'a \<Rightarrow> int) \<Rightarrow> 'a set \<Rightarrow> 'a list \<Rightarrow> bool" where
  "rb_sorted cmp S xs \<longleftrightarrow> set xs \<subseteq> S \<and> sorted_wrt (\<lambda>x y. cmp x y < 0) xs"

definition rb_ok :: "('a \<Rightarrow> 'a \<Rightarrow> int) \<Rightarrow> 'a set \<Rightarrow> 'a rbt \<Rightarrow> bool" where
  "rb_ok cmp S t \<longleftrightarrow> rb_inv t \<and> rb_sorted cmp S (inorder t)"

text \<open>The specification: the table as a sorted list.\<close>

definition list_find :: "('a \<Rightarrow> 'a \<Rightarrow> int) \<Rightarrow> 'a list \<Rightarrow> 'a \<Rightarrow> 'a option" where
  "list_find cmp xs e = List.find (\<lambda>y. cmp e y = 0) xs"

definition list_insert :: "('a \<Rightarrow> 'a \<Rightarrow> int) \<Rightarrow> 'a list \<Rightarrow> 'a \<Rightarrow> 'a list" where
  "list_insert cmp xs e =
     (if list_find cmp xs e = None
      then filter (\<lambda>y. 0 < cmp e y) xs @ e # filter (\<lambda>y. cmp e y < 0) xs else xs)"

context key_order
begin

lemma cmp_refl: "x \<in> S \<Longrightarrow> cmp x x = 0"
  using cmp_flip[of x x] by auto

lemma cmp_ge_flip: "x \<in> S \<Longrightarrow> y \<in> S \<Longrightarrow> 0 \<le> cmp x y \<longleftrightarrow> cmp y x \<le> 0"
  using cmp_flip[of x y] cmp_flip[of y x] by linarith

lemma cmp_less_le_trans: "x \<in> S \<Longrightarrow> y \<in> S \<Longrightarrow> z \<in> S \<Longrightarrow> cmp x y < 0 \<Longrightarrow> cmp y z \<le> 0 \<Longrightarrow> cmp x z < 0"
  using cmp_le_trans[of y z x] cmp_ge_flip[of x z] cmp_flip[of x y] by fastforce

lemma cmp_le_less_trans: "x \<in> S \<Longrightarrow> y \<in> S \<Longrightarrow> z \<in> S \<Longrightarrow> cmp x y \<le> 0 \<Longrightarrow> cmp y z < 0 \<Longrightarrow> cmp x z < 0"
  using cmp_le_trans[of z x y] cmp_ge_flip[of x z] cmp_flip[of y z] by fastforce

lemma rb_sorted_append: "rb_sorted cmp S (xs @ ys) \<longleftrightarrow>
    rb_sorted cmp S xs \<and> rb_sorted cmp S ys \<and> (\<forall>x\<in>set xs. \<forall>y\<in>set ys. cmp x y < 0)"
  by (auto simp: rb_sorted_def sorted_wrt_append)

lemma rb_sorted_Cons: "rb_sorted cmp S (x # ys) \<longleftrightarrow>
    x \<in> S \<and> rb_sorted cmp S ys \<and> (\<forall>y\<in>set ys. cmp x y < 0)"
  by (auto simp: rb_sorted_def)

lemma rb_sorted_distinct: "rb_sorted cmp S xs \<Longrightarrow> distinct xs"
  by (induction xs) (use cmp_refl in \<open>fastforce simp: rb_sorted_Cons\<close>)+

lemma rb_sorted_in: "rb_sorted cmp S xs \<Longrightarrow> x \<in> set xs \<Longrightarrow> x \<in> S"
  by (auto simp: rb_sorted_def)

text \<open>Everything left of a node that is not greater than the key is smaller, and dually.\<close>

lemma above: "rb_sorted cmp S (xs @ x # ys) \<Longrightarrow> e \<in> S \<Longrightarrow> 0 \<le> cmp e x \<Longrightarrow> y \<in> set xs \<Longrightarrow> 0 < cmp e y"
  using cmp_less_le_trans[of y x e] cmp_ge_flip[of e x] cmp_flip[of y e]
  by (auto simp: rb_sorted_append rb_sorted_Cons dest: rb_sorted_in)

lemma below: "rb_sorted cmp S (xs @ x # ys) \<Longrightarrow> e \<in> S \<Longrightarrow> cmp e x \<le> 0 \<Longrightarrow> y \<in> set ys \<Longrightarrow> cmp e y < 0"
  using cmp_le_less_trans[of e x y]
  by (auto simp: rb_sorted_append rb_sorted_Cons dest: rb_sorted_in)

lemma list_find_split:
  assumes "rb_sorted cmp S (xs @ x # ys)" "e \<in> S"
  shows "list_find cmp (xs @ x # ys) e =
     (if cmp e x < 0 then list_find cmp xs e else if 0 < cmp e x then list_find cmp ys e else Some x)"
proof -
  have "list_find cmp (xs @ x # ys) e =
      (case list_find cmp xs e of Some y \<Rightarrow> Some y | None \<Rightarrow>
         if cmp e x = 0 then Some x else list_find cmp ys e)"
    by (induction xs) (auto simp: list_find_def)
  moreover have "list_find cmp xs e = None" if "0 \<le> cmp e x"
    using above[OF assms(1,2) that] by (fastforce simp: list_find_def find_None_iff)
  moreover have "list_find cmp ys e = None" if "cmp e x \<le> 0"
    using below[OF assms(1,2) that] by (fastforce simp: list_find_def find_None_iff)
  ultimately show ?thesis
    by (auto split: option.splits)
qed

lemma find_refines:
  assumes "rb_sorted cmp S (inorder t)" "e \<in> S"
  shows "RB_FIND cmp t e = list_find cmp (inorder t) e"
  using assms
proof (induction t)
  case (Node c l x r)
  then show ?case
    using list_find_split[of "inorder l" x "inorder r" e] by (auto simp: Let_def rb_sorted_append rb_sorted_Cons)
qed (simp add: list_find_def)

lemma insert_at_found:
  "insert_at cmp e t ps = Inl y \<longleftrightarrow> RB_FIND cmp t e = Some y"
  by (induction t arbitrary: ps) (auto simp: Let_def)

lemma insert_at_free:
  assumes "rb_sorted cmp S (inorder t)" "e \<in> S" "insert_at cmp e t ps = Inr qs"
  shows "plug Leaf qs = plug t ps \<and> lefts qs = lefts ps @ filter (\<lambda>y. 0 < cmp e y) (inorder t) \<and>
     rights qs = filter (\<lambda>y. cmp e y < 0) (inorder t) @ rights ps"
  using assms
proof (induction t arbitrary: ps)
  case (Node c l x r)
  have s: "rb_sorted cmp S (inorder l)" "rb_sorted cmp S (inorder r)"
    using Node.prems(1) by (simp_all add: rb_sorted_append rb_sorted_Cons)
  have ab: "\<forall>y\<in>set (inorder l). 0 < cmp e y" if "0 \<le> cmp e x"
    using above[of "inorder l" x "inorder r" e] Node.prems that by simp
  have be: "\<forall>y\<in>set (inorder r). cmp e y < 0" if "cmp e x \<le> 0"
    using below[of "inorder l" x "inorder r" e] Node.prems that by simp
  consider "cmp e x < 0" | "0 < cmp e x"
    using Node.prems(3) by (auto simp: Let_def split: if_splits)
  then show ?case
  proof cases
    case 1
    then have "filter (\<lambda>y. 0 < cmp e y) (inorder r) = []" "filter (\<lambda>y. cmp e y < 0) (inorder r) = inorder r"
      using be by (fastforce simp: filter_empty_conv filter_id_conv)+
    then show ?thesis
      using 1 Node.IH(1)[OF s(1) Node.prems(2)] Node.prems(3) by (simp add: Let_def)
  next
    case 2
    then have "filter (\<lambda>y. cmp e y < 0) (inorder l) = []" "filter (\<lambda>y. 0 < cmp e y) (inorder l) = inorder l"
      using ab by (fastforce simp: filter_empty_conv filter_id_conv)+
    then show ?thesis
      using 2 Node.IH(2)[OF s(2) Node.prems(2)] Node.prems(3) by (simp add: Let_def)
  qed
qed simp

lemma list_insert_sorted:
  assumes "rb_sorted cmp S xs" "e \<in> S"
  shows "rb_sorted cmp S (list_insert cmp xs e)"
proof -
  have 1: "sorted_wrt (\<lambda>x y. cmp x y < 0) (filter P xs)" for P
    using assms(1) by (auto simp: rb_sorted_def sorted_wrt_filter)
  have 2: "cmp x e < 0" if "x \<in> set xs" "0 < cmp e x" for x
    using that assms cmp_flip by (auto simp: rb_sorted_def)
  have 3: "cmp x y < 0" if "x \<in> set xs" "y \<in> set xs" "0 < cmp e x" "cmp e y < 0" for x y
    using that assms cmp_less_le_trans[of x e y] 2[of x] by (auto simp: rb_sorted_def)
  show ?thesis
    using assms 1 2 3 by (auto simp: list_insert_def rb_sorted_def sorted_wrt_append)
qed

lemma insert_refines:
  assumes "rb_ok cmp S t" "e \<in> S"
  shows "\<exists>t'. RB_INSERT cmp t e = Some (list_find cmp (inorder t) e, t') \<and> rb_ok cmp S t' \<and>
     inorder t' = list_insert cmp (inorder t) e \<and> (list_find cmp (inorder t) e \<noteq> None \<longrightarrow> t' = t)"
proof (cases "insert_at cmp e t []")
  case (Inl y)
  then show ?thesis
    using insert_at_found[of e t "[]" y] find_refines assms
    by (auto simp: RB_INSERT_def rb_ok_def list_insert_def)
next
  case (Inr qs)
  have so: "rb_sorted cmp S (inorder t)"
    using assms(1) by (simp add: rb_ok_def)
  have "RB_FIND cmp t e = None"
    using insert_at_found[of e t "[]"] Inr by (cases "RB_FIND cmp t e") auto
  then have none: "list_find cmp (inorder t) e = None"
    using find_refines[OF so assms(2)] by simp
  have fr: "plug Leaf qs = t" "lefts qs = filter (\<lambda>y. 0 < cmp e y) (inorder t)"
    "rights qs = filter (\<lambda>y. cmp e y < 0) (inorder t)"
    using insert_at_free[OF so assms(2) Inr] by simp_all
  then have "path_h 0 qs" "path_c False qs" "root_black qs"
    using rb_inv_plug[of Leaf qs] assms(1) by (auto simp: rb_ok_def)
  then obtain t' where t': "RB_INSERT_COLOR (Node Red Leaf e Leaf) qs = Some t'"
      "inorder t' = list_insert cmp (inorder t) e" "invc t'" "invh t'"
    using insert_color_ok[of "Node Red Leaf e Leaf" qs] fr(2,3) none by (auto simp: list_insert_def)
  then show ?thesis
    using Inr none list_insert_sorted[OF so assms(2)] by (auto simp: RB_INSERT_def rb_ok_def rb_inv_paint)
qed

lemma remove_refines:
  assumes "rb_ok cmp S t" "e \<in> set (inorder t)"
  shows "\<exists>t'. RB_REMOVE t e = Some t' \<and> rb_ok cmp S t' \<and> inorder t' = remove1 e (inorder t)"
proof -
  have so: "rb_sorted cmp S (inorder t)" "rb_inv t"
    using assms(1) by (simp_all add: rb_ok_def)
  obtain t' where "RB_REMOVE t e = Some t'" "rb_inv t'" "inorder t' = remove1 e (inorder t)"
    using RB_REMOVE_ok[OF so(2) assms(2) rb_sorted_distinct[OF so(1)]] by blast
  moreover have "remove1 e (inorder t) = filter (\<lambda>x. x \<noteq> e) (inorder t)"
    using rb_sorted_distinct[OF so(1)] by (simp add: distinct_remove1_removeAll removeAll_filter_not_eq eq_commute)
  then have "rb_sorted cmp S (remove1 e (inorder t))"
    using so(1) by (auto simp: rb_sorted_def sorted_wrt_filter)
  ultimately show ?thesis
    by (simp add: rb_ok_def)
qed

end
subsection \<open>Iteration and depth\<close>

lemma leftmost_hd: "leftmost t = (case inorder t of [] \<Rightarrow> None | x # _ \<Rightarrow> Some x)"
  by (induction t) (auto split: list.splits)

lemma rightmost_last: "rightmost t = (if inorder t = [] then None else Some (last (inorder t)))"
  by (induction t) auto

lemma climb_next_hd: "climb_next ps = (case rights ps of [] \<Rightarrow> None | x # _ \<Rightarrow> Some x)"
  by (induction ps rule: climb_next.induct) auto

lemma climb_prev_last: "climb_prev ps = (if lefts ps = [] then None else Some (last (lefts ps)))"
  by (induction ps rule: climb_prev.induct) auto

lemma inorder_Nil: "inorder t = [] \<longleftrightarrow> t = Leaf"
  by (cases t) auto

lemma locate_split:
  assumes "distinct (inorder t)" "inorder t = xs @ e # ys"
  shows "\<exists>c l r ps. locate e t [] = Some (c, l, r, ps) \<and> xs = lefts ps @ inorder l \<and> ys = inorder r @ rights ps"
proof -
  obtain c l r ps where loc: "locate e t [] = Some (c, l, r, ps)"
    using locate_None[of e t "[]"] assms(2) by (cases "locate e t []") auto
  have "plug (Node c l e r) ps = t"
    using locate_Some[OF loc] by simp
  from arg_cong[OF this, of inorder] have "(lefts ps @ inorder l) @ e # (inorder r @ rights ps) = xs @ e # ys"
    using assms(2) by simp
  moreover have "e \<notin> set xs" "e \<notin> set ys"
    using assms by auto
  ultimately have "lefts ps @ inorder l = xs \<and> inorder r @ rights ps = ys"
    using append_Cons_eq_iff[of e xs ys] by metis
  then show ?thesis
    using loc by blast
qed

text \<open>The nodes that \<open>RB_FIND\<close> compares with, and the depth of a tree.\<close>

fun probes :: "('a \<Rightarrow> 'a \<Rightarrow> int) \<Rightarrow> 'a rbt \<Rightarrow> 'a \<Rightarrow> 'a list" where
  "probes cmp Leaf elm = []"
| "probes cmp (Node c l tmp r) elm =
     tmp # (let comp = cmp elm tmp in
            if comp < 0 then probes cmp l elm else if 0 < comp then probes cmp r elm else [])"

lemma probes_bound: "invc t \<Longrightarrow> invh t \<Longrightarrow> length (probes cmp t e) \<le> 2 * bh t + (if is_red t then 1 else 0)"
proof (induction t)
  case (Node c l x r)
  have l: "length (probes cmp l e) \<le> 2 * bh l + (if is_red l then 1 else 0)"
    and r: "length (probes cmp r e) \<le> 2 * bh r + (if is_red r then 1 else 0)"
    using Node by auto
  show ?case
    using l r Node.prems by (cases c) (auto simp: Let_def split: if_splits)
qed simp

lemma probes_find: "case RB_FIND cmp t e of
     Some y \<Rightarrow> probes cmp t e \<noteq> [] \<and> last (probes cmp t e) = y \<and> cmp e y = 0
   | None \<Rightarrow> 0 \<notin> cmp e ` set (probes cmp t e)"
  by (induction t) (auto simp: Let_def split: option.splits if_splits)

lemma bh_size: "invh t \<Longrightarrow> 2 ^ bh t \<le> Suc (length (inorder t))"
proof (induction t)
  case (Node c l x r)
  then have "2 ^ bh l \<le> Suc (length (inorder l))" "2 ^ bh r \<le> Suc (length (inorder r))" "bh l = bh r"
    by auto
  then show ?case by simp
qed simp

subsection \<open>Properties\<close>

text \<open>
  C21: A red-black tree is a sorted table.  If the comparison function is a total preorder on the
  stored elements, then on every tree in its invariant lookup, insertion and removal behave as on
  the sorted list of its elements, never follow a null pointer, and keep the invariant: the colors,
  equal black heights, a black root and the order.
\<close>

theorem rb_refines_sorted_list:
  assumes "key_order cmp S" "rb_ok cmp S t" "e \<in> S"
  shows "RB_FIND cmp t e = list_find cmp (inorder t) e \<and>
    (\<exists>t'. RB_INSERT cmp t e = Some (list_find cmp (inorder t) e, t') \<and> rb_ok cmp S t' \<and>
       inorder t' = list_insert cmp (inorder t) e) \<and>
    (e \<in> set (inorder t) \<longrightarrow>
       (\<exists>t'. RB_REMOVE t e = Some t' \<and> rb_ok cmp S t' \<and> inorder t' = remove1 e (inorder t)))"
  using key_order.find_refines[OF assms(1), of t e] key_order.insert_refines[OF assms]
    key_order.remove_refines[OF assms(1,2), of e] assms by (auto simp: rb_ok_def)

lemma int_key_order: "key_order (\<lambda>x y. x - y) (UNIV :: int set)"
  by unfold_locales auto

abbreviation small_tree :: "int rbt" where
  "small_tree \<equiv> Node Black (Node Red Leaf 1 Leaf) 2 (Node Red Leaf 3 Leaf)"

theorem rb_refines_sorted_list_witness:
  "\<exists>t'. RB_REMOVE small_tree 2 = Some t' \<and> rb_ok (\<lambda>x y. x - y) UNIV t' \<and> inorder t' = [1, 3]"
proof -
  have "rb_ok (\<lambda>x y. x - y) UNIV small_tree"
    by (simp add: rb_ok_def rb_inv_def rb_sorted_def)
  from rb_refines_sorted_list[OF int_key_order this, of 2] show ?thesis
    by auto
qed

text \<open>
  C22: The iteration macros enumerate the table in order: \<^verbatim>\<open>RB_MIN\<close> and \<^verbatim>\<open>RB_MAX\<close> return the first
  and the last element, \<^verbatim>\<open>RB_NEXT\<close> and \<^verbatim>\<open>RB_PREV\<close> the neighbours of an element, and \<open>NULL\<close> at the
  ends.
\<close>

theorem rb_iteration:
  assumes "distinct (inorder t)" "inorder t = xs @ e # ys"
  shows "RB_MINMAX t (- 1) = Some (hd (inorder t)) \<and> RB_MINMAX t 1 = Some (last (inorder t)) \<and>
    RB_NEXT t e = Some (case ys of [] \<Rightarrow> None | y # _ \<Rightarrow> Some y) \<and>
    RB_PREV t e = Some (if xs = [] then None else Some (last xs))"
proof -
  obtain c l r ps where loc: "locate e t [] = Some (c, l, r, ps)"
      "xs = lefts ps @ inorder l" "ys = inorder r @ rights ps"
    using locate_split[OF assms] by blast
  have "RB_NEXT t e = Some (case ys of [] \<Rightarrow> None | y # _ \<Rightarrow> Some y)"
    using loc by (cases "inorder r") (auto simp: RB_NEXT_def climb_next_hd leftmost_hd inorder_Nil)
  moreover have "RB_PREV t e = Some (if xs = [] then None else Some (last xs))"
    using loc by (cases l) (auto simp: RB_PREV_def climb_prev_last rightmost_last inorder_Nil)
  ultimately show ?thesis
    using assms(2) by (cases xs) (auto simp: RB_MINMAX_def leftmost_hd rightmost_last)
qed

theorem rb_iteration_witness:
  "RB_NEXT small_tree 1 = Some (Some 2) \<and> RB_NEXT small_tree 3 = Some None"
  using rb_iteration[of small_tree "[]" 1 "[2, 3]"] rb_iteration[of small_tree "[1, 2]" 3 "[]"] by simp

text \<open>
  C23: Lookup is logarithmic: in a tree of \<open>n\<close> elements \<^verbatim>\<open>RB_FIND\<close> compares the key with \<open>k\<close> nodes,
  where \<open>2 ^ (k div 2) \<le> n + 1\<close>, whatever the comparison function returns.
\<close>

theorem rb_find_logarithmic:
  assumes "rb_inv t"
  shows "2 ^ (length (probes cmp t e) div 2) \<le> length (inorder t) + 1 \<and>
    (case RB_FIND cmp t e of Some y \<Rightarrow> last (probes cmp t e) = y \<and> cmp e y = 0 | None \<Rightarrow> 0 \<notin> cmp e ` set (probes cmp t e))"
proof -
  have "length (probes cmp t e) div 2 \<le> bh t"
    using probes_bound[of t cmp e] assms by (simp add: rb_inv_def)
  then have "(2 :: nat) ^ (length (probes cmp t e) div 2) \<le> 2 ^ bh t"
    by (rule power_increasing) simp
  moreover have "2 ^ bh t \<le> length (inorder t) + 1"
    using bh_size[of t] assms by (simp add: rb_inv_def)
  moreover have "case RB_FIND cmp t e of Some y \<Rightarrow> last (probes cmp t e) = y \<and> cmp e y = 0
      | None \<Rightarrow> 0 \<notin> cmp e ` set (probes cmp t e)"
    using probes_find[of cmp e t] by (auto split: option.splits)
  ultimately show ?thesis
    using le_trans by blast
qed

theorem rb_find_logarithmic_witness:
  "2 ^ (length (probes (\<lambda>x y. x - y) small_tree 3) div 2) \<le> length (inorder small_tree) + 1"
  using rb_find_logarithmic[of small_tree "\<lambda>x y. x - y" 3] by (simp add: rb_inv_def)

end
