(* ===== verification/Policy.thy ===== *)
theory Policy
  imports Util Proposal Rbtree
begin

section \<open>Flows, policies and the policy lookup: iked/policy.c\<close>

text \<open>
  Structures keep the fields that the modelled functions read or write.  A pointer to an element of
  \<^verbatim>\<open>sc_policies\<close> is its position in the list, \<open>None\<close> for \<open>NULL\<close>; SAs are numbers.  The differences of
  small integers in the comparison functions are taken in the integers.
\<close>

record iked_addr =
  addr_af :: nat
  addr :: sockaddr
  addr_mask :: byte
  addr_net :: bool
  addr_port :: u16

record iked_ts =
  ts_addr :: iked_addr
  ts_ipproto :: byte

record iked_flow =
  flow_src :: iked_addr
  flow_dst :: iked_addr
  flow_dir :: u32
  flow_rdomain :: int
  flow_prenat :: iked_addr
  flow_loaded :: bool
  flow_saproto :: byte
  flow_ipproto :: byte

record iked_static_id =
  sid_type :: byte
  sid_data :: "byte list"

record iked_auth =
  auth_method :: byte
  auth_eap :: byte

record iked_policy =
  pol_skip :: "nat option list"
  pol_flags :: u32
  pol_refcnt :: int
  pol_af :: nat
  pol_peer :: iked_addr
  pol_peerid :: iked_static_id
  pol_local :: iked_addr
  pol_localid :: iked_static_id
  pol_auth :: iked_auth
  pol_proposals :: "iked_proposal list"
  pol_flows :: "iked_flow rbt"
  pol_nflows :: nat
  pol_tssrc :: "iked_ts list"
  pol_tssrc_count :: nat
  pol_tsdst :: "iked_ts list"
  pol_tsdst_count :: nat
  pol_sapeers :: "nat list"

abbreviation (input) IKED_SKIP_FLAGS :: nat where "IKED_SKIP_FLAGS \<equiv> 0"

abbreviation (input) IKED_SKIP_AF :: nat where "IKED_SKIP_AF \<equiv> 1"

abbreviation (input) IKED_SKIP_SRC_ADDR :: nat where "IKED_SKIP_SRC_ADDR \<equiv> 2"

abbreviation (input) IKED_SKIP_DST_ADDR :: nat where "IKED_SKIP_DST_ADDR \<equiv> 3"

abbreviation (input) IKED_SKIP_COUNT :: nat where "IKED_SKIP_COUNT \<equiv> 4"

abbreviation (input) IKED_POLICY_REFCNT :: u32 where "IKED_POLICY_REFCNT \<equiv> 4"

abbreviation (input) IKED_POLICY_QUICK :: u32 where "IKED_POLICY_QUICK \<equiv> 8"

abbreviation (input) IKED_POLICY_SKIP :: u32 where "IKED_POLICY_SKIP \<equiv> 16"

abbreviation (input) IKED_POLICY_TRANSPORT :: u32 where "IKED_POLICY_TRANSPORT \<equiv> 64"

abbreviation has_flag :: "iked_policy \<Rightarrow> u32 \<Rightarrow> bool" where
  "has_flag p f \<equiv> pol_flags p AND f \<noteq> 0"

subsection \<open>Comparison of addresses and flows\<close>

abbreviation mask_len :: "iked_addr \<Rightarrow> int" where
  "mask_len a \<equiv> int (unat (addr_mask a))"

definition IKED_ADDR_NEQ :: "iked_addr \<Rightarrow> iked_addr \<Rightarrow> bool" where
  "IKED_ADDR_NEQ a b = (addr_mask a \<noteq> addr_mask b \<or> sockaddr_cmp (addr a) (addr b) (mask_len a) \<noteq> 0)"

definition addr_cmp :: "iked_addr \<Rightarrow> iked_addr \<Rightarrow> bool \<Rightarrow> int" where
  "addr_cmp a b useports =
     (let diff = sockaddr_cmp (addr a) (addr b) 128;
          diff = (if diff = 0 then mask_len a - mask_len b else diff)
      in if diff = 0 \<and> useports then int (unat (addr_port a)) - int (unat (addr_port b)) else diff)"

definition flow_cmp :: "iked_flow \<Rightarrow> iked_flow \<Rightarrow> int" where
  "flow_cmp a b =
     (let diff = flow_rdomain a - flow_rdomain b;
          diff = (if diff = 0 then int (unat (flow_ipproto a)) - int (unat (flow_ipproto b)) else diff);
          diff = (if diff = 0 then int (unat (flow_saproto a)) - int (unat (flow_saproto b)) else diff);
          diff = (if diff = 0 then sint (flow_dir a) - sint (flow_dir b) else diff);
          diff = (if diff = 0 then addr_cmp (flow_dst a) (flow_dst b) True else diff);
          diff = (if diff = 0 then addr_cmp (flow_src a) (flow_src b) True else diff)
      in if diff = 0 then addr_cmp (flow_prenat a) (flow_prenat b) False else diff)"

definition flow_equal :: "iked_flow \<Rightarrow> iked_flow \<Rightarrow> bool" where
  "flow_equal a b = (flow_cmp a b = 0)"

subsection \<open>Traffic selectors\<close>

text \<open>The return value and the list; \<open>ok\<close> tells whether the allocation succeeds.\<close>

definition ts_insert_unique :: "bool \<Rightarrow> iked_addr \<Rightarrow> iked_ts list \<Rightarrow> byte \<Rightarrow> int \<times> iked_ts list" where
  "ts_insert_unique ok a tss ipproto =
     (if \<exists>ts\<in>set tss. addr_cmp a (ts_addr ts) True = 0 then (0, tss)
      else if \<not> ok then (- 1, tss)
      else (1, tss @ [\<lparr>ts_addr = a, ts_ipproto = ipproto\<rparr>]))"

definition generate_ts_step :: "bool \<times> bool \<Rightarrow> iked_flow \<Rightarrow> iked_policy \<Rightarrow> iked_policy" where
  "generate_ts_step oks flow pol =
     (let (r, src) = ts_insert_unique (fst oks) (flow_src flow) (pol_tssrc pol) (flow_ipproto flow);
          pol = pol\<lparr>pol_tssrc := src, pol_tssrc_count := (if r = 1 then pol_tssrc_count pol + 1 else pol_tssrc_count pol)\<rparr>;
          (r, dst) = ts_insert_unique (snd oks) (flow_dst flow) (pol_tsdst pol) (flow_ipproto flow)
      in pol\<lparr>pol_tsdst := dst, pol_tsdst_count := (if r = 1 then pol_tsdst_count pol + 1 else pol_tsdst_count pol)\<rparr>)"

text \<open>
  \<^verbatim>\<open>RB_FOREACH\<close> is the fold over the elements in order.  \<open>oks\<close> gives the outcomes of the two
  allocations for a flow.
\<close>

definition policy_generate_ts :: "(iked_flow \<Rightarrow> bool \<times> bool) \<Rightarrow> iked_policy \<Rightarrow> int \<times> iked_policy" where
  "policy_generate_ts oks pol =
     (let pol' = fold (\<lambda>flow. generate_ts_step (oks flow) flow) (inorder (pol_flows pol)) pol
      in (if 255 < pol_tssrc_count pol' \<or> 255 < pol_tsdst_count pol' then - 1 else 0, pol'))"

subsection \<open>Skip steps\<close>

definition tailq :: "'a list \<Rightarrow> nat \<Rightarrow> nat option" where
  "tailq xs k = (if k < length xs then Some k else None)"

text \<open>
  \<^verbatim>\<open>IKED_SET_SKIP_STEPS(i)\<close>: the loop from \<^verbatim>\<open>head[i]\<close> up to \<^verbatim>\<open>cur\<close>; the position behind the last element
  stands for \<open>NULL\<close>, and passing it is a null pointer dereference.
\<close>

function skip_to :: "nat \<Rightarrow> nat \<Rightarrow> nat \<Rightarrow> iked_policy list \<Rightarrow> iked_policy list option" where
  "skip_to i cur head pols =
     (if head = cur then Some pols
      else if length pols \<le> head then None
      else skip_to i cur (Suc head)
             (pols[head := (pols ! head)\<lparr>pol_skip := (pol_skip (pols ! head))[i := tailq pols cur]\<rparr>]))"
  by pat_completeness auto
termination
  by (relation "measure (\<lambda>(i, cur, head, pols). length pols - head)") auto

declare skip_to.simps [simp del]

definition set_skip_steps ::
    "bool \<Rightarrow> nat \<Rightarrow> nat \<Rightarrow> nat list \<times> iked_policy list \<Rightarrow> (nat list \<times> iked_policy list) option" where
  "set_skip_steps cond i cur s =
     (case s of (head, pols) \<Rightarrow>
        if cond then map_option (Pair (head[i := cur])) (skip_to i cur (head ! i) pols) else Some s)"

definition af_changes :: "iked_policy \<Rightarrow> iked_policy \<Rightarrow> bool" where
  "af_changes cur prev = (pol_af cur \<noteq> AF_UNSPEC \<and> pol_af prev \<noteq> AF_UNSPEC \<and> pol_af cur \<noteq> pol_af prev)"

fun calc_skip_loop ::
    "nat list \<Rightarrow> nat \<Rightarrow> nat list \<times> iked_policy list \<Rightarrow> (nat list \<times> iked_policy list) option" where
  "calc_skip_loop [] prev s = Some s"
| "calc_skip_loop (cur # cs) prev s = do {
     s \<leftarrow> set_skip_steps (has_flag (snd s ! cur) IKED_POLICY_SKIP) IKED_SKIP_FLAGS cur s;
     s \<leftarrow> set_skip_steps (af_changes (snd s ! cur) (snd s ! prev)) IKED_SKIP_AF cur s;
     s \<leftarrow> set_skip_steps (IKED_ADDR_NEQ (pol_peer (snd s ! cur)) (pol_peer (snd s ! prev))) IKED_SKIP_DST_ADDR cur s;
     s \<leftarrow> set_skip_steps (IKED_ADDR_NEQ (pol_local (snd s ! cur)) (pol_local (snd s ! prev))) IKED_SKIP_SRC_ADDR cur s;
     calc_skip_loop cs cur s }"

definition policy_calc_skip_steps :: "iked_policy list \<Rightarrow> iked_policy list option" where
  "policy_calc_skip_steps policies = do {
     let n = length policies;
     s \<leftarrow> calc_skip_loop [0..<n] 0 (replicate IKED_SKIP_COUNT 0, policies);
     s \<leftarrow> set_skip_steps True 0 n s;
     s \<leftarrow> set_skip_steps True 1 n s;
     s \<leftarrow> set_skip_steps True 2 n s;
     s \<leftarrow> set_skip_steps True 3 n s;
     Some (snd s) }"

subsection \<open>Policy lookup\<close>

definition policy_test_flows :: "iked_policy \<Rightarrow> iked_policy \<Rightarrow> int" where
  "policy_test_flows key p =
     (if \<exists>f\<in>set (inorder (pol_flows key)). RB_FIND flow_cmp (pol_flows p) f = None then - 1 else 0)"

definition id_mismatch :: "iked_static_id \<Rightarrow> iked_static_id \<Rightarrow> bool" where
  "id_mismatch key p = (sid_type key \<noteq> 0 \<and> sid_type p \<noteq> 0 \<and>
     (sid_type key \<noteq> sid_type p \<or> sid_data key \<noteq> sid_data p))"

definition af_mismatch :: "iked_policy \<Rightarrow> iked_policy \<Rightarrow> bool" where
  "af_mismatch key p = (pol_af key \<noteq> AF_UNSPEC \<and> pol_af p \<noteq> AF_UNSPEC \<and> pol_af key \<noteq> pol_af p)"

definition addr_mismatch :: "iked_addr \<Rightarrow> iked_addr \<Rightarrow> bool" where
  "addr_mismatch key p = (sockaddr_cmp (addr key) (addr p) (mask_len p) \<noteq> 0)"

text \<open>The checks after the address filters, each of which moves on to the next policy.\<close>

definition policy_reject :: "iked_policy \<Rightarrow> iked_policy \<Rightarrow> bool" where
  "policy_reject key p =
     (pol_nflows key \<noteq> 0 \<and> policy_test_flows key p \<noteq> 0 \<or>
      id_mismatch (pol_peerid key) (pol_peerid p) \<or>
      id_mismatch (pol_localid key) (pol_localid p) \<or>
      has_flag key IKED_POLICY_TRANSPORT \<and> \<not> has_flag p IKED_POLICY_TRANSPORT \<or>
      pol_proposals key \<noteq> [] \<and>
        proposals_negotiate True [] None (pol_proposals p) (pol_proposals key) False (- 1) = Some (- 1, None))"

text \<open>The loop follows the skip pointers; \<open>None\<close> is a loop that does not end or a pointer that is not in the list.\<close>

partial_function (option) policy_test_loop ::
    "iked_policy list \<Rightarrow> iked_policy \<Rightarrow> nat option \<Rightarrow> nat option \<Rightarrow> nat option option" where
  "policy_test_loop pols key p pol =
     (case p of
        None \<Rightarrow> Some pol
      | Some i \<Rightarrow>
          if length pols \<le> i then None
          else if has_flag (pols ! i) IKED_POLICY_SKIP
          then policy_test_loop pols key (pol_skip (pols ! i) ! IKED_SKIP_FLAGS) pol
          else if af_mismatch key (pols ! i)
          then policy_test_loop pols key (pol_skip (pols ! i) ! IKED_SKIP_AF) pol
          else if addr_mismatch (pol_peer key) (pol_peer (pols ! i))
          then policy_test_loop pols key (pol_skip (pols ! i) ! IKED_SKIP_DST_ADDR) pol
          else if addr_mismatch (pol_local key) (pol_local (pols ! i))
          then policy_test_loop pols key (pol_skip (pols ! i) ! IKED_SKIP_SRC_ADDR) pol
          else if policy_reject key (pols ! i) then policy_test_loop pols key (tailq pols (Suc i)) pol
          else if has_flag (pols ! i) IKED_POLICY_QUICK then Some (Some i)
          else policy_test_loop pols key (tailq pols (Suc i)) (Some i))"

definition policy_test :: "iked_policy list \<Rightarrow> iked_policy \<Rightarrow> nat option option" where
  "policy_test pols key = policy_test_loop pols key (tailq pols 0) None"

subsection \<open>What the skip steps promise\<close>

definition strip :: "iked_policy \<Rightarrow> iked_policy" where
  "strip p = p\<lparr>pol_skip := []\<rparr>"

text \<open>Where a new run of policies begins, for each of the four criteria.\<close>

definition boundary :: "iked_policy list \<Rightarrow> nat \<Rightarrow> nat \<Rightarrow> bool" where
  "boundary pols i c =
     (let cur = pols ! c; prev = pols ! (c - 1) in
      if i = IKED_SKIP_FLAGS then has_flag cur IKED_POLICY_SKIP
      else if i = IKED_SKIP_AF then af_changes cur prev
      else if i = IKED_SKIP_DST_ADDR then IKED_ADDR_NEQ (pol_peer cur) (pol_peer prev)
      else IKED_ADDR_NEQ (pol_local cur) (pol_local prev))"

text \<open>A skip pointer of policy \<open>k\<close> leads forward and passes over no boundary.\<close>

definition skip_ok :: "iked_policy list \<Rightarrow> nat \<Rightarrow> nat \<Rightarrow> nat option \<Rightarrow> bool" where
  "skip_ok pols i k s \<longleftrightarrow> (\<exists>t. s = tailq pols t \<and> k < t \<and> t \<le> length pols \<and> (\<forall>c. k < c \<longrightarrow> c < t \<longrightarrow> \<not> boundary pols i c))"

definition wf_skips :: "iked_policy list \<Rightarrow> iked_policy list \<Rightarrow> bool" where
  "wf_skips pols qs \<longleftrightarrow> map strip qs = map strip pols \<and> (\<forall>q\<in>set qs. length (pol_skip q) = IKED_SKIP_COUNT)"

definition run_inv :: "iked_policy list \<Rightarrow> nat \<Rightarrow> nat \<Rightarrow> nat list \<times> iked_policy list \<Rightarrow> bool" where
  "run_inv pols i m s \<longleftrightarrow> (case s of (head, qs) \<Rightarrow> head ! i \<le> m \<and>
     (\<forall>c. head ! i < c \<longrightarrow> c < m \<longrightarrow> \<not> boundary pols i c) \<and>
     (\<forall>k<head ! i. skip_ok pols i k (pol_skip (qs ! k) ! i)))"

lemma strip_eq_fields:
  assumes "strip q = strip p"
  shows "pol_flags q = pol_flags p" "pol_af q = pol_af p" "pol_peer q = pol_peer p" "pol_local q = pol_local p"
    "pol_peerid q = pol_peerid p" "pol_localid q = pol_localid p" "pol_flows q = pol_flows p"
    "pol_proposals q = pol_proposals p"
  using assms by (cases q; cases p; simp add: strip_def)+

lemma wf_skips_length: "wf_skips pols qs \<Longrightarrow> length qs = length pols"
  unfolding wf_skips_def by (metis length_map)

lemma wf_skips_nth: "wf_skips pols qs \<Longrightarrow> k < length pols \<Longrightarrow> strip (qs ! k) = strip (pols ! k)"
  unfolding wf_skips_def by (metis length_map nth_map)

lemma wf_skips_update:
  assumes "wf_skips pols qs" "k < length qs" "strip q = strip (qs ! k)" "length (pol_skip q) = IKED_SKIP_COUNT"
  shows "wf_skips pols (qs[k := q])"
proof -
  have "map strip (qs[k := q]) = map strip qs"
    using assms(2,3) by (simp add: map_update list_update_same_conv)
  moreover have "\<forall>x\<in>set (qs[k := q]). length (pol_skip x) = IKED_SKIP_COUNT"
    using assms set_update_subset_insert[of qs k q] by (auto simp: wf_skips_def)
  ultimately show ?thesis
    using assms(1) by (simp add: wf_skips_def)
qed

lemma skip_to_spec:
  assumes "wf_skips pols qs" "i < IKED_SKIP_COUNT" "h \<le> cur" "cur \<le> length pols"
  shows "\<exists>qs'. skip_to i cur h qs = Some qs' \<and> wf_skips pols qs' \<and>
     (\<forall>k<length pols. pol_skip (qs' ! k) =
        (if h \<le> k \<and> k < cur then (pol_skip (qs ! k))[i := tailq pols cur] else pol_skip (qs ! k)))"
  using assms
proof (induction "cur - h" arbitrary: h qs)
  case 0
  then show ?case by (auto simp: skip_to.simps)
next
  case (Suc d)
  have len: "length qs = length pols"
    using wf_skips_length Suc.prems(1) .
  have h: "h < length qs" "h < cur"
    using Suc.hyps(2) Suc.prems(4) len by auto
  have d: "d = cur - Suc h"
    using Suc.hyps(2) by simp
  let ?q = "(qs ! h)\<lparr>pol_skip := (pol_skip (qs ! h))[i := tailq qs cur]\<rparr>"
  have "length (pol_skip (qs ! h)) = IKED_SKIP_COUNT"
    using Suc.prems(1) h(1) by (simp add: wf_skips_def)
  then have wf: "wf_skips pols (qs[h := ?q])"
    using h Suc.prems(1) by (intro wf_skips_update) (auto simp: strip_def)
  obtain qs' where r: "skip_to i cur (Suc h) (qs[h := ?q]) = Some qs'" "wf_skips pols qs'"
      "\<forall>k<length pols. pol_skip (qs' ! k) =
        (if Suc h \<le> k \<and> k < cur then (pol_skip (qs[h := ?q] ! k))[i := tailq pols cur] else pol_skip (qs[h := ?q] ! k))"
    using Suc.hyps(1)[OF d wf Suc.prems(2) _ Suc.prems(4)] h(2) by (meson Suc_leI)
  have "pol_skip (qs' ! k) =
      (if h \<le> k \<and> k < cur then (pol_skip (qs ! k))[i := tailq pols cur] else pol_skip (qs ! k))"
    if "k < length pols" for k
    using r(3) that h len by (cases "k = h") (auto simp: tailq_def)
  moreover have "skip_to i cur h qs = Some qs'"
    using r(1) h by (subst skip_to.simps) simp
  ultimately show ?case
    using r(2) by blast
qed

lemma set_skip_spec:
  assumes "wf_skips pols (snd s)" "i < IKED_SKIP_COUNT" "length (fst s) = IKED_SKIP_COUNT"
    "cur \<le> length pols" "run_inv pols i cur s" "cur < length pols \<Longrightarrow> cond = boundary pols i cur"
    "cur = length pols \<Longrightarrow> cond"
  shows "\<exists>s'. set_skip_steps cond i cur s = Some s' \<and> wf_skips pols (snd s') \<and>
     length (fst s') = IKED_SKIP_COUNT \<and> run_inv pols i (Suc cur) s' \<and>
     (cur = length pols \<longrightarrow> fst s' ! i = cur) \<and>
     (\<forall>j<IKED_SKIP_COUNT. j \<noteq> i \<longrightarrow> fst s' ! j = fst s ! j) \<and>
     (\<forall>j m. j < IKED_SKIP_COUNT \<longrightarrow> j \<noteq> i \<longrightarrow> m \<le> length pols \<longrightarrow> run_inv pols j m s \<longrightarrow> run_inv pols j m s')"
proof (cases cond)
  case False
  then have "cur < length pols" "\<not> boundary pols i cur"
    using assms(4,6,7) by (auto simp: le_less)
  then have "run_inv pols i (Suc cur) s"
    using assms(5) by (auto simp: run_inv_def less_Suc_eq)
  then show ?thesis
    using False assms(1,3) \<open>cur < length pols\<close> by (simp add: set_skip_steps_def split: prod.splits)
next
  case True
  obtain head qs where s: "s = (head, qs)" by (cases s)
  have h: "head ! i \<le> cur"
    using assms(5) s by (simp add: run_inv_def)
  obtain qs' where r: "skip_to i cur (head ! i) qs = Some qs'" "wf_skips pols qs'"
      "\<forall>k<length pols. pol_skip (qs' ! k) =
        (if head ! i \<le> k \<and> k < cur then (pol_skip (qs ! k))[i := tailq pols cur] else pol_skip (qs ! k))"
    using skip_to_spec[of pols qs i "head ! i" cur] assms(1,2,4) s h by auto
  have l4: "length (pol_skip (qs ! k)) = IKED_SKIP_COUNT" if "k < length pols" for k
    using assms(1) s that wf_skips_length[of pols qs] by (simp add: wf_skips_def)
  have new: "skip_ok pols i k (pol_skip (qs' ! k) ! i)" if "k < cur" for k
  proof (cases "head ! i \<le> k")
    case True
    then have "pol_skip (qs' ! k) ! i = tailq pols cur"
      using r(3) that assms(2,4) l4 by simp
    moreover have "\<forall>c. k < c \<longrightarrow> c < cur \<longrightarrow> \<not> boundary pols i c"
      using assms(5) s True by (simp add: run_inv_def)
    ultimately show ?thesis
      using that assms(4) by (auto simp: skip_ok_def)
  next
    case False
    then show ?thesis
      using r(3) that assms(4,5) s by (simp add: run_inv_def)
  qed
  have "run_inv pols i (Suc cur) (head[i := cur], qs')"
    using new assms(2,3) s by (simp add: run_inv_def)
  moreover have "run_inv pols j m (head[i := cur], qs')"
    if "j < IKED_SKIP_COUNT" "j \<noteq> i" "m \<le> length pols" "run_inv pols j m s" for j m
    using that r(3) s by (auto simp: run_inv_def)
  moreover have "set_skip_steps cond i cur s = Some (head[i := cur], qs')"
    using True s r(1) by (simp add: set_skip_steps_def)
  ultimately show ?thesis
    using r(2) assms(2,3) s by auto
qed
definition loop_inv :: "iked_policy list \<Rightarrow> nat \<Rightarrow> nat list \<times> iked_policy list \<Rightarrow> bool" where
  "loop_inv pols m s \<longleftrightarrow> wf_skips pols (snd s) \<and> length (fst s) = IKED_SKIP_COUNT \<and>
     (\<forall>i<IKED_SKIP_COUNT. run_inv pols i m s)"

text \<open>One criterion after the other: those in \<open>I\<close> have seen the current policy already.\<close>

definition part_inv :: "iked_policy list \<Rightarrow> nat \<Rightarrow> nat set \<Rightarrow> nat list \<times> iked_policy list \<Rightarrow> bool" where
  "part_inv pols cur I s \<longleftrightarrow> wf_skips pols (snd s) \<and> length (fst s) = IKED_SKIP_COUNT \<and>
     (\<forall>i<IKED_SKIP_COUNT. run_inv pols i (if i \<in> I then Suc cur else cur) s)"

lemma run_inv_le: "run_inv pols j m s \<Longrightarrow> run_inv pols j m' s"
  if "fst s ! j \<le> m'" "m' \<le> m"
  using that by (auto simp: run_inv_def)

lemma part_step:
  assumes "part_inv pols cur I s" "i < IKED_SKIP_COUNT" "i \<notin> I" "cur < length pols" "cond = boundary pols i cur"
  shows "\<exists>s'. set_skip_steps cond i cur s = Some s' \<and> part_inv pols cur (insert i I) s'"
proof -
  have "run_inv pols i cur s"
    using assms(1-3) by (auto simp: part_inv_def)
  then obtain s' where s': "set_skip_steps cond i cur s = Some s'" "wf_skips pols (snd s')"
      "length (fst s') = IKED_SKIP_COUNT" "run_inv pols i (Suc cur) s'"
      "\<forall>j m. j < IKED_SKIP_COUNT \<longrightarrow> j \<noteq> i \<longrightarrow> m \<le> length pols \<longrightarrow> run_inv pols j m s \<longrightarrow> run_inv pols j m s'"
    using set_skip_spec[of pols s i cur cond] assms by (auto simp: part_inv_def)
  have "run_inv pols j (if j \<in> insert i I then Suc cur else cur) s'" if "j < IKED_SKIP_COUNT" for j
  proof (cases "j = i")
    case False
    then show ?thesis
      using that assms(1,4) s'(5)[rule_format, of j "if j \<in> I then Suc cur else cur"] by (auto simp: part_inv_def)
  qed (use s'(4) in simp)
  then show ?thesis
    using s'(1-3) by (simp add: part_inv_def)
qed

lemma boundary_strip:
  assumes "wf_skips pols qs" "c < length pols"
  shows "boundary pols 0 c = has_flag (qs ! c) IKED_POLICY_SKIP"
    "boundary pols 1 c = af_changes (qs ! c) (qs ! (c - 1))"
    "boundary pols 3 c = IKED_ADDR_NEQ (pol_peer (qs ! c)) (pol_peer (qs ! (c - 1)))"
    "boundary pols 2 c = IKED_ADDR_NEQ (pol_local (qs ! c)) (pol_local (qs ! (c - 1)))"
  using strip_eq_fields[OF wf_skips_nth[OF assms(1), of c]] strip_eq_fields[OF wf_skips_nth[OF assms(1), of "c - 1"]] assms(2)
  by (simp_all add: boundary_def Let_def af_changes_def)

lemma part_inv_loop: "part_inv pols cur {} s \<longleftrightarrow> loop_inv pols cur s"
  "part_inv pols cur {2, 3, 1, 0} s \<longleftrightarrow> loop_inv pols (Suc cur) s"
proof -
  have "i \<in> {2, 3, 1, 0}" if "i < 4" for i :: nat
    using that by auto
  then show "part_inv pols cur {} s \<longleftrightarrow> loop_inv pols cur s"
    "part_inv pols cur {2, 3, 1, 0} s \<longleftrightarrow> loop_inv pols (Suc cur) s"
    by (auto simp: part_inv_def loop_inv_def)
qed

lemma calc_skip_loop_ok:
  assumes "loop_inv pols m s" "m + n = length pols"
  shows "\<exists>s'. calc_skip_loop [m..<m + n] (m - 1) s = Some s' \<and> loop_inv pols (length pols) s'"
  using assms
proof (induction n arbitrary: m s)
  case (Suc n)
  have m: "m < length pols"
    using Suc.prems(2) by simp
  note str = boundary_strip[OF _ m]
  have wf: "wf_skips pols (snd s')" if "part_inv pols m I s'" for I s'
    using that by (simp add: part_inv_def)
  have p0: "part_inv pols m {} s"
    using Suc.prems(1) by (simp add: part_inv_loop)
  obtain s1 where s1: "set_skip_steps (has_flag (snd s ! m) IKED_POLICY_SKIP) 0 m s = Some s1" "part_inv pols m {0} s1"
    using part_step[OF p0 _ _ m str(1)[OF wf[OF p0], symmetric]] by auto
  obtain s2 where s2: "set_skip_steps (af_changes (snd s1 ! m) (snd s1 ! (m - 1))) 1 m s1 = Some s2" "part_inv pols m {1, 0} s2"
    using part_step[OF s1(2) _ _ m str(2)[OF wf[OF s1(2)], symmetric]] by auto
  obtain s3 where s3: "set_skip_steps (IKED_ADDR_NEQ (pol_peer (snd s2 ! m)) (pol_peer (snd s2 ! (m - 1)))) 3 m s2 = Some s3"
      "part_inv pols m {3, 1, 0} s3"
    using part_step[OF s2(2) _ _ m str(3)[OF wf[OF s2(2)], symmetric]] by auto
  obtain s4 where s4: "set_skip_steps (IKED_ADDR_NEQ (pol_local (snd s3 ! m)) (pol_local (snd s3 ! (m - 1)))) 2 m s3 = Some s4"
      "part_inv pols m {2, 3, 1, 0} s4"
    using part_step[OF s3(2) _ _ m str(4)[OF wf[OF s3(2)], symmetric]] by auto
  have "calc_skip_loop [m..<m + Suc n] (m - 1) s = calc_skip_loop [Suc m..<Suc m + n] m s4"
  proof -
    have "[m..<m + Suc n] = m # [Suc m..<Suc m + n]"
      by (metis add_Suc_shift add_Suc_right less_add_Suc1 upt_conv_Cons)
    then show ?thesis
      using s1(1) s2(1) s3(1) s4(1) by (simp del: upt_Suc)
  qed
  moreover have "loop_inv pols (Suc m) s4"
    using s4(2) part_inv_loop(2) by simp
  ultimately show ?case
    using Suc.IH[of "Suc m" s4] Suc.prems(2) by (metis add_Suc_shift diff_Suc_1)
qed simp

definition skips_ok :: "iked_policy list \<Rightarrow> iked_policy list \<Rightarrow> bool" where
  "skips_ok pols qs \<longleftrightarrow> wf_skips pols qs \<and>
     (\<forall>i<IKED_SKIP_COUNT. \<forall>k<length pols. skip_ok pols i k (pol_skip (qs ! k) ! i))"

definition fin_inv :: "iked_policy list \<Rightarrow> nat set \<Rightarrow> nat list \<times> iked_policy list \<Rightarrow> bool" where
  "fin_inv pols I s \<longleftrightarrow> loop_inv pols (length pols) s \<and> (\<forall>i\<in>I. i < IKED_SKIP_COUNT \<longrightarrow> fst s ! i = length pols)"

lemma fin_step:
  assumes "fin_inv pols I s" "i < IKED_SKIP_COUNT" "i \<notin> I"
  shows "\<exists>s'. set_skip_steps True i (length pols) s = Some s' \<and> fin_inv pols (insert i I) s'"
proof -
  obtain s' where s': "set_skip_steps True i (length pols) s = Some s'" "wf_skips pols (snd s')"
      "length (fst s') = IKED_SKIP_COUNT" "run_inv pols i (Suc (length pols)) s'" "fst s' ! i = length pols"
      "\<forall>j<IKED_SKIP_COUNT. j \<noteq> i \<longrightarrow> fst s' ! j = fst s ! j"
      "\<forall>j m. j < IKED_SKIP_COUNT \<longrightarrow> j \<noteq> i \<longrightarrow> m \<le> length pols \<longrightarrow> run_inv pols j m s \<longrightarrow> run_inv pols j m s'"
    using set_skip_spec[of pols s i "length pols" True] assms by (auto simp: fin_inv_def loop_inv_def)
  moreover have "run_inv pols i (length pols) s'"
    using run_inv_le[OF _ _ s'(4), of "length pols"] s'(5) by simp
  ultimately show ?thesis
    using assms by (auto simp: fin_inv_def loop_inv_def)
qed

lemma fin_inv_all: "fin_inv pols {3, 2, 1, 0} s \<Longrightarrow> skips_ok pols (snd s)"
proof -
  assume *: "fin_inv pols {3, 2, 1, 0} s"
  have "fst s ! i = length pols" if "i < 4" for i
  proof -
    have "i \<in> {3, 2, 1, 0}" using that by auto
    then show ?thesis using * that unfolding fin_inv_def by blast
  qed
  then show ?thesis
    using * by (cases s) (simp add: fin_inv_def loop_inv_def skips_ok_def run_inv_def)
qed

lemma policy_calc_skip_steps_ok:
  assumes "\<forall>p\<in>set pols. length (pol_skip p) = IKED_SKIP_COUNT"
  shows "\<exists>qs. policy_calc_skip_steps pols = Some qs \<and> skips_ok pols qs"
proof -
  have "loop_inv pols 0 (replicate IKED_SKIP_COUNT 0, pols)"
    using assms by (auto simp: loop_inv_def wf_skips_def run_inv_def)
  then obtain s where s: "calc_skip_loop [0..<length pols] 0 (replicate IKED_SKIP_COUNT 0, pols) = Some s"
      "fin_inv pols {} s"
    using calc_skip_loop_ok[of pols 0 "(replicate IKED_SKIP_COUNT 0, pols)" "length pols"]
    unfolding fin_inv_def by force
  obtain s1 where s1: "set_skip_steps True 0 (length pols) s = Some s1" "fin_inv pols {0} s1"
    using fin_step[OF s(2), of 0] by auto
  obtain s2 where s2: "set_skip_steps True 1 (length pols) s1 = Some s2" "fin_inv pols {1, 0} s2"
    using fin_step[OF s1(2), of 1] by auto
  obtain s3 where s3: "set_skip_steps True 2 (length pols) s2 = Some s3" "fin_inv pols {2, 1, 0} s3"
    using fin_step[OF s2(2), of 2] by auto
  obtain s4 where s4: "set_skip_steps True 3 (length pols) s3 = Some s4" "fin_inv pols {3, 2, 1, 0} s4"
    using fin_step[OF s3(2), of 3] by auto
  show ?thesis
    using s(1) s1(1) s2(1) s3(1) s4(1) fin_inv_all[OF s4(2)] by (simp add: policy_calc_skip_steps_def Let_def)
qed
subsection \<open>The policy lookup follows the skip steps\<close>

definition policy_matches :: "iked_policy \<Rightarrow> iked_policy \<Rightarrow> bool" where
  "policy_matches key p \<longleftrightarrow> \<not> has_flag p IKED_POLICY_SKIP \<and> \<not> af_mismatch key p \<and>
     \<not> addr_mismatch (pol_peer key) (pol_peer p) \<and> \<not> addr_mismatch (pol_local key) (pol_local p) \<and>
     \<not> policy_reject key p"

text \<open>The reference: every policy in turn, up to the first quick match, and the last match wins.\<close>

fun policy_scan :: "iked_policy \<Rightarrow> iked_policy list \<Rightarrow> nat \<Rightarrow> nat option \<Rightarrow> nat option" where
  "policy_scan key [] i pol = pol"
| "policy_scan key (p # ps) i pol =
     (if \<not> policy_matches key p then policy_scan key ps (Suc i) pol
      else if has_flag p IKED_POLICY_QUICK then Some i
      else policy_scan key ps (Suc i) (Some i))"

lemma policy_matches_strip:
  assumes "strip q = strip p"
  shows "policy_matches key q = policy_matches key p"
  by (simp add: policy_matches_def af_mismatch_def policy_reject_def policy_test_flows_def strip_eq_fields[OF assms])

lemma policy_scan_strip:
  "map strip qs = map strip ps \<Longrightarrow> policy_scan key qs i pol = policy_scan key ps i pol"
proof (induction ps arbitrary: qs i pol)
  case (Cons p ps)
  then obtain q qs' where qs: "qs = q # qs'" "strip q = strip p" "map strip qs' = map strip ps"
    by auto
  then show ?case
    using Cons.IH[OF qs(3)] policy_matches_strip[OF qs(2)] strip_eq_fields[OF qs(2)] by simp
qed simp

lemma policy_scan_skip:
  assumes "k \<le> t" "t \<le> length ps" "\<forall>c. k \<le> c \<longrightarrow> c < t \<longrightarrow> \<not> policy_matches key (ps ! c)"
  shows "policy_scan key (drop k ps) k pol = policy_scan key (drop t ps) t pol"
  using assms
proof (induction "t - k" arbitrary: k)
  case (Suc d)
  then have "drop k ps = ps ! k # drop (Suc k) ps"
    by (simp add: Cons_nth_drop_Suc)
  moreover have "policy_scan key (drop (Suc k) ps) (Suc k) pol = policy_scan key (drop t ps) t pol"
    using Suc.hyps(2) Suc.prems by (intro Suc.hyps(1)) auto
  ultimately show ?case
    using Suc.prems Suc.hyps(2) by simp
qed simp

text \<open>
  One step of the loop: where it goes next and with which candidate.  A filter that fails for
  policy \<open>k\<close> sends the loop along the skip pointer of that filter.
\<close>

definition skip_reason :: "iked_policy \<Rightarrow> iked_policy \<Rightarrow> nat \<Rightarrow> bool" where
  "skip_reason key p i \<longleftrightarrow>
     (i = IKED_SKIP_FLAGS \<and> has_flag p IKED_POLICY_SKIP) \<or>
     (i = IKED_SKIP_AF \<and> af_mismatch key p) \<or>
     (i = IKED_SKIP_DST_ADDR \<and> addr_mismatch (pol_peer key) (pol_peer p)) \<or>
     (i = IKED_SKIP_SRC_ADDR \<and> addr_mismatch (pol_local key) (pol_local p))"

lemma skip_reason_mismatch: "skip_reason key p i \<Longrightarrow> \<not> policy_matches key p"
  by (auto simp: skip_reason_def policy_matches_def)

lemma policy_test_step:
  assumes "k < length qs"
  obtains (skip) i where "i < IKED_SKIP_COUNT" "skip_reason key (qs ! k) i"
      "policy_test_loop qs key (Some k) pol = policy_test_loop qs key (pol_skip (qs ! k) ! i) pol"
    | (reject) "\<not> policy_matches key (qs ! k)"
      "policy_test_loop qs key (Some k) pol = policy_test_loop qs key (tailq qs (Suc k)) pol"
    | (quick) "policy_matches key (qs ! k)" "has_flag (qs ! k) IKED_POLICY_QUICK"
      "policy_test_loop qs key (Some k) pol = Some (Some k)"
    | (match) "policy_matches key (qs ! k)" "\<not> has_flag (qs ! k) IKED_POLICY_QUICK"
      "policy_test_loop qs key (Some k) pol = policy_test_loop qs key (tailq qs (Suc k)) (Some k)"
proof -
  note u = policy_test_loop.simps[of qs key "Some k" pol]
  have len: "\<not> length qs \<le> k" using assms by simp
  consider (a) "has_flag (qs ! k) IKED_POLICY_SKIP"
    | (b) "\<not> has_flag (qs ! k) IKED_POLICY_SKIP" "af_mismatch key (qs ! k)"
    | (c) "\<not> has_flag (qs ! k) IKED_POLICY_SKIP" "\<not> af_mismatch key (qs ! k)"
        "addr_mismatch (pol_peer key) (pol_peer (qs ! k))"
    | (d) "\<not> has_flag (qs ! k) IKED_POLICY_SKIP" "\<not> af_mismatch key (qs ! k)"
        "\<not> addr_mismatch (pol_peer key) (pol_peer (qs ! k))" "addr_mismatch (pol_local key) (pol_local (qs ! k))"
    | (e) "\<not> has_flag (qs ! k) IKED_POLICY_SKIP" "\<not> af_mismatch key (qs ! k)"
        "\<not> addr_mismatch (pol_peer key) (pol_peer (qs ! k))" "\<not> addr_mismatch (pol_local key) (pol_local (qs ! k))"
    by blast
  then show thesis
  proof cases
    case a
    then show ?thesis using skip[of 0] u len by (simp add: skip_reason_def)
  next
    case b
    then show ?thesis using skip[of 1] u len by (simp add: skip_reason_def)
  next
    case c
    then show ?thesis using skip[of 3] u len by (simp add: skip_reason_def)
  next
    case d
    then show ?thesis using skip[of 2] u len by (simp add: skip_reason_def)
  next
    case e
    then show ?thesis
      using reject quick match u len by (cases "policy_reject key (qs ! k)"; cases "has_flag (qs ! k) IKED_POLICY_QUICK")
        (simp_all add: policy_matches_def)
  qed
qed

lemma policy_test_loop_None [simp]: "policy_test_loop qs key None pol = Some pol"
  by (simp add: policy_test_loop.simps)

lemma skips_ok_target:
  assumes "skips_ok pols qs" "k < length pols" "i < IKED_SKIP_COUNT"
  shows "\<exists>t. pol_skip (qs ! k) ! i = tailq qs t \<and> k < t \<and> t \<le> length pols \<and>
     (\<forall>c. k < c \<longrightarrow> c < t \<longrightarrow> \<not> boundary pols i c)"
proof -
  have "length qs = length pols"
    using assms(1) wf_skips_length by (auto simp: skips_ok_def)
  then have "tailq pols t = tailq qs t" for t
    by (simp add: tailq_def)
  then show ?thesis
    using assms unfolding skips_ok_def skip_ok_def by metis
qed

lemma policy_test_loop_sound:
  assumes "skips_ok pols qs" "k \<le> length qs"
  shows "\<exists>r. policy_test_loop qs key (tailq qs k) pol = Some r \<and>
     (r = pol \<or> (\<exists>i<length qs. r = Some i \<and> policy_matches key (qs ! i)))"
  using assms(2)
proof (induction "length qs - k" arbitrary: k pol rule: less_induct)
  case less
  show ?case
  proof (cases "k < length qs")
    case True
    have len: "length qs = length pols"
      using assms(1) wf_skips_length by (auto simp: skips_ok_def)
    have tq: "tailq qs k = Some k"
      using True by (simp add: tailq_def)
    have nxt: "\<exists>r. policy_test_loop qs key (tailq qs t) pol' = Some r \<and>
        (r = pol' \<or> (\<exists>i<length qs. r = Some i \<and> policy_matches key (qs ! i)))"
      if "k < t" "t \<le> length qs" for t pol'
      using less.hyps[of t] that True by auto
    from True show ?thesis
    proof (cases rule: policy_test_step[where key = key and pol = pol])
      case (skip i)
      then obtain t where "pol_skip (qs ! k) ! i = tailq qs t" "k < t" "t \<le> length qs"
        using skips_ok_target[OF assms(1)] True len by metis
      then show ?thesis
        using nxt skip(3) tq by simp
    next
      case reject
      then show ?thesis using nxt[of "Suc k"] True tq by simp
    next
      case quick
      then show ?thesis using True tq by auto
    next
      case match
      then show ?thesis using nxt[of "Suc k" "Some k"] True tq by auto
    qed
  qed (simp add: tailq_def)
qed
subsection \<open>When skipping is harmless\<close>

abbreviation unspec :: "iked_addr \<Rightarrow> bool" where
  "unspec a \<equiv> sa_family (addr a) = AF_UNSPEC"

text \<open>
  Neighbours that the skip steps put into one run must agree for every key: a policy that is
  switched off is not followed by one that is not, and an unspecified family or address does not
  stand next to a specified one.
\<close>

definition skip_safe :: "iked_policy list \<Rightarrow> bool" where
  "skip_safe pols \<longleftrightarrow> (\<forall>c. 0 < c \<longrightarrow> c < length pols \<longrightarrow>
     (let cur = pols ! c; prev = pols ! (c - 1) in
      (has_flag prev IKED_POLICY_SKIP \<longrightarrow> has_flag cur IKED_POLICY_SKIP) \<and>
      (pol_af cur = AF_UNSPEC \<longleftrightarrow> pol_af prev = AF_UNSPEC) \<and>
      (addr_mask (pol_peer cur) = addr_mask (pol_peer prev) \<longrightarrow> unspec (pol_peer cur) = unspec (pol_peer prev)) \<and>
      (addr_mask (pol_local cur) = addr_mask (pol_local prev) \<longrightarrow> unspec (pol_local cur) = unspec (pol_local prev))))"

definition addrs_wf :: "iked_policy \<Rightarrow> bool" where
  "addrs_wf p \<longleftrightarrow> sa_wf (addr (pol_peer p)) \<and> sa_wf (addr (pol_local p))"

lemma sa_family_0: "sa_wf a \<Longrightarrow> sa_family a = AF_UNSPEC \<longleftrightarrow> a = Unspec"
  by (cases a) auto

lemma same_prefix_trans: "same_prefix p a b \<Longrightarrow> same_prefix p b c \<Longrightarrow> same_prefix p a c"
  and same_prefix_sym: "same_prefix p a b \<Longrightarrow> same_prefix p b a"
  by (auto simp: same_prefix_def)

lemma sockaddr_cmp_trans:
  assumes "sa_wf a" "sa_wf b" "sa_wf c" "b \<noteq> Unspec" "sockaddr_cmp a b n = 0" "sockaddr_cmp b c n = 0"
  shows "sockaddr_cmp a c n = 0"
  using assms
  by (cases a; cases b; cases c)
    (auto simp: sockaddr_cmp_Sin sockaddr_cmp_Sin6 sockaddr_cmp_mixed intro: same_prefix_trans)

text \<open>A key that does not match the address of a policy does not match the address of a neighbour in its run.\<close>

lemma addr_run:
  assumes "addr_mismatch key p" "\<not> IKED_ADDR_NEQ q p" "sa_wf (addr key)" "sa_wf (addr p)" "sa_wf (addr q)"
    "addr_mask q = addr_mask p \<longrightarrow> unspec q = unspec p"
  shows "addr_mismatch key q"
proof (rule ccontr)
  assume "\<not> addr_mismatch key q"
  then have 1: "sockaddr_cmp (addr key) (addr q) (mask_len p) = 0" "sockaddr_cmp (addr q) (addr p) (mask_len p) = 0"
    using assms(2) by (auto simp: addr_mismatch_def IKED_ADDR_NEQ_def)
  have "addr p \<noteq> Unspec"
    using assms(1) by (auto simp: addr_mismatch_def sockaddr_cmp_mixed)
  then have "addr q \<noteq> Unspec"
    using assms(2,4-6) sa_family_0 by (auto simp: IKED_ADDR_NEQ_def)
  then show False
    using sockaddr_cmp_trans[OF assms(3,5,4) _ 1] assms(1) by (simp add: addr_mismatch_def)
qed

lemma skip_reason_run:
  assumes "skip_safe pols" "addrs_wf key" "\<forall>p\<in>set pols. addrs_wf p" "i < IKED_SKIP_COUNT"
    "0 < c" "c < length pols" "skip_reason key (pols ! (c - 1)) i" "\<not> boundary pols i c"
  shows "skip_reason key (pols ! c) i"
proof -
  let ?cur = "pols ! c" and ?prev = "pols ! (c - 1)"
  have s: "has_flag ?prev IKED_POLICY_SKIP \<longrightarrow> has_flag ?cur IKED_POLICY_SKIP"
    "pol_af ?cur = AF_UNSPEC \<longleftrightarrow> pol_af ?prev = AF_UNSPEC"
    "addr_mask (pol_peer ?cur) = addr_mask (pol_peer ?prev) \<longrightarrow> unspec (pol_peer ?cur) = unspec (pol_peer ?prev)"
    "addr_mask (pol_local ?cur) = addr_mask (pol_local ?prev) \<longrightarrow> unspec (pol_local ?cur) = unspec (pol_local ?prev)"
    using assms(1,5,6) unfolding skip_safe_def Let_def by blast+
  have wf: "addrs_wf ?cur" "addrs_wf ?prev"
    using assms(3,5,6) by auto
  consider "i = 0" | "i = 1" | "i = 2" | "i = 3"
    using assms(4) by linarith
  then show ?thesis
  proof cases
    case 1
    then show ?thesis using assms(7,8) s(1) by (simp add: skip_reason_def boundary_def Let_def)
  next
    case 2
    then show ?thesis
      using assms(7,8) s(2) by (auto simp: skip_reason_def boundary_def Let_def af_mismatch_def af_changes_def)
  next
    case 3
    then show ?thesis
      using assms(2,7,8) s(4) wf addr_run[of "pol_local key" "pol_local ?prev" "pol_local ?cur"]
      by (auto simp: skip_reason_def boundary_def Let_def addrs_wf_def)
  next
    case 4
    then show ?thesis
      using assms(2,7,8) s(3) wf addr_run[of "pol_peer key" "pol_peer ?prev" "pol_peer ?cur"]
      by (auto simp: skip_reason_def boundary_def Let_def addrs_wf_def)
  qed
qed

lemma skipped_mismatch:
  assumes "skip_safe pols" "addrs_wf key" "\<forall>p\<in>set pols. addrs_wf p" "i < IKED_SKIP_COUNT"
    "skip_reason key (pols ! k) i" "k \<le> c" "c < t" "t \<le> length pols"
    "\<forall>c. k < c \<longrightarrow> c < t \<longrightarrow> \<not> boundary pols i c"
  shows "skip_reason key (pols ! c) i"
  using assms(6,7)
proof (induction c rule: dec_induct)
  case base
  then show ?case using assms(5) by simp
next
  case (step c)
  then show ?case
    using skip_reason_run[OF assms(1-4), of "Suc c"] assms(8,9) by simp
qed

lemma policy_test_loop_scan:
  assumes "skips_ok pols qs" "skip_safe pols" "addrs_wf key" "\<forall>p\<in>set pols. addrs_wf p" "k \<le> length pols"
  shows "policy_test_loop qs key (tailq qs k) pol = Some (policy_scan key (drop k pols) k pol)"
  using assms(5)
proof (induction "length pols - k" arbitrary: k pol rule: less_induct)
  case less
  have len: "length qs = length pols"
    using assms(1) wf_skips_length by (auto simp: skips_ok_def)
  show ?case
  proof (cases "k < length pols")
    case True
    have tq: "tailq qs k = Some k"
      using True len by (simp add: tailq_def)
    have eq: "strip (qs ! k) = strip (pols ! k)"
      using assms(1) True wf_skips_nth by (auto simp: skips_ok_def)
    have m: "policy_matches key (qs ! k) = policy_matches key (pols ! k)"
      using policy_matches_strip[OF eq] .
    have d: "drop k pols = pols ! k # drop (Suc k) pols"
      using True by (simp add: Cons_nth_drop_Suc)
    note nxt = less.hyps[of "Suc k"]
    from True[folded len] show ?thesis
    proof (cases rule: policy_test_step[where key = key and pol = pol])
      case (skip i)
      then obtain t where t: "pol_skip (qs ! k) ! i = tailq qs t" "k < t" "t \<le> length pols"
          "\<forall>c. k < c \<longrightarrow> c < t \<longrightarrow> \<not> boundary pols i c"
        using skips_ok_target[OF assms(1) True skip(1)] by blast
      have "skip_reason key (pols ! k) i"
        using skip(2) strip_eq_fields[OF eq] by (simp add: skip_reason_def af_mismatch_def)
      then have "\<forall>c. k \<le> c \<longrightarrow> c < t \<longrightarrow> \<not> policy_matches key (pols ! c)"
        using skipped_mismatch[OF assms(2-4) skip(1)] t(3,4) skip_reason_mismatch by blast
      then have "policy_scan key (drop k pols) k pol = policy_scan key (drop t pols) t pol"
        using t by (intro policy_scan_skip) auto
      then show ?thesis
        using less.hyps[of t] t True skip(3) tq by simp
    next
      case reject
      then show ?thesis using nxt True tq m d by simp
    next
      case quick
      then show ?thesis using tq m d strip_eq_fields[OF eq] by simp
    next
      case match
      then show ?thesis using nxt True tq m d strip_eq_fields[OF eq] by simp
    qed
  qed (use less.prems len in \<open>simp add: tailq_def\<close>)
qed
subsection \<open>Properties of the policy lookup\<close>

abbreviation any_addr :: iked_addr where
  "any_addr \<equiv> \<lparr>addr_af = 0, addr = Unspec, addr_mask = 0, addr_net = False, addr_port = 0\<rparr>"

abbreviation v4_addr :: "byte list \<Rightarrow> byte \<Rightarrow> iked_addr" where
  "v4_addr a m \<equiv> \<lparr>addr_af = 2, addr = Sin a 0, addr_mask = m, addr_net = False, addr_port = 0\<rparr>"

abbreviation v6_addr :: "byte list \<Rightarrow> byte \<Rightarrow> iked_addr" where
  "v6_addr a m \<equiv> \<lparr>addr_af = 10, addr = Sin6 a 0 0, addr_mask = m, addr_net = False, addr_port = 0\<rparr>"

definition plain_policy :: "u32 \<Rightarrow> nat \<Rightarrow> iked_addr \<Rightarrow> iked_policy" where
  "plain_policy flags af peer =
     \<lparr>pol_skip = [None, None, None, None], pol_flags = flags, pol_refcnt = 0, pol_af = af, pol_peer = peer,
      pol_peerid = \<lparr>sid_type = 0, sid_data = []\<rparr>, pol_local = any_addr,
      pol_localid = \<lparr>sid_type = 0, sid_data = []\<rparr>, pol_auth = \<lparr>auth_method = 0, auth_eap = 0\<rparr>,
      pol_proposals = [], pol_flows = Leaf, pol_nflows = 0, pol_tssrc = [], pol_tssrc_count = 0,
      pol_tsdst = [], pol_tsdst_count = 0, pol_sapeers = []\<rparr>"

lemmas policy_eval = plain_policy_def policy_calc_skip_steps_def set_skip_steps_def skip_to.simps
  af_changes_def IKED_ADDR_NEQ_def tailq_def policy_test_def policy_test_loop.simps af_mismatch_def
  addr_mismatch_def policy_reject_def id_mismatch_def policy_test_flows_def policy_matches_def

text \<open>
  C24: The policy lookup always ends and never leaves the list.  For every list of policies the
  computation of the skip steps succeeds, and the lookup on its result returns; a policy that it
  returns passes every filter for the key.
\<close>

theorem policy_test_sound:
  assumes "\<forall>p\<in>set pols. length (pol_skip p) = IKED_SKIP_COUNT"
  shows "\<exists>qs r. policy_calc_skip_steps pols = Some qs \<and> policy_test qs key = Some r \<and>
    (\<forall>i. r = Some i \<longrightarrow> i < length pols \<and> policy_matches key (pols ! i))"
proof -
  obtain qs where qs: "policy_calc_skip_steps pols = Some qs" "skips_ok pols qs"
    using policy_calc_skip_steps_ok[OF assms] by blast
  have wf: "wf_skips pols qs"
    using qs(2) by (simp add: skips_ok_def)
  obtain r where r: "policy_test qs key = Some r"
      "r = None \<or> (\<exists>i<length qs. r = Some i \<and> policy_matches key (qs ! i))"
    using policy_test_loop_sound[OF qs(2), of 0 key None] by (auto simp: policy_test_def)
  have "i < length pols \<and> policy_matches key (pols ! i)" if "r = Some i" for i
    using that r(2) wf_skips_length[OF wf] policy_matches_strip[OF wf_skips_nth[OF wf, of i]] by auto
  then show ?thesis
    using qs(1) r(1) by blast
qed

theorem policy_test_sound_witness:
  "\<exists>qs r. policy_calc_skip_steps [plain_policy 0 2 (v4_addr [10, 0, 0, 1] 32)] = Some qs \<and>
     policy_test qs (plain_policy 0 2 (v4_addr [10, 0, 0, 1] 32)) = Some r"
proof -
  have "\<forall>p\<in>set [plain_policy 0 2 (v4_addr [10, 0, 0, 1] 32)]. length (pol_skip p) = IKED_SKIP_COUNT"
    by (simp add: plain_policy_def)
  from policy_test_sound[OF this, of "plain_policy 0 2 (v4_addr [10, 0, 0, 1] 32)"] show ?thesis
    by blast
qed

text \<open>
  C25: On lists where the skip steps are harmless they do not change the outcome: the lookup
  returns what the evaluation of every policy in turn returns, the last match or the first quick
  match.
\<close>

theorem policy_test_scan:
  assumes "\<forall>p\<in>set pols. length (pol_skip p) = IKED_SKIP_COUNT" "skip_safe pols" "addrs_wf key"
    "\<forall>p\<in>set pols. addrs_wf p"
  shows "\<exists>qs. policy_calc_skip_steps pols = Some qs \<and> policy_test qs key = Some (policy_scan key pols 0 None)"
proof -
  obtain qs where "policy_calc_skip_steps pols = Some qs" "skips_ok pols qs"
    using policy_calc_skip_steps_ok[OF assms(1)] by blast
  then show ?thesis
    using policy_test_loop_scan[OF _ assms(2-4), of qs 0 None] by (simp add: policy_test_def)
qed

abbreviation two_policies :: "iked_policy list" where
  "two_policies \<equiv> [plain_policy 0 2 (v4_addr [10, 0, 0, 0] 8), plain_policy 0 2 (v4_addr [10, 1, 0, 0] 16)]"

theorem policy_test_scan_witness:
  "\<exists>qs. policy_calc_skip_steps two_policies = Some qs \<and>
     policy_test qs (plain_policy 0 2 (v4_addr [10, 1, 2, 3] 32)) = Some (Some 1)"
proof -
  have 1: "\<forall>p\<in>set two_policies. length (pol_skip p) = IKED_SKIP_COUNT" "\<forall>p\<in>set two_policies. addrs_wf p"
    "addrs_wf (plain_policy 0 2 (v4_addr [10, 1, 2, 3] 32))"
    by (simp_all add: plain_policy_def addrs_wf_def)
  have 2: "skip_safe two_policies"
    by (auto simp: skip_safe_def plain_policy_def Let_def less_Suc_eq)
  have "policy_scan (plain_policy 0 2 (v4_addr [10, 1, 2, 3] 32)) two_policies 0 None = Some 1"
    by (simp add: policy_eval sockaddr_cmp_Sin sockaddr_cmp_mixed same_prefix_def prefix_bits_def addr_bits_def upt_rec)
  then show ?thesis
    using policy_test_scan[OF 1(1) 2 1(3,2)] by simp
qed


subsection \<open>Flows are ordered\<close>

definition cmp_then :: "('a \<Rightarrow> 'a \<Rightarrow> int) \<Rightarrow> ('a \<Rightarrow> 'a \<Rightarrow> int) \<Rightarrow> 'a \<Rightarrow> 'a \<Rightarrow> int" where
  "cmp_then c d x y = (if c x y \<noteq> 0 then c x y else d x y)"

lemma key_order_then:
  assumes "key_order c S" "key_order d S"
  shows "key_order (cmp_then c d) S"
proof (unfold_locales, goal_cases)
  case (1 x y)
  then show ?case
    using key_order.cmp_flip[OF assms(1), of x y] key_order.cmp_flip[OF assms(1), of y x]
      key_order.cmp_flip[OF assms(2), of x y] by (auto simp: cmp_then_def)
next
  case (2 x y z)
  have "c x y \<le> 0" "c y z \<le> 0"
    using 2(4,5) by (auto simp: cmp_then_def split: if_splits)
  then consider "c x y < 0" | "c y z < 0" | "c x y = 0" "c y z = 0" by linarith
  then show ?case
  proof cases
    case 1
    then show ?thesis
      using key_order.cmp_less_le_trans[OF assms(1) 2(1-3) 1 \<open>c y z \<le> 0\<close>] by (simp add: cmp_then_def)
  next
    case b: 2
    then show ?thesis
      using key_order.cmp_le_less_trans[OF assms(1) 2(1-3) \<open>c x y \<le> 0\<close> b] by (simp add: cmp_then_def)
  next
    case 3
    have "c x z \<le> 0"
      using key_order.cmp_le_trans[OF assms(1) 2(1-3)] 3 by simp
    moreover have "d x z \<le> 0"
      using key_order.cmp_le_trans[OF assms(2) 2(1-3)] 2(4,5) 3 by (simp add: cmp_then_def)
    ultimately show ?thesis
      by (simp add: cmp_then_def)
  qed
qed

lemma key_order_diff: "key_order (\<lambda>x y. f x - f y) S"
  by unfold_locales auto

lemma key_order_on:
  assumes "key_order c T" "f ` S \<subseteq> T"
  shows "key_order (\<lambda>x y. c (f x) (f y)) S"
proof (unfold_locales, goal_cases)
  case (1 x y)
  then show ?case
    using key_order.cmp_flip[OF assms(1)] assms(2) by blast
next
  case (2 x y z)
  then show ?case
    using key_order.cmp_le_trans[OF assms(1), of "f x" "f y" "f z"] assms(2) by blast
qed

lemma key_order_cmp32: "key_order (\<lambda>x y. cmp32 (f x) (f y)) S"
  by unfold_locales (auto simp: cmp32_def split: if_splits)

lemma key_order_cong:
  assumes "key_order c S" "\<And>x y. x \<in> S \<Longrightarrow> y \<in> S \<Longrightarrow> c x y = d x y"
  shows "key_order d S"
proof (unfold_locales, goal_cases)
  case (1 x y)
  then show ?case
    using key_order.cmp_flip[OF assms(1) 1] assms(2) by simp
next
  case (2 x y z)
  then show ?case
    using key_order.cmp_le_trans[OF assms(1) 2(1-3)] assms(2) by simp
qed

text \<open>The order of the specified addresses: the family, then the masked words, the last one first.\<close>

definition addr_word :: "int \<Rightarrow> nat \<Rightarrow> sockaddr \<Rightarrow> u32" where
  "addr_word n i a =
     (case a of
        Sin a4 _ \<Rightarrow>
          if i = 0 then load32 a4 0 AND (if n = - 1 then 0xffffffff else prefixlen2mask (nat (n mod 256))) else 0
      | Sin6 a6 _ _ \<Rightarrow>
          load32 a6 i AND load32 (if n = - 1 then replicate 16 0xff else prefixlen2mask6 (nat (n mod 256))) i
      | _ \<Rightarrow> 0)"

definition family_cmp :: "sockaddr \<Rightarrow> sockaddr \<Rightarrow> int" where
  "family_cmp a b = (if sa_family b < sa_family a then 1 else if sa_family a < sa_family b then - 1 else 0)"

definition specified :: "sockaddr set" where
  "specified = {a. sa_wf a \<and> a \<noteq> Unspec}"

lemma cmp32_same: "cmp32 x x = 0"
  by (simp add: cmp32_def)

lemma sockaddr_cmp_lex:
  assumes "a \<in> specified" "b \<in> specified"
  shows "sockaddr_cmp a b n =
     cmp_then family_cmp (cmp_then (\<lambda>a b. cmp32 (addr_word n 3 a) (addr_word n 3 b))
      (cmp_then (\<lambda>a b. cmp32 (addr_word n 2 a) (addr_word n 2 b))
       (cmp_then (\<lambda>a b. cmp32 (addr_word n 1 a) (addr_word n 1 b))
         (\<lambda>a b. cmp32 (addr_word n 0 a) (addr_word n 0 b))))) a b"
  using assms
  by (cases a; cases b)
    (simp_all add: specified_def sockaddr_cmp.simps cmp_then_def family_cmp_def addr_word_def Let_def cmp32_same)

lemma sockaddr_order: "key_order (\<lambda>a b. sockaddr_cmp a b n) specified"
proof (rule key_order_cong)
  have "key_order family_cmp specified"
    by unfold_locales (auto simp: family_cmp_def split: if_splits)
  then show "key_order (cmp_then family_cmp (cmp_then (\<lambda>a b. cmp32 (addr_word n 3 a) (addr_word n 3 b))
      (cmp_then (\<lambda>a b. cmp32 (addr_word n 2 a) (addr_word n 2 b))
       (cmp_then (\<lambda>a b. cmp32 (addr_word n 1 a) (addr_word n 1 b))
         (\<lambda>a b. cmp32 (addr_word n 0 a) (addr_word n 0 b)))))) specified"
    by (intro key_order_then key_order_cmp32)
qed (use sockaddr_cmp_lex in simp)

definition spec_addrs :: "iked_addr set" where
  "spec_addrs = {a. addr a \<in> specified}"

lemma addr_order: "key_order (\<lambda>a b. addr_cmp a b useports) spec_addrs"
proof (rule key_order_cong)
  have "key_order (\<lambda>a b. sockaddr_cmp (addr a) (addr b) 128) spec_addrs"
    by (rule key_order_on[OF sockaddr_order]) (auto simp: spec_addrs_def)
  then show "key_order (cmp_then (\<lambda>a b. sockaddr_cmp (addr a) (addr b) 128)
      (cmp_then (\<lambda>a b. mask_len a - mask_len b)
        (\<lambda>a b. (if useports then int (unat (addr_port a)) else 0) - (if useports then int (unat (addr_port b)) else 0)))) spec_addrs"
    by (intro key_order_then key_order_diff)
qed (auto simp: addr_cmp_def cmp_then_def Let_def)

text \<open>
  The flows of a table: source and destination are specified, and either all of them or none has a
  pre-NAT address.
\<close>

definition spec_flows :: "bool \<Rightarrow> iked_flow set" where
  "spec_flows natted = {f. flow_src f \<in> spec_addrs \<and> flow_dst f \<in> spec_addrs \<and>
     (if natted then flow_prenat f \<in> spec_addrs else addr (flow_prenat f) = Unspec)}"

lemma flow_order: "key_order flow_cmp (spec_flows natted)"
proof (rule key_order_cong)
  have 1: "key_order (\<lambda>a b. addr_cmp (f a) (f b) u) (spec_flows natted)" if "f ` spec_flows natted \<subseteq> spec_addrs" for f u
    by (rule key_order_on[OF addr_order that])
  have 2: "key_order (\<lambda>a b. addr_cmp (flow_prenat a) (flow_prenat b) False) (spec_flows natted)"
  proof (cases natted)
    case True
    then show ?thesis by (intro 1) (auto simp: spec_flows_def)
  next
    case False
    show ?thesis
      by (rule key_order_cong[OF key_order_diff[of "\<lambda>a. mask_len (flow_prenat a)"]])
        (use False in \<open>simp add: spec_flows_def addr_cmp_def sockaddr_cmp_mixed\<close>)
  qed
  show "key_order (cmp_then (\<lambda>a b. flow_rdomain a - flow_rdomain b)
     (cmp_then (\<lambda>a b. int (unat (flow_ipproto a)) - int (unat (flow_ipproto b)))
     (cmp_then (\<lambda>a b. int (unat (flow_saproto a)) - int (unat (flow_saproto b)))
     (cmp_then (\<lambda>a b. sint (flow_dir a) - sint (flow_dir b))
     (cmp_then (\<lambda>a b. addr_cmp (flow_dst a) (flow_dst b) True)
     (cmp_then (\<lambda>a b. addr_cmp (flow_src a) (flow_src b) True)
        (\<lambda>a b. addr_cmp (flow_prenat a) (flow_prenat b) False))))))) (spec_flows natted)"
    by (intro key_order_then key_order_diff 1 2) (auto simp: spec_flows_def)
qed (auto simp: flow_cmp_def cmp_then_def Let_def)

interpretation flows: key_order flow_cmp "spec_flows natted" for natted
  by (rule flow_order)

subsection \<open>Flow tables and traffic selectors\<close>


definition plain_flow :: "byte \<Rightarrow> iked_addr \<Rightarrow> iked_addr \<Rightarrow> iked_flow" where
  "plain_flow proto src dst =
     \<lparr>flow_src = src, flow_dst = dst, flow_dir = 2, flow_rdomain = - 1, flow_prenat = any_addr,
      flow_loaded = False, flow_saproto = 3, flow_ipproto = proto\<rparr>"

abbreviation net_flow :: "byte \<Rightarrow> iked_flow" where
  "net_flow proto \<equiv> plain_flow proto (v4_addr [10, 0, 0, 0] 8) (v4_addr [10, 9, 0, 0] 16)"

lemma net_flow_spec: "net_flow proto \<in> spec_flows False"
  by (simp add: plain_flow_def spec_flows_def spec_addrs_def specified_def)


definition ts_unique :: "iked_ts list \<Rightarrow> bool" where
  "ts_unique tss \<longleftrightarrow> sorted_wrt (\<lambda>a b. addr_cmp (ts_addr b) (ts_addr a) True \<noteq> 0) tss"

lemma ts_insert_unique_ok:
  assumes "ts_unique tss" "(r, tss') = ts_insert_unique True a tss proto" "a \<in> spec_addrs"
  shows "ts_unique tss' \<and> set tss \<subseteq> set tss' \<and> (\<exists>ts\<in>set tss'. addr_cmp a (ts_addr ts) True = 0) \<and>
     ts_addr ` set tss' \<subseteq> insert a (ts_addr ` set tss) \<and>
     length tss' = (if r = 1 then length tss + 1 else length tss)"
proof (cases "\<exists>ts\<in>set tss. addr_cmp a (ts_addr ts) True = 0")
  case True
  then show ?thesis
    using assms by (auto simp: ts_insert_unique_def)
next
  case False
  have "addr_cmp a a True = 0"
    using key_order.cmp_refl[OF addr_order assms(3)] .
  moreover have "r = 1" "tss' = tss @ [\<lparr>ts_addr = a, ts_ipproto = proto\<rparr>]"
    using assms(2) False by (simp_all add: ts_insert_unique_def)
  ultimately show ?thesis
    using assms(1) False by (auto simp: ts_unique_def sorted_wrt_append)
qed

text \<open>What the loop has done for the flows \<open>F\<close>.\<close>

definition ts_inv :: "iked_flow set \<Rightarrow> iked_policy \<Rightarrow> bool" where
  "ts_inv F pol \<longleftrightarrow> ts_unique (pol_tssrc pol) \<and> ts_unique (pol_tsdst pol) \<and>
     pol_tssrc_count pol = length (pol_tssrc pol) \<and> pol_tsdst_count pol = length (pol_tsdst pol) \<and>
     ts_addr ` set (pol_tssrc pol) \<subseteq> flow_src ` F \<and> ts_addr ` set (pol_tsdst pol) \<subseteq> flow_dst ` F \<and>
     (\<forall>f\<in>F. (\<exists>ts\<in>set (pol_tssrc pol). addr_cmp (flow_src f) (ts_addr ts) True = 0) \<and>
            (\<exists>ts\<in>set (pol_tsdst pol). addr_cmp (flow_dst f) (ts_addr ts) True = 0))"

lemma ts_inv_step:
  assumes "ts_inv F pol" "flow_src f \<in> spec_addrs" "flow_dst f \<in> spec_addrs"
  shows "ts_inv (insert f F) (generate_ts_step (True, True) f pol)"
proof -
  obtain r src where s: "(r, src) = ts_insert_unique True (flow_src f) (pol_tssrc pol) (flow_ipproto f)"
    by (metis surj_pair)
  obtain q dst where d: "(q, dst) = ts_insert_unique True (flow_dst f) (pol_tsdst pol) (flow_ipproto f)"
    by (metis surj_pair)
  have e: "generate_ts_step (True, True) f pol =
     pol\<lparr>pol_tssrc := src, pol_tssrc_count := (if r = 1 then pol_tssrc_count pol + 1 else pol_tssrc_count pol),
         pol_tsdst := dst, pol_tsdst_count := (if q = 1 then pol_tsdst_count pol + 1 else pol_tsdst_count pol)\<rparr>"
    unfolding generate_ts_step_def Let_def by (simp flip: s) (simp flip: d)
  have ts: "ts_unique (pol_tssrc pol)" "ts_unique (pol_tsdst pol)"
    using assms(1) by (simp_all add: ts_inv_def)
  note S = ts_insert_unique_ok[OF ts(1) s assms(2)] and D = ts_insert_unique_ok[OF ts(2) d assms(3)]
  have old: "ts_addr ` set (pol_tssrc pol) \<subseteq> flow_src ` F" "ts_addr ` set (pol_tsdst pol) \<subseteq> flow_dst ` F"
    "\<And>g. g \<in> F \<Longrightarrow> \<exists>ts\<in>set (pol_tssrc pol). addr_cmp (flow_src g) (ts_addr ts) True = 0"
    "\<And>g. g \<in> F \<Longrightarrow> \<exists>ts\<in>set (pol_tsdst pol). addr_cmp (flow_dst g) (ts_addr ts) True = 0"
    "pol_tssrc_count pol = length (pol_tssrc pol)" "pol_tsdst_count pol = length (pol_tsdst pol)"
    using assms(1) by (simp_all add: ts_inv_def)
  have 1: "ts_addr ` set src \<subseteq> flow_src ` insert f F"
  proof -
    have "ts_addr ` set src \<subseteq> insert (flow_src f) (ts_addr ` set (pol_tssrc pol))"
      using S by blast
    then show ?thesis using old(1) by blast
  qed
  have 2: "ts_addr ` set dst \<subseteq> flow_dst ` insert f F"
  proof -
    have "ts_addr ` set dst \<subseteq> insert (flow_dst f) (ts_addr ` set (pol_tsdst pol))"
      using D by blast
    then show ?thesis using old(2) by blast
  qed
  have 3: "\<exists>ts\<in>set src. addr_cmp (flow_src g) (ts_addr ts) True = 0" if "g \<in> insert f F" for g
    using that S old(3)[of g] by (cases "g = f") blast+
  have 4: "\<exists>ts\<in>set dst. addr_cmp (flow_dst g) (ts_addr ts) True = 0" if "g \<in> insert f F" for g
    using that D old(4)[of g] by (cases "g = f") blast+
  have 5: "length src = (if r = 1 then pol_tssrc_count pol + 1 else pol_tssrc_count pol)" "ts_unique src"
    using S old(5) by simp_all
  have 6: "length dst = (if q = 1 then pol_tsdst_count pol + 1 else pol_tsdst_count pol)" "ts_unique dst"
    using D old(6) by simp_all
  let ?p = "generate_ts_step (True, True) f pol"
  have sel: "pol_tssrc ?p = src" "pol_tsdst ?p = dst" "pol_tssrc_count ?p = length src" "pol_tsdst_count ?p = length dst"
    unfolding e using 5(1) 6(1) by simp_all
  show ?thesis
    unfolding ts_inv_def sel using 1 2 3 4 5(2) 6(2) by blast
qed

lemma ts_inv_fold:
  assumes "ts_inv F pol" "\<forall>f\<in>set fs. flow_src f \<in> spec_addrs \<and> flow_dst f \<in> spec_addrs"
  shows "ts_inv (F \<union> set fs) (fold (generate_ts_step (True, True)) fs pol)"
  using assms
proof (induction fs arbitrary: F pol)
  case (Cons f fs)
  then show ?case
    using Cons.IH[OF ts_inv_step, of F pol f] by simp
qed simp

text \<open>
  C29: The traffic selectors of a policy are the addresses of its flows without duplicates.  When
  the allocations succeed, every flow has a selector equal to its source and one equal to its
  destination, no two selectors of a list are equal, the counters are the lengths, and the policy
  is refused exactly when one of the lists has more than 255 entries.
\<close>

theorem policy_generate_ts_correct:
  assumes "pol_tssrc pol = []" "pol_tsdst pol = []" "pol_tssrc_count pol = 0" "pol_tsdst_count pol = 0"
    "set (inorder (pol_flows pol)) \<subseteq> spec_flows natted"
  shows "\<exists>pol'. policy_generate_ts (\<lambda>_. (True, True)) pol =
      (if 255 < length (pol_tssrc pol') \<or> 255 < length (pol_tsdst pol') then - 1 else 0, pol') \<and>
    ts_inv (set (inorder (pol_flows pol))) pol'"
proof -
  have "ts_inv {} pol"
    using assms by (simp add: ts_inv_def ts_unique_def)
  moreover have "\<forall>f\<in>set (inorder (pol_flows pol)). flow_src f \<in> spec_addrs \<and> flow_dst f \<in> spec_addrs"
    using assms(5) by (auto simp: spec_flows_def)
  ultimately have inv: "ts_inv (set (inorder (pol_flows pol)))
      (fold (generate_ts_step (True, True)) (inorder (pol_flows pol)) pol)" (is "ts_inv _ ?pol'")
    using ts_inv_fold[of "{}" pol "inorder (pol_flows pol)"] by simp
  then have "pol_tssrc_count ?pol' = length (pol_tssrc ?pol')" "pol_tsdst_count ?pol' = length (pol_tsdst ?pol')"
    unfolding ts_inv_def by blast+
  then have "policy_generate_ts (\<lambda>_. (True, True)) pol =
      (if 255 < length (pol_tssrc ?pol') \<or> 255 < length (pol_tsdst ?pol') then - 1 else 0, ?pol')"
    by (simp add: policy_generate_ts_def Let_def)
  then show ?thesis
    using inv by blast
qed

theorem policy_generate_ts_correct_witness:
  "\<exists>pol'. policy_generate_ts (\<lambda>_. (True, True))
       ((plain_policy 0 0 any_addr)\<lparr>pol_flows := Node Black Leaf (net_flow 6) Leaf\<rparr>) = (0, pol') \<and>
     ts_inv {net_flow 6} pol'"
proof -
  let ?p = "(plain_policy 0 0 any_addr)\<lparr>pol_flows := Node Black Leaf (net_flow 6) Leaf\<rparr>"
  have "set (inorder (pol_flows ?p)) \<subseteq> spec_flows False"
    using net_flow_spec by simp
  moreover have "fst (policy_generate_ts (\<lambda>_. (True, True)) ?p) = 0"
    by (simp add: policy_generate_ts_def generate_ts_step_def ts_insert_unique_def plain_policy_def Let_def)
  ultimately show ?thesis
    using policy_generate_ts_correct[of ?p False] by (auto simp: plain_policy_def split: if_splits)
qed


end
