(* ===== verification/Crypto.thy ===== *)
theory Crypto
  imports Ibuf Proposal
begin

section \<open>Message authentication and encryption objects: iked/crypto.c\<close>

text \<open>
  The structures \<^verbatim>\<open>iked_hash\<close> and \<^verbatim>\<open>iked_cipher\<close> and their operations.  The cryptographic library is a
  parameter, the record \<open>evp\<close>: each of its fields is what one library call delivers for the inputs the
  context has been given so far.  A context is therefore the record of those inputs.  Buffers are
  their readable bytes, a null pointer is the inner \<open>None\<close>, and the outer \<open>None\<close> is an access outside a
  buffer or through a null pointer.  The outcome of each allocation is a Boolean argument \<open>ok\<close>.
\<close>

datatype evp_md = EVP_md5 | EVP_sha1 | EVP_sha256 | EVP_sha384 | EVP_sha512

datatype evp_cipher =
    EVP_des_ede3_cbc
  | EVP_aes_128_cbc
  | EVP_aes_192_cbc
  | EVP_aes_256_cbc
  | EVP_aes_128_gcm
  | EVP_aes_256_gcm

record evp_ctx =
  cx_cipher :: evp_cipher
  cx_enc :: bool
  cx_key :: "byte list"
  cx_iv :: "byte list"
  cx_aad :: "byte list"
  cx_in :: "byte list"
  cx_tag :: "byte list option"

record evp =
  EVP_CIPHER_block_size :: "evp_cipher \<Rightarrow> nat"
  EVP_CIPHER_key_length :: "evp_cipher \<Rightarrow> nat"
  EVP_CIPHER_iv_length :: "evp_cipher \<Rightarrow> nat"
  HMAC_bytes :: "evp_md \<Rightarrow> byte list \<Rightarrow> byte list \<Rightarrow> byte list"
  EVP_CipherUpdate :: "evp_ctx \<Rightarrow> byte list \<Rightarrow> byte list option"
  EVP_CipherFinal_ok :: "evp_ctx \<Rightarrow> bool"
  EVP_gcm_tag :: "evp_ctx \<Rightarrow> nat \<Rightarrow> byte list option"

record iked_hash =
  hash_type :: byte
  hash_id :: u16
  hash_priv :: "evp_md option"
  hash_ctx :: "(evp_md \<times> byte list \<times> byte list) option"
  hash_fixedkey :: nat
  hash_key :: "byte list option"
  hash_length_of :: nat
  hash_trunc :: nat
  hash_isaead :: bool

record iked_cipher =
  encr_id :: u16
  encr_priv :: evp_cipher
  encr_ctx :: "evp_ctx option"
  encr_fixedkey :: nat
  encr_key :: "byte list option"
  encr_iv :: "byte list option"
  encr_civ :: u64
  encr_ivlength :: nat
  encr_length :: nat
  encr_saltlength :: nat
  encr_authid :: u16

definition roundup :: "nat \<Rightarrow> nat \<Rightarrow> nat" where
  "roundup x y = (x + (y - 1)) div y * y"

text \<open>A new buffer holding the given bytes, as \<^verbatim>\<open>ibuf_new\<close> makes it.\<close>

definition buf_new :: "bool \<Rightarrow> byte list \<Rightarrow> byte list option" where
  "buf_new ok d =
     (case ibuf_new ok (Some d) (length d) of Some (Inr b) \<Rightarrow> Some (ibuf_bytes b) | _ \<Rightarrow> None)"

subsection \<open>Hashes\<close>

text \<open>The digest, the full and the truncated length of an algorithm.\<close>

definition hash_alg :: "byte \<Rightarrow> u16 \<Rightarrow> (evp_md option \<times> nat \<times> nat \<times> bool) option" where
  "hash_alg type hid =
     (if type = IKEV2_XFORMTYPE_PRF then
        (if hid = 1 then Some (Some EVP_md5, 16, 0, False)
         else if hid = 2 then Some (Some EVP_sha1, 20, 0, False)
         else if hid = 5 then Some (Some EVP_sha256, 32, 0, False)
         else if hid = 6 then Some (Some EVP_sha384, 48, 0, False)
         else if hid = 7 then Some (Some EVP_sha512, 64, 0, False)
         else None)
      else if type = IKEV2_XFORMTYPE_INTEGR then
        (if hid = 1 then Some (Some EVP_md5, 16, 12, False)
         else if hid = 2 then Some (Some EVP_sha1, 20, 12, False)
         else if hid = 12 then Some (Some EVP_sha256, 32, 16, False)
         else if hid = 13 then Some (Some EVP_sha384, 48, 24, False)
         else if hid = 14 then Some (Some EVP_sha512, 64, 32, False)
         else if hid = 2019 then Some (None, 12, 0, True)
         else if hid = 2020 then Some (None, 16, 0, True)
         else None)
      else None)"

definition hash_new :: "bool \<Rightarrow> byte \<Rightarrow> u16 \<Rightarrow> iked_hash option" where
  "hash_new ok type hid =
     (case hash_alg type hid of
        None \<Rightarrow> None
      | Some (md, len, trunc, isaead) \<Rightarrow>
          if \<not> ok then None
          else Some \<lparr>hash_type = type, hash_id = hid, hash_priv = md, hash_ctx = None,
                     hash_fixedkey = 0, hash_key = None, hash_length_of = len,
                     hash_trunc = trunc, hash_isaead = isaead\<rparr>)"

definition hash_setkey :: "bool \<Rightarrow> iked_hash \<Rightarrow> byte list \<Rightarrow> iked_hash" where
  "hash_setkey ok hash key = hash\<lparr>hash_key := buf_new ok key\<rparr>"

definition hash_init :: "iked_hash \<Rightarrow> iked_hash option" where
  "hash_init hash = do {
     key \<leftarrow> hash_key hash;
     md \<leftarrow> hash_priv hash;
     Some (hash\<lparr>hash_ctx := Some (md, key, [])\<rparr>) }"

definition hash_update :: "iked_hash \<Rightarrow> byte list \<Rightarrow> iked_hash option" where
  "hash_update hash d = do {
     (md, key, ds) \<leftarrow> hash_ctx hash;
     Some (hash\<lparr>hash_ctx := Some (md, key, ds @ d)\<rparr>) }"

text \<open>The digest goes into a buffer of \<open>cap\<close> bytes; the result is that buffer and the reported length.\<close>

definition hash_final :: "evp \<Rightarrow> iked_hash \<Rightarrow> nat \<Rightarrow> (byte list \<times> nat) option" where
  "hash_final ev hash cap = do {
     (md, key, ds) \<leftarrow> hash_ctx hash;
     let out = HMAC_bytes ev md key ds;
     buf \<leftarrow> mem_write (replicate cap 0) 0 out;
     Some (buf, if hash_trunc hash \<noteq> 0 \<and> hash_trunc hash < length out then hash_trunc hash
                else length out) }"

definition hash_length :: "iked_hash \<Rightarrow> nat" where
  "hash_length hash = (if hash_trunc hash \<noteq> 0 then hash_trunc hash else hash_length_of hash)"

definition hash_keylength :: "iked_hash \<Rightarrow> nat" where
  "hash_keylength hash = hash_length_of hash"

subsection \<open>Ciphers\<close>

definition cipher_alg :: "byte \<Rightarrow> u16 \<Rightarrow> u16 \<Rightarrow> evp_cipher option" where
  "cipher_alg type cid id_length =
     (if type \<noteq> IKEV2_XFORMTYPE_ENCR then None
      else if cid = 3 then Some EVP_des_ede3_cbc
      else if cid = 12 then
        (if id_length = 128 then Some EVP_aes_128_cbc
         else if id_length = 192 then Some EVP_aes_192_cbc
         else if id_length = 256 then Some EVP_aes_256_cbc else None)
      else if cid = 20 \<or> cid = 19 then
        (if id_length = 128 then Some EVP_aes_128_gcm
         else if id_length = 256 then Some EVP_aes_256_gcm else None)
      else None)"

definition cipher_new :: "evp \<Rightarrow> bool \<Rightarrow> byte \<Rightarrow> u16 \<Rightarrow> u16 \<Rightarrow> iked_cipher option" where
  "cipher_new ev ok type cid id_length =
     (case cipher_alg type cid id_length of
        None \<Rightarrow> None
      | Some cipher \<Rightarrow>
          if \<not> ok then None
          else
            (let gcm = (cid = 20 \<or> cid = 19);
                 len = EVP_CIPHER_block_size ev cipher;
                 ivlength = (if gcm then 8 else EVP_CIPHER_iv_length ev cipher);
                 saltlength = (if gcm then 4 else 0)
             in Some \<lparr>encr_id = cid, encr_priv = cipher, encr_ctx = None,
                      encr_fixedkey = EVP_CIPHER_key_length ev cipher + saltlength,
                      encr_key = None, encr_iv = None, encr_civ = 0,
                      encr_ivlength = (if ivlength \<noteq> 0 then ivlength else len),
                      encr_length = len, encr_saltlength = saltlength,
                      encr_authid = (if cid = 20 then 2020 else if cid = 19 then 2019 else 0)\<rparr>))"

definition cipher_setkey :: "bool \<Rightarrow> iked_cipher \<Rightarrow> byte list \<Rightarrow> iked_cipher" where
  "cipher_setkey ok encr key = encr\<lparr>encr_key := buf_new ok key\<rparr>"

text \<open>The pointer \<^verbatim>\<open>iv\<close> with the bytes behind it; the return value is the new field \<open>encr_iv\<close>.\<close>

definition cipher_setiv ::
    "bool \<Rightarrow> (nat \<Rightarrow> byte) \<Rightarrow> iked_cipher \<Rightarrow> byte list option \<Rightarrow> iked_cipher" where
  "cipher_setiv ok rnd encr iv =
     (case iv of
        Some d \<Rightarrow>
          if length d < encr_ivlength encr then encr\<lparr>encr_iv := None\<rparr>
          else encr\<lparr>encr_iv := buf_new ok (take (encr_ivlength encr) d)\<rparr>
      | None \<Rightarrow>
          if encr_id encr = 20 \<or> encr_id encr = 19 then
            (if encr_ivlength encr \<noteq> 8 then encr\<lparr>encr_iv := None\<rparr>
             else encr\<lparr>encr_iv := buf_new ok (le_bytes 8 (unat (encr_civ encr))),
                       encr_civ := encr_civ encr + 1\<rparr>)
          else encr\<lparr>encr_iv := (if ok then Some (map rnd [0..<encr_ivlength encr]) else None)\<rparr>)"

definition cipher_settag :: "iked_cipher \<Rightarrow> byte list \<Rightarrow> iked_cipher option" where
  "cipher_settag encr d = do {
     ctx \<leftarrow> encr_ctx encr;
     Some (encr\<lparr>encr_ctx := Some (ctx\<lparr>cx_tag := Some d\<rparr>)\<rparr>) }"

definition cipher_gettag :: "evp \<Rightarrow> iked_cipher \<Rightarrow> nat \<Rightarrow> byte list option option" where
  "cipher_gettag ev encr len = do {
     ctx \<leftarrow> encr_ctx encr;
     Some (EVP_gcm_tag ev ctx len) }"

text \<open>
  \<^verbatim>\<open>EVP_CipherInit_ex\<close> reads the key and the nonce from memory at the lengths of the algorithm.  The
  salt is the end of the key; for a key shorter than the salt \<^verbatim>\<open>ibuf_seek\<close> returns a null pointer and
  \<^verbatim>\<open>ibuf_new\<close> makes a buffer of zeros.  The inner \<open>None\<close> is the return value \<open>-1\<close>.
\<close>

definition cipher_init :: "evp \<Rightarrow> bool \<Rightarrow> iked_cipher \<Rightarrow> bool \<Rightarrow> iked_cipher option option" where
  "cipher_init ev ok encr enc = do {
     key \<leftarrow> encr_key encr;
     let salt = encr_saltlength encr;
     if 0 < salt \<and> \<not> ok then Some None
     else do {
       iv \<leftarrow> encr_iv encr;
       let sl = (if length key < salt then replicate salt 0 else drop (length key - salt) key);
       k \<leftarrow> mem_read key 0 (EVP_CIPHER_key_length ev (encr_priv encr));
       n \<leftarrow> mem_read (sl @ iv) 0 (EVP_CIPHER_iv_length ev (encr_priv encr));
       Some (Some (encr\<lparr>encr_ctx := Some \<lparr>cx_cipher = encr_priv encr, cx_enc = enc, cx_key = k,
                          cx_iv = n, cx_aad = [], cx_in = [], cx_tag = None\<rparr>\<rparr>)) } }"

definition cipher_init_encrypt :: "evp \<Rightarrow> bool \<Rightarrow> iked_cipher \<Rightarrow> iked_cipher option option" where
  "cipher_init_encrypt ev ok encr = cipher_init ev ok encr True"

definition cipher_init_decrypt :: "evp \<Rightarrow> bool \<Rightarrow> iked_cipher \<Rightarrow> iked_cipher option option" where
  "cipher_init_decrypt ev ok encr = cipher_init ev ok encr False"

definition cipher_aad :: "iked_cipher \<Rightarrow> byte list \<Rightarrow> iked_cipher option" where
  "cipher_aad encr d = do {
     ctx \<leftarrow> encr_ctx encr;
     Some (encr\<lparr>encr_ctx := Some (ctx\<lparr>cx_aad := cx_aad ctx @ d\<rparr>)\<rparr>) }"

text \<open>The output goes to a buffer of \<open>cap\<close> bytes; \<open>Inl ()\<close> is the return value \<open>-1\<close>.\<close>

definition cipher_update ::
    "evp \<Rightarrow> iked_cipher \<Rightarrow> byte list \<Rightarrow> nat \<Rightarrow> (unit + byte list \<times> nat \<times> iked_cipher) option" where
  "cipher_update ev encr d cap = do {
     ctx \<leftarrow> encr_ctx encr;
     (case EVP_CipherUpdate ev ctx d of
        None \<Rightarrow> Some (Inl ())
      | Some r \<Rightarrow> do {
          buf \<leftarrow> mem_write (replicate cap 0) 0 r;
          Some (Inr (buf, length r, encr\<lparr>encr_ctx := Some (ctx\<lparr>cx_in := cx_in ctx @ d\<rparr>)\<rparr>)) }) }"

definition cipher_final :: "evp \<Rightarrow> iked_cipher \<Rightarrow> bool option" where
  "cipher_final ev encr = do {
     ctx \<leftarrow> encr_ctx encr;
     Some (EVP_CipherFinal_ok ev ctx) }"

definition cipher_length :: "iked_cipher \<Rightarrow> nat" where
  "cipher_length encr = encr_length encr"

definition cipher_keylength :: "iked_cipher \<Rightarrow> nat" where
  "cipher_keylength encr =
     (if encr_fixedkey encr \<noteq> 0 then encr_fixedkey encr
      else case encr_key encr of None \<Rightarrow> 0 | Some k \<Rightarrow> length k)"

definition cipher_ivlength :: "iked_cipher \<Rightarrow> nat" where
  "cipher_ivlength encr = encr_ivlength encr"

definition cipher_outlength :: "iked_cipher \<Rightarrow> nat \<Rightarrow> nat" where
  "cipher_outlength encr inlen = roundup inlen (encr_length encr)"

subsection \<open>What the cryptographic library promises\<close>

fun md_length :: "evp_md \<Rightarrow> nat" where
  "md_length EVP_md5 = 16"
| "md_length EVP_sha1 = 20"
| "md_length EVP_sha256 = 32"
| "md_length EVP_sha384 = 48"
| "md_length EVP_sha512 = 64"

fun is_gcm :: "evp_cipher \<Rightarrow> bool" where
  "is_gcm EVP_aes_128_gcm = True"
| "is_gcm EVP_aes_256_gcm = True"
| "is_gcm _ = False"

fun cipher_sizes :: "evp_cipher \<Rightarrow> nat \<times> nat \<times> nat" where
  "cipher_sizes EVP_des_ede3_cbc = (8, 24, 8)"
| "cipher_sizes EVP_aes_128_cbc = (16, 16, 16)"
| "cipher_sizes EVP_aes_192_cbc = (16, 24, 16)"
| "cipher_sizes EVP_aes_256_cbc = (16, 32, 16)"
| "cipher_sizes EVP_aes_128_gcm = (1, 16, 12)"
| "cipher_sizes EVP_aes_256_gcm = (1, 32, 12)"

text \<open>
  The documented behaviour of the library: the sizes of the algorithms; an update with whole blocks
  delivers as many bytes as it is given, and in a decrypting context it inverts the encrypting one;
  the final step succeeds on whole blocks, and in a decrypting GCM context exactly when the tag is
  the one of the encrypting context.
\<close>

definition evp_sizes :: "evp \<Rightarrow> bool" where
  "evp_sizes ev \<longleftrightarrow>
     (\<forall>c. cipher_sizes c =
        (EVP_CIPHER_block_size ev c, EVP_CIPHER_key_length ev c, EVP_CIPHER_iv_length ev c)) \<and>
     (\<forall>md key d. length (HMAC_bytes ev md key d) = md_length md) \<and>
     (\<forall>ctx d r. EVP_CipherUpdate ev ctx d = Some r \<longrightarrow> length r = length d)"

definition whole_blocks :: "evp \<Rightarrow> evp_ctx \<Rightarrow> byte list \<Rightarrow> bool" where
  "whole_blocks ev ctx d \<longleftrightarrow> length d mod EVP_CIPHER_block_size ev (cx_cipher ctx) = 0"

definition evp_inverse :: "evp \<Rightarrow> bool" where
  "evp_inverse ev \<longleftrightarrow>
     (\<forall>ctx d. cx_enc ctx \<and> cx_in ctx = [] \<and> whole_blocks ev ctx d \<longrightarrow>
        (\<exists>r. EVP_CipherUpdate ev ctx d = Some r \<and>
             (\<forall>t. EVP_CipherUpdate ev (ctx\<lparr>cx_enc := False, cx_tag := t\<rparr>) r = Some d)))"

definition evp_final :: "evp \<Rightarrow> bool" where
  "evp_final ev \<longleftrightarrow>
     (\<forall>ctx. whole_blocks ev ctx (cx_in ctx) \<and> (cx_enc ctx \<or> \<not> is_gcm (cx_cipher ctx)) \<longrightarrow>
        EVP_CipherFinal_ok ev ctx) \<and>
     (\<forall>ctx n. is_gcm (cx_cipher ctx) \<and> cx_enc ctx \<and> n \<le> 16 \<longrightarrow>
        (\<exists>t. EVP_gcm_tag ev ctx n = Some t \<and> length t = n)) \<and>
     (\<forall>ctx d r t. is_gcm (cx_cipher ctx) \<and> cx_enc ctx \<and> cx_in ctx = [] \<and>
        EVP_CipherUpdate ev ctx d = Some r \<longrightarrow>
        EVP_CipherFinal_ok ev (ctx\<lparr>cx_enc := False, cx_in := r, cx_tag := Some t\<rparr>) =
          (EVP_gcm_tag ev (ctx\<lparr>cx_in := d\<rparr>) (length t) = Some t))"

definition evp_ok :: "evp \<Rightarrow> bool" where
  "evp_ok ev \<longleftrightarrow> evp_sizes ev \<and> evp_inverse ev \<and> evp_final ev"

subsection \<open>Well-formed objects\<close>

definition hash_wf :: "iked_hash \<Rightarrow> bool" where
  "hash_wf h \<longleftrightarrow>
     (if hash_isaead h then hash_trunc h = 0 \<and> hash_length_of h \<in> {12, 16}
      else \<exists>md. hash_priv h = Some md \<and> hash_length_of h = md_length md \<and> hash_trunc h \<le> md_length md)"

definition cipher_wf :: "evp \<Rightarrow> iked_cipher \<Rightarrow> bool" where
  "cipher_wf ev e \<longleftrightarrow>
     encr_length e = EVP_CIPHER_block_size ev (encr_priv e) \<and>
     encr_fixedkey e = EVP_CIPHER_key_length ev (encr_priv e) + encr_saltlength e \<and>
     (if is_gcm (encr_priv e)
      then encr_ivlength e = 8 \<and> encr_saltlength e = 4 \<and> (encr_id e = 20 \<or> encr_id e = 19)
      else encr_ivlength e = EVP_CIPHER_iv_length ev (encr_priv e) \<and> encr_saltlength e = 0 \<and>
           encr_id e \<noteq> 20 \<and> encr_id e \<noteq> 19)"

lemma hash_new_wf: "hash_new ok type hid = Some h \<Longrightarrow> hash_wf h"
  by (auto simp: hash_new_def hash_alg_def hash_wf_def split: if_splits option.splits)

lemma evp_block_pos: "evp_sizes ev \<Longrightarrow> 0 < EVP_CIPHER_block_size ev c \<and> EVP_CIPHER_block_size ev c \<le> 16"
  by (cases c) (auto simp: evp_sizes_def dest!: spec[of _ c])

lemma evp_iv_pos: "evp_sizes ev \<Longrightarrow> 0 < EVP_CIPHER_iv_length ev c \<and> EVP_CIPHER_iv_length ev c \<le> 16"
  by (cases c) (auto simp: evp_sizes_def dest!: spec[of _ c])

lemma evp_gcm_sizes: "evp_sizes ev \<Longrightarrow> is_gcm c \<Longrightarrow>
    EVP_CIPHER_block_size ev c = 1 \<and> EVP_CIPHER_iv_length ev c = 12"
  by (cases c) (auto simp: evp_sizes_def dest!: spec[of _ c])

lemma cipher_new_wf:
  assumes "evp_sizes ev" "cipher_new ev ok type cid len = Some e"
  shows "cipher_wf ev e"
proof -
  obtain c where c: "cipher_alg type cid len = Some c"
    using assms(2) by (auto simp: cipher_new_def split: option.splits)
  have g: "is_gcm c \<longleftrightarrow> cid = 20 \<or> cid = 19"
    using c by (auto simp: cipher_alg_def split: if_splits)
  show ?thesis
    using assms(2) c g evp_iv_pos[OF assms(1), of c]
    by (auto simp: cipher_new_def cipher_wf_def Let_def split: if_splits)
qed

lemma hash_length_bounds:
  assumes "hash_wf h"
  shows "hash_length h \<le> hash_keylength h \<and> hash_keylength h \<le> 64"
proof -
  have "md_length md \<le> 64" for md by (cases md) auto
  then show ?thesis
    using assms by (auto simp: hash_wf_def hash_length_def hash_keylength_def split: if_splits)
qed

lemma cipher_ivlength_bounds: "evp_sizes ev \<Longrightarrow> cipher_wf ev e \<Longrightarrow> cipher_ivlength e \<le> 16"
  using evp_iv_pos[of ev "encr_priv e"] by (auto simp: cipher_wf_def cipher_ivlength_def split: if_splits)

lemma cipher_length_pos: "evp_sizes ev \<Longrightarrow> cipher_wf ev e \<Longrightarrow> 0 < cipher_length e \<and> cipher_length e \<le> 16"
  using evp_block_pos[of ev "encr_priv e"] by (auto simp: cipher_wf_def cipher_length_def)

lemma buf_new_eq: "buf_new ok d = (if IKED_MSGBUF_MAX < length d \<or> \<not> ok then None else Some d)"
proof (cases "length d < SIZE_MOD")
  case True
  show ?thesis
    using ibuf_new_spec[OF True, of "Some d" ok] by (auto simp: buf_new_def ibuf_bytes_def)
next
  case False
  then show ?thesis
    by (simp add: buf_new_def ibuf_new_def ibuf_dynamic_def)
qed

lemma roundup_split:
  assumes "0 < y"
  obtains r where "x + (y - 1) = roundup x y + r" "r < y"
proof
  show "x + (y - 1) = roundup x y + (x + (y - 1)) mod y"
    unfolding roundup_def by (rule div_mult_mod_eq[symmetric])
  show "(x + (y - 1)) mod y < y"
    using assms by simp
qed

lemma roundup_ge: "0 < y \<Longrightarrow> x \<le> roundup x y"
  by (rule roundup_split[of y x]) auto

lemma roundup_less: "0 < y \<Longrightarrow> roundup x y < x + y"
  by (rule roundup_split[of y x]) auto

lemma roundup_mod [simp]: "roundup x y mod y = 0"
  by (simp add: roundup_def)

lemma roundup_id:
  assumes "0 < y" "x mod y = 0"
  shows "roundup x y = x"
proof -
  obtain k where k: "x = y * k"
    using assms(2) by auto
  obtain m where m: "roundup x y = y * m"
    by (metis roundup_def mult.commute)
  have "y * k \<le> y * m" "y * m < y * (k + 1)"
    using roundup_ge[OF assms(1), of x] roundup_less[OF assms(1), of x] k m by auto
  then have "m = k"
    using assms(1) by (simp only: nat_mult_le_cancel_disj nat_mult_less_cancel_disj) auto
  then show ?thesis
    using k m by simp
qed

subsection \<open>Initialised contexts\<close>

definition cipher_nonce :: "evp \<Rightarrow> iked_cipher \<Rightarrow> byte list \<Rightarrow> byte list \<Rightarrow> byte list" where
  "cipher_nonce ev e key iv =
     take (EVP_CIPHER_iv_length ev (encr_priv e)) (drop (length key - encr_saltlength e) key @ iv)"

definition crypt_ctx :: "evp \<Rightarrow> iked_cipher \<Rightarrow> byte list \<Rightarrow> byte list \<Rightarrow> bool \<Rightarrow> evp_ctx" where
  "crypt_ctx ev e key iv enc =
     \<lparr>cx_cipher = encr_priv e, cx_enc = enc, cx_key = take (EVP_CIPHER_key_length ev (encr_priv e)) key,
      cx_iv = cipher_nonce ev e key iv, cx_aad = [], cx_in = [], cx_tag = None\<rparr>"

lemma cipher_init_ok:
  assumes "evp_sizes ev" "cipher_wf ev e" "encr_key e = Some key" "encr_fixedkey e \<le> length key"
    "encr_iv e = Some iv" "length iv = encr_ivlength e"
  shows "cipher_init ev True e enc = Some (Some (e\<lparr>encr_ctx := Some (crypt_ctx ev e key iv enc)\<rparr>))"
proof -
  have "EVP_CIPHER_iv_length ev (encr_priv e) \<le> encr_saltlength e + length iv"
    using assms(1,2,6) evp_gcm_sizes[of ev "encr_priv e"] by (auto simp: cipher_wf_def split: if_splits)
  moreover have "EVP_CIPHER_key_length ev (encr_priv e) + encr_saltlength e \<le> length key"
    using assms(2,4) by (simp add: cipher_wf_def)
  ultimately show ?thesis
    using assms(3,5)
    by (simp add: cipher_init_def Let_def mem_read_def crypt_ctx_def cipher_nonce_def)
qed

text \<open>An encrypting context and the decrypting context with the same key and nonce.\<close>

lemma evp_encrypt:
  assumes "evp_ok ev" "cx_enc ctx" "cx_in ctx = []" "whole_blocks ev ctx d"
  obtains r where "EVP_CipherUpdate ev ctx d = Some r" "length r = length d"
    "\<And>t. EVP_CipherUpdate ev (ctx\<lparr>cx_enc := False, cx_tag := t\<rparr>) r = Some d"
    "EVP_CipherFinal_ok ev (ctx\<lparr>cx_in := d\<rparr>)"
proof -
  obtain r where r: "EVP_CipherUpdate ev ctx d = Some r"
      "\<And>t. EVP_CipherUpdate ev (ctx\<lparr>cx_enc := False, cx_tag := t\<rparr>) r = Some d"
    using assms unfolding evp_ok_def evp_inverse_def by blast
  have "length r = length d"
    using assms(1) r(1) by (auto simp: evp_ok_def evp_sizes_def)
  moreover have "EVP_CipherFinal_ok ev (ctx\<lparr>cx_in := d\<rparr>)"
    using assms by (auto simp: evp_ok_def evp_final_def whole_blocks_def)
  ultimately show ?thesis
    using r that by blast
qed

lemma evp_decrypt_final:
  assumes "evp_ok ev" "cx_enc ctx" "cx_in ctx = []" "EVP_CipherUpdate ev ctx d = Some r"
    "whole_blocks ev ctx d"
    "is_gcm (cx_cipher ctx) \<Longrightarrow> \<exists>t. tag = Some t \<and> EVP_gcm_tag ev (ctx\<lparr>cx_in := d\<rparr>) (length t) = Some t"
  shows "EVP_CipherFinal_ok ev (ctx\<lparr>cx_enc := False, cx_in := r, cx_tag := tag\<rparr>)"
proof (cases "is_gcm (cx_cipher ctx)")
  case True
  then show ?thesis
    using assms(1-4) assms(6)[OF True] by (auto simp: evp_ok_def evp_final_def)
next
  case False
  have "length r = length d"
    using assms(1,4) by (auto simp: evp_ok_def evp_sizes_def)
  then have "whole_blocks ev (ctx\<lparr>cx_enc := False, cx_in := r, cx_tag := tag\<rparr>) r"
    using assms(5) by (simp add: whole_blocks_def)
  then show ?thesis
    using assms(1) False by (simp add: evp_ok_def evp_final_def)
qed

end
