(* ===== verification/Sa.thy ===== *)
theory Sa
  imports Policy Crypto
begin

section \<open>IKE SAs, their tables and their states: iked/policy.c, iked/config.c\<close>

text \<open>
  SAs and policies are shared objects, so they live in two stores that map addresses (numbers) to
  structures; a freed object is \<open>None\<close> there.  Using a freed object, \<^verbatim>\<open>fatalx\<close> and a null pointer are
  the outer \<open>None\<close> of an operation.  The record of an SA keeps the fields of its identity, state and
  links, the ciphers and keys that protect its messages, the fragments of the message being
  received, the message counters, and the queues of its unanswered requests and of its responses;
  the timers of the SA and its Child SAs are not part of it, and the functions that release them leave
  this state unchanged.
\<close>

record iked_id =
  id_type :: byte
  id_offset :: byte
  id_buf :: "byte list option"

record iked_frag_entry =
  frag_data :: "byte list option"
  frag_size :: nat

record iked_frag =
  frag_arr :: "iked_frag_entry option list option"
  frag_count :: nat
  frag_total :: nat
  frag_total_size :: nat
  frag_nextpayload :: byte

definition no_frags :: iked_frag where
  "no_frags = \<lparr>frag_arr = None, frag_count = 0, frag_total = 0, frag_total_size = 0,
               frag_nextpayload = 0\<rparr>"

text \<open>
  A message kept for retransmission: the fields that \<^verbatim>\<open>ikev2_msg_copy\<close> sets in the copy.  An entry of a
  queue holds the fragments of one message; \<open>mrt_timer\<close> is the timeout the timer was last set to.
\<close>

record iked_outmsg =
  om_data :: "byte list"
  om_natt :: bool
  om_msgid :: u32
  om_exchange :: byte
  om_response :: bool
  om_peer :: sockaddr
  om_local :: sockaddr

record iked_msg_retransmit =
  mrt_frags :: "iked_outmsg list"
  mrt_timer :: nat
  mrt_tries :: nat

record iked_sa =
  sh_ispi :: u64
  sh_rspi :: u64
  sh_initiator :: bool
  sa_state_of :: nat
  sa_stateflags_of :: u32
  sa_stateinit :: u32
  sa_statevalid :: u32
  sa_policy :: "nat option"
  sa_iid :: iked_id
  sa_rid :: iked_id
  sa_nexti :: "nat option"
  sa_previ :: "nat option"
  sa_nextr :: "nat option"
  sa_prevr :: "nat option"
  sa_dstid_entry_valid :: bool
  sa_mobike :: bool
  sa_sigsha2 :: bool
  sa_frag :: bool
  sa_eapid :: "byte list option"
  sa_inonce :: "byte list option"
  sa_rnonce :: "byte list option"
  sa_dhgroup :: "nat option"
  sa_dhpeer :: "byte list option"
  sa_prf :: "iked_hash option"
  sa_encr :: "iked_cipher option"
  sa_integr :: "iked_hash option"
  sa_key_d :: "byte list option"
  sa_key_iencr :: "byte list option"
  sa_key_rencr :: "byte list option"
  sa_key_iauth :: "byte list option"
  sa_key_rauth :: "byte list option"
  sa_key_iprf :: "byte list option"
  sa_key_rprf :: "byte list option"
  sa_1stmsg :: "byte list option"
  sa_2ndmsg :: "byte list option"
  sa_fragments :: iked_frag
  sa_peer :: iked_addr
  sa_local :: iked_addr
  sa_natt :: bool
  sa_msgid :: u32
  sa_msgid_set :: bool
  sa_msgid_current :: u32
  sa_reqid :: u32
  sa_requests :: "iked_msg_retransmit list"
  sa_responses :: "iked_msg_retransmit list"

record iked =
  pol_heap :: "nat \<Rightarrow> iked_policy option"
  sa_heap :: "nat \<Rightarrow> iked_sa option"
  sc_policies :: "nat list"
  sc_sas :: "nat rbt"
  sc_dstid_sas :: "nat rbt"
  sc_defaultcon :: "nat option"
  ikes_sa_created :: u64
  ikes_sa_established_total :: u64
  ikes_sa_established_current :: u64
  ikes_sa_established_failures :: u64
  ikes_sa_removed :: u64

abbreviation (input) IKEV2_STATE_INIT :: nat where "IKEV2_STATE_INIT \<equiv> 0"

abbreviation (input) IKEV2_STATE_SA_INIT :: nat where "IKEV2_STATE_SA_INIT \<equiv> 2"

abbreviation (input) IKEV2_STATE_VALID :: nat where "IKEV2_STATE_VALID \<equiv> 7"

abbreviation (input) IKEV2_STATE_EAP_VALID :: nat where "IKEV2_STATE_EAP_VALID \<equiv> 8"

abbreviation (input) IKEV2_STATE_ESTABLISHED :: nat where "IKEV2_STATE_ESTABLISHED \<equiv> 9"

abbreviation (input) IKEV2_STATE_CLOSING :: nat where "IKEV2_STATE_CLOSING \<equiv> 10"

abbreviation (input) IKEV2_STATE_CLOSED :: nat where "IKEV2_STATE_CLOSED \<equiv> 11"

abbreviation (input) IKED_POLICY_DEFAULT :: u32 where "IKED_POLICY_DEFAULT \<equiv> 1"

abbreviation (input) IKED_REQ_CERT :: u32 where "IKED_REQ_CERT \<equiv> 1"

abbreviation (input) IKED_REQ_CERTVALID :: u32 where "IKED_REQ_CERTVALID \<equiv> 2"

abbreviation (input) IKED_REQ_AUTH :: u32 where "IKED_REQ_AUTH \<equiv> 8"

abbreviation (input) IKED_REQ_AUTHVALID :: u32 where "IKED_REQ_AUTHVALID \<equiv> 16"

abbreviation (input) IKED_REQ_SA :: u32 where "IKED_REQ_SA \<equiv> 32"

abbreviation (input) IKED_REQ_CHILDSA :: u32 where "IKED_REQ_CHILDSA \<equiv> 128"

abbreviation (input) IKED_REQ_INF :: u32 where "IKED_REQ_INF \<equiv> 256"

abbreviation (input) IKED_REQ_EAPVALID :: u32 where "IKED_REQ_EAPVALID \<equiv> 64"

abbreviation (input) IKEV2_AUTH_SHARED_KEY_MIC :: byte where "IKEV2_AUTH_SHARED_KEY_MIC \<equiv> 2"

definition put_sa :: "nat \<Rightarrow> iked_sa \<Rightarrow> iked \<Rightarrow> iked" where
  "put_sa s sa env = env\<lparr>sa_heap := (sa_heap env)(s := Some sa)\<rparr>"

definition put_pol :: "nat \<Rightarrow> iked_policy \<Rightarrow> iked \<Rightarrow> iked" where
  "put_pol p pol env = env\<lparr>pol_heap := (pol_heap env)(p := Some pol)\<rparr>"

subsection \<open>States\<close>

definition sa_stateok :: "iked_sa \<Rightarrow> nat \<Rightarrow> bool" where
  "sa_stateok sa state =
     (if sa_state_of sa < state then False
      else
        (let require = (if state = IKEV2_STATE_SA_INIT then sa_stateinit sa else sa_statevalid sa) in
         if state = IKEV2_STATE_SA_INIT \<or> state = IKEV2_STATE_VALID \<or> state = IKEV2_STATE_EAP_VALID
         then sa_stateflags_of sa AND require = require else True))"

definition sa_stateflags :: "iked_sa \<Rightarrow> u32 \<Rightarrow> iked_sa" where
  "sa_stateflags sa flags = sa\<lparr>sa_stateflags_of := sa_stateflags_of sa OR flags\<rparr>"

definition sa_state_stats :: "nat \<Rightarrow> nat \<Rightarrow> iked \<Rightarrow> iked" where
  "sa_state_stats ostate state env =
     (if ostate = state then env
      else if state = IKEV2_STATE_ESTABLISHED
      then env\<lparr>ikes_sa_established_total := ikes_sa_established_total env + 1,
               ikes_sa_established_current := ikes_sa_established_current env + 1\<rparr>
      else if state = IKEV2_STATE_CLOSED \<or> state = IKEV2_STATE_CLOSING
      then (if ostate = IKEV2_STATE_ESTABLISHED
            then env\<lparr>ikes_sa_established_current := ikes_sa_established_current env - 1\<rparr>
            else if ostate = IKEV2_STATE_CLOSED \<or> ostate = IKEV2_STATE_CLOSING then env
            else env\<lparr>ikes_sa_established_failures := ikes_sa_established_failures env + 1\<rparr>)
      else env)"

text \<open>The new state is stored before \<^verbatim>\<open>sa_stateok\<close> looks at the SA.\<close>

definition sa_state :: "iked \<Rightarrow> nat \<Rightarrow> nat \<Rightarrow> iked option" where
  "sa_state env s state = do {
     sa \<leftarrow> sa_heap env s;
     let ostate = sa_state_of sa;
     let nsa = sa\<lparr>sa_state_of := state\<rparr>;
     let nsa = (if ostate \<noteq> IKEV2_STATE_INIT \<and> \<not> sa_stateok nsa state then nsa\<lparr>sa_state_of := ostate\<rparr> else nsa);
     Some (sa_state_stats ostate (sa_state_of nsa) (put_sa s nsa env)) }"

subsection \<open>Policy references\<close>

definition policy_ref :: "iked \<Rightarrow> nat \<Rightarrow> iked option" where
  "policy_ref env p = do {
     pol \<leftarrow> pol_heap env p;
     Some (if has_flag pol IKED_POLICY_REFCNT then put_pol p (pol\<lparr>pol_refcnt := pol_refcnt pol + 1\<rparr>) env else env) }"

text \<open>The loop over \<^verbatim>\<open>pol_sapeers\<close>: one reference per SA that points back to the policy.\<close>

fun ref_peers :: "iked \<Rightarrow> nat \<Rightarrow> nat list \<Rightarrow> iked option" where
  "ref_peers env p [] = Some env"
| "ref_peers env p (s # ss) = do {
     sa \<leftarrow> sa_heap env s;
     env \<leftarrow> (if sa_policy sa = Some p then policy_ref env p else Some env);
     ref_peers env p ss }"

definition free_pol :: "iked \<Rightarrow> nat \<Rightarrow> iked" where
  "free_pol env p = env\<lparr>pol_heap := (pol_heap env)(p := None)\<rparr>"

definition config_free_policy :: "iked \<Rightarrow> nat \<Rightarrow> iked option" where
  "config_free_policy env p = do {
     pol \<leftarrow> pol_heap env p;
     if has_flag pol IKED_POLICY_REFCNT then Some (free_pol env p)
     else do {
       let env = put_pol p (pol\<lparr>pol_flags := pol_flags pol OR IKED_POLICY_REFCNT\<rparr>) env;
       let env = env\<lparr>sc_policies := remove1 p (sc_policies env)\<rparr>;
       env \<leftarrow> ref_peers env p (pol_sapeers pol);
       pol \<leftarrow> pol_heap env p;
       Some (if pol_refcnt pol \<noteq> 0 then env else free_pol env p) } }"

definition policy_unref :: "iked \<Rightarrow> nat \<Rightarrow> iked option" where
  "policy_unref env p = do {
     pol \<leftarrow> pol_heap env p;
     if \<not> has_flag pol IKED_POLICY_REFCNT then Some env
     else do {
       let env = put_pol p (pol\<lparr>pol_refcnt := pol_refcnt pol - 1\<rparr>) env;
       if pol_refcnt pol - 1 \<le> 0 then config_free_policy env p else Some env } }"

subsection \<open>The SA tables\<close>

definition sa_cmp :: "iked_sa \<Rightarrow> iked_sa \<Rightarrow> int" where
  "sa_cmp a b =
     (if sh_initiator a \<and> \<not> sh_initiator b then - 1
      else if \<not> sh_initiator a \<and> sh_initiator b then 1
      else if sh_ispi b < sh_ispi a then - 1
      else if sh_ispi a < sh_ispi b then 1
      else 0)"

text \<open>The comparison of two entries of a table; every entry must be an SA that is not freed.\<close>

definition sas_cmp :: "iked \<Rightarrow> nat \<Rightarrow> nat \<Rightarrow> int" where
  "sas_cmp env a b = sa_cmp (the (sa_heap env a)) (the (sa_heap env b))"

definition live_tree :: "iked \<Rightarrow> nat rbt \<Rightarrow> bool" where
  "live_tree env t = (\<forall>s\<in>set (inorder t). sa_heap env s \<noteq> None)"

text \<open>The key of a lookup is a structure on the stack, which stands for the element searched for.\<close>

definition find_sa :: "iked \<Rightarrow> iked_sa \<Rightarrow> nat option option" where
  "find_sa env key =
     (if live_tree env (sc_sas env)
      then Some (RB_FIND (\<lambda>_ s. sa_cmp key (the (sa_heap env s))) (sc_sas env) 0) else None)"

definition no_id :: iked_id where
  "no_id = \<lparr>id_type = 0, id_offset = 0, id_buf = None\<rparr>"

definition no_addr :: iked_addr where
  "no_addr = \<lparr>addr_af = 0, addr = Unspec, addr_mask = 0, addr_net = False, addr_port = 0\<rparr>"

definition new_sa :: iked_sa where
  "new_sa = \<lparr>sh_ispi = 0, sh_rspi = 0, sh_initiator = False, sa_state_of = 0, sa_stateflags_of = 0,
     sa_stateinit = 0, sa_statevalid = 0, sa_policy = None, sa_iid = no_id, sa_rid = no_id,
     sa_nexti = None, sa_previ = None, sa_nextr = None, sa_prevr = None, sa_dstid_entry_valid = False,
     sa_mobike = False, sa_sigsha2 = False, sa_frag = False, sa_eapid = None, sa_inonce = None,
     sa_rnonce = None, sa_dhgroup = None, sa_dhpeer = None, sa_prf = None, sa_encr = None,
     sa_integr = None, sa_key_d = None, sa_key_iencr = None, sa_key_rencr = None, sa_key_iauth = None,
     sa_key_rauth = None, sa_key_iprf = None, sa_key_rprf = None, sa_1stmsg = None, sa_2ndmsg = None,
     sa_fragments = no_frags, sa_peer = no_addr, sa_local = no_addr, sa_natt = False,
     sa_msgid = 0, sa_msgid_set = False, sa_msgid_current = 0, sa_reqid = 0, sa_requests = [], sa_responses = []\<rparr>"

definition sa_lookup :: "iked \<Rightarrow> u64 \<Rightarrow> u64 \<Rightarrow> bool \<Rightarrow> nat option option" where
  "sa_lookup env ispi rspi initiator = do {
     r \<leftarrow> find_sa env (new_sa\<lparr>sh_ispi := ispi, sh_initiator := initiator\<rparr>);
     (case r of
        None \<Rightarrow> Some None
      | Some s \<Rightarrow> do {
          sa \<leftarrow> sa_heap env s;
          Some (if sh_rspi sa \<noteq> 0 \<and> rspi \<noteq> 0 \<and> sh_rspi sa \<noteq> rspi then None else Some s) }) }"

definition IKESA_DSTID :: "iked_sa \<Rightarrow> iked_id" where
  "IKESA_DSTID sa = (if sh_initiator sa then sa_rid sa else sa_iid sa)"

definition sa_dstid_checked :: "iked_sa \<Rightarrow> iked_id option" where
  "sa_dstid_checked sa =
     (case id_buf (IKESA_DSTID sa) of
        None \<Rightarrow> None
      | Some buf \<Rightarrow> if length buf \<le> unat (id_offset (IKESA_DSTID sa)) then None else Some (IKESA_DSTID sa))"

fun memcmp :: "byte list \<Rightarrow> byte list \<Rightarrow> int" where
  "memcmp (x # xs) (y # ys) = (if x = y then memcmp xs ys else int (unat x) - int (unat y))"
| "memcmp _ _ = 0"

text \<open>\<open>None\<close> is \<^verbatim>\<open>fatalx\<close>.\<close>

definition sa_dstid_cmp :: "iked_sa \<Rightarrow> iked_sa \<Rightarrow> int option" where
  "sa_dstid_cmp a b = do {
     aid \<leftarrow> sa_dstid_checked a;
     bid \<leftarrow> sa_dstid_checked b;
     if id_type bid < id_type aid then Some (- 1)
     else if id_type aid < id_type bid then Some 1
     else do {
       abuf \<leftarrow> id_buf aid;
       bbuf \<leftarrow> id_buf bid;
       let aptr = drop (unat (id_offset aid)) abuf;
       let bptr = drop (unat (id_offset bid)) bbuf;
       if length bptr < length aptr then Some (- 1)
       else if length aptr < length bptr then Some 1
       else Some (memcmp aptr bptr) } }"

definition dstid_cmp :: "iked \<Rightarrow> nat \<Rightarrow> nat \<Rightarrow> int" where
  "dstid_cmp env a b = the (sa_dstid_cmp (the (sa_heap env a)) (the (sa_heap env b)))"

definition dstid_tree :: "iked \<Rightarrow> bool" where
  "dstid_tree env = (\<forall>s\<in>set (inorder (sc_dstid_sas env)).
     case sa_heap env s of None \<Rightarrow> False | Some sa \<Rightarrow> sa_dstid_checked sa \<noteq> None)"

definition sa_dstid_lookup :: "iked \<Rightarrow> nat \<Rightarrow> nat option option" where
  "sa_dstid_lookup env key = do {
     sa \<leftarrow> sa_heap env key;
     _ \<leftarrow> sa_dstid_checked sa;
     if \<not> dstid_tree env then None
     else
       (case RB_FIND (dstid_cmp env) (sc_dstid_sas env) key of
          None \<Rightarrow> Some None
        | Some s \<Rightarrow> do {
            sa \<leftarrow> sa_heap env s;
            if \<not> sa_dstid_entry_valid sa then None else Some (Some s) }) }"

text \<open>The SA that already has the identity, or \<open>None\<close> for \<open>NULL\<close>, and the new state.\<close>

definition sa_dstid_insert :: "iked \<Rightarrow> nat \<Rightarrow> (nat option \<times> iked) option" where
  "sa_dstid_insert env s = do {
     sa \<leftarrow> sa_heap env s;
     if sa_dstid_entry_valid sa then None
     else do {
       _ \<leftarrow> sa_dstid_checked sa;
       if \<not> dstid_tree env then None
       else
         (case RB_FIND (dstid_cmp env) (sc_dstid_sas env) s of
            None \<Rightarrow> do {
              (old, t) \<leftarrow> RB_INSERT (dstid_cmp env) (sc_dstid_sas env) s;
              if old \<noteq> None \<and> old \<noteq> Some s then Some (old, env\<lparr>sc_dstid_sas := t\<rparr>)
              else Some (None, put_sa s (sa\<lparr>sa_dstid_entry_valid := True\<rparr>) (env\<lparr>sc_dstid_sas := t\<rparr>)) }
          | Some osa \<Rightarrow> do {
              oa \<leftarrow> sa_heap env osa;
              if \<not> sa_dstid_entry_valid oa then None else Some (Some osa, env) }) } }"

definition sa_dstid_remove :: "iked \<Rightarrow> nat \<Rightarrow> iked option" where
  "sa_dstid_remove env s = do {
     sa \<leftarrow> sa_heap env s;
     if \<not> sa_dstid_entry_valid sa then None
     else do {
       _ \<leftarrow> sa_dstid_checked sa;
       t \<leftarrow> RB_REMOVE (sc_dstid_sas env) s;
       Some (put_sa s (sa\<lparr>sa_dstid_entry_valid := False\<rparr>) (env\<lparr>sc_dstid_sas := t\<rparr>)) } }"

subsection \<open>Creating and freeing SAs\<close>

text \<open>The SPI is the first random number that is not zero.\<close>

fun config_getspi :: "u64 list \<Rightarrow> u64 option" where
  "config_getspi [] = None"
| "config_getspi (x # rnd) = (if x = 0 then config_getspi rnd else Some x)"

text \<open>\<open>s\<close> is the address that the allocation returns.\<close>

definition config_new_sa :: "u64 list \<Rightarrow> nat \<Rightarrow> iked \<Rightarrow> bool \<Rightarrow> iked option" where
  "config_new_sa rnd s env initiator = do {
     x \<leftarrow> config_getspi rnd;
     let sa = new_sa\<lparr>sh_initiator := initiator\<rparr>;
     let sa = (if initiator then sa\<lparr>sh_ispi := x\<rparr> else sa\<lparr>sh_rspi := x\<rparr>);
     Some ((put_sa s sa env)\<lparr>ikes_sa_created := ikes_sa_created env + 1\<rparr>) }"

definition config_free_sa :: "iked \<Rightarrow> nat \<Rightarrow> iked option" where
  "config_free_sa env s = do {
     sa \<leftarrow> sa_heap env s;
     env \<leftarrow> (case sa_policy sa of
              None \<Rightarrow> Some env
            | Some p \<Rightarrow> do {
                pol \<leftarrow> pol_heap env p;
                policy_unref (put_pol p (pol\<lparr>pol_sapeers := remove1 s (pol_sapeers pol)\<rparr>) env) p });
     let env = (if sa_state_of sa = IKEV2_STATE_ESTABLISHED
                then env\<lparr>ikes_sa_established_current := ikes_sa_established_current env - 1\<rparr> else env);
     let env = env\<lparr>ikes_sa_removed := ikes_sa_removed env + 1\<rparr>;
     Some (env\<lparr>sa_heap := (sa_heap env)(s := None)\<rparr>) }"

text \<open>The part of \<^verbatim>\<open>sa_free\<close> that is the same for the SA and for its two successors.\<close>

definition sa_drop :: "iked \<Rightarrow> nat \<Rightarrow> iked option" where
  "sa_drop env s = do {
     t \<leftarrow> RB_REMOVE (sc_sas env) s;
     let env = env\<lparr>sc_sas := t\<rparr>;
     sa \<leftarrow> sa_heap env s;
     env \<leftarrow> (if sa_dstid_entry_valid sa then sa_dstid_remove env s else Some env);
     config_free_sa env s }"

definition sa_free :: "iked \<Rightarrow> nat \<Rightarrow> iked option" where
  "sa_free env s = do {
     sa \<leftarrow> sa_heap env s;
     env \<leftarrow> (case sa_nexti sa of None \<Rightarrow> Some env | Some n \<Rightarrow> sa_drop env n);
     sa \<leftarrow> sa_heap env s;
     env \<leftarrow> (case sa_nextr sa of None \<Rightarrow> Some env | Some n \<Rightarrow> sa_drop env n);
     sa \<leftarrow> sa_heap env s;
     env \<leftarrow> (case sa_previ sa of
              None \<Rightarrow> Some env
            | Some oa \<Rightarrow> do {
                osa \<leftarrow> sa_heap env oa;
                Some (if sa_nexti osa = Some s then put_sa oa (osa\<lparr>sa_nexti := None\<rparr>) env else env) });
     sa \<leftarrow> sa_heap env s;
     env \<leftarrow> (case sa_prevr sa of
              None \<Rightarrow> Some env
            | Some oa \<Rightarrow> do {
                osa \<leftarrow> sa_heap env oa;
                Some (if sa_nextr osa = Some s then put_sa oa (osa\<lparr>sa_nextr := None\<rparr>) env else env) });
     sa_drop env s }"

text \<open>
  \<^verbatim>\<open>sa_new\<close>: first the lookup or the creation of the SA.  \<open>ok\<close>, \<open>rnd\<close> and \<open>new\<close> are the outcome of the
  allocation, the random numbers and the address of the new SA.
\<close>

definition sa_new_get ::
    "bool \<Rightarrow> u64 list \<Rightarrow> nat \<Rightarrow> iked \<Rightarrow> u64 \<Rightarrow> u64 \<Rightarrow> bool \<Rightarrow> (nat option \<times> iked) option" where
  "sa_new_get ok rnd new env ispi rspi initiator = do {
     found \<leftarrow> (if ispi = 0 \<and> rspi = 0 then Some None else sa_lookup env ispi rspi initiator);
     (case found of
        Some s \<Rightarrow> Some (Some s, env)
      | None \<Rightarrow>
          if \<not> initiator \<and> ispi = 0 then Some (None, env)
          else if \<not> ok then Some (None, env)
          else do {
            env \<leftarrow> config_new_sa rnd new env initiator;
            sa \<leftarrow> sa_heap env new;
            let env = (if \<not> initiator then put_sa new (sa\<lparr>sh_ispi := ispi\<rparr>) env else env);
            (if \<not> live_tree env (sc_sas env) then None
             else do {
               (old, t) \<leftarrow> RB_INSERT (sas_cmp env) (sc_sas env) new;
               let env = env\<lparr>sc_sas := t\<rparr>;
               if old \<noteq> None \<and> old \<noteq> Some new
               then do { env \<leftarrow> config_free_sa env new; Some (None, env) }
               else Some (Some new, env) }) }) }"

text \<open>Then the policy and the flags that the SA will need; the initiator needs some of them earlier.\<close>

definition sa_new_policy :: "iked \<Rightarrow> nat \<Rightarrow> nat option \<Rightarrow> (nat \<times> iked) option" where
  "sa_new_policy env s pol = do {
     sa \<leftarrow> sa_heap env s;
     (case (pol, sa_policy sa) of
        (None, None) \<Rightarrow> None
      | (Some p, None) \<Rightarrow> do {
          env \<leftarrow> policy_ref env p;
          q \<leftarrow> pol_heap env p;
          let env = put_sa s (sa\<lparr>sa_policy := Some p\<rparr>) env;
          Some (p, put_pol p (q\<lparr>pol_sapeers := pol_sapeers q @ [s]\<rparr>) env) }
      | (_, Some p) \<Rightarrow> Some (p, env)) }"

definition required_flags :: "iked_auth \<Rightarrow> bool \<Rightarrow> u32 \<times> u32 \<Rightarrow> u32 \<times> u32" where
  "required_flags auth initiator old =
     (let valid = IKED_REQ_AUTH OR IKED_REQ_AUTHVALID OR IKED_REQ_SA;
          valid = (if auth_eap auth \<noteq> 0 then valid OR IKED_REQ_CERT OR IKED_REQ_EAPVALID
                   else if auth_method auth \<noteq> IKEV2_AUTH_SHARED_KEY_MIC
                   then valid OR IKED_REQ_CERTVALID OR IKED_REQ_CERT else valid);
          diff = IKED_REQ_CERTVALID OR IKED_REQ_AUTHVALID OR IKED_REQ_SA OR IKED_REQ_EAPVALID
      in if initiator then (valid AND NOT diff, valid AND diff) else (fst old, valid))"

text \<open>\<open>p2id\<close> stands for \<^verbatim>\<open>ikev2_policy2id\<close>, which asks the system for its host name; \<open>None\<close> is its failure.\<close>

definition sa_new ::
    "(iked_static_id \<Rightarrow> iked_id option) \<Rightarrow> bool \<Rightarrow> u64 list \<Rightarrow> nat \<Rightarrow> iked \<Rightarrow> u64 \<Rightarrow> u64 \<Rightarrow> bool \<Rightarrow>
     nat option \<Rightarrow> (nat option \<times> iked) option" where
  "sa_new p2id ok rnd new env ispi rspi initiator pol = do {
     (r, env) \<leftarrow> sa_new_get ok rnd new env ispi rspi initiator;
     (case r of
        None \<Rightarrow> Some (None, env)
      | Some s \<Rightarrow> do {
          sa \<leftarrow> sa_heap env s;
          let env = (if initiator \<and> sh_rspi sa = 0 \<and> rspi \<noteq> 0 then put_sa s (sa\<lparr>sh_rspi := rspi\<rparr>) env else env);
          (p, env) \<leftarrow> sa_new_policy env s pol;
          q \<leftarrow> pol_heap env p;
          sa \<leftarrow> sa_heap env s;
          let (init, valid) = required_flags (pol_auth q) initiator (sa_stateinit sa, sa_statevalid sa);
          let sa = sa\<lparr>sa_stateinit := init, sa_statevalid := valid\<rparr>;
          (case p2id (pol_localid q) of
             None \<Rightarrow> do { env \<leftarrow> sa_free (put_sa s sa env) s; Some (None, env) }
           | Some i \<Rightarrow>
               Some (Some s, put_sa s (if initiator then sa\<lparr>sa_iid := i\<rparr> else sa\<lparr>sa_rid := i\<rparr>) env)) }) }"

subsection \<open>Rekeying\<close>

text \<open>
  The links between an SA and its replacement: \<^verbatim>\<open>ikev2_ike_sa_rekey\<close> sets \<^verbatim>\<open>sa_nexti\<close> once the request is
  sent, \<^verbatim>\<open>ikev2_resp_create_child_sa\<close> sets \<^verbatim>\<open>sa_nextr\<close> when both sides rekey at once.
\<close>

definition rekey_link_i :: "iked \<Rightarrow> nat \<Rightarrow> nat \<Rightarrow> iked option" where
  "rekey_link_i env s n = do {
     sa \<leftarrow> sa_heap env s;
     let env = put_sa s (sa\<lparr>sa_nexti := Some n\<rparr>) env;
     nsa \<leftarrow> sa_heap env n;
     Some (put_sa n (nsa\<lparr>sa_previ := Some s\<rparr>) env) }"

definition rekey_link_r :: "iked \<Rightarrow> nat \<Rightarrow> nat \<Rightarrow> iked option" where
  "rekey_link_r env s n = do {
     sa \<leftarrow> sa_heap env s;
     let env = put_sa s (sa\<lparr>sa_nextr := Some n\<rparr>) env;
     nsa \<leftarrow> sa_heap env n;
     Some (put_sa n (nsa\<lparr>sa_prevr := Some s\<rparr>) env) }"

definition rekey_unlink_i :: "iked \<Rightarrow> nat \<Rightarrow> iked option" where
  "rekey_unlink_i env s = do {
     sa \<leftarrow> sa_heap env s;
     n \<leftarrow> sa_nexti sa;
     nsa \<leftarrow> sa_heap env n;
     let env = put_sa n (nsa\<lparr>sa_previ := None\<rparr>) env;
     sa \<leftarrow> sa_heap env s;
     Some (put_sa s (sa\<lparr>sa_nexti := None\<rparr>) env) }"

definition rekey_unlink_r :: "iked \<Rightarrow> nat \<Rightarrow> iked option" where
  "rekey_unlink_r env s = do {
     sa \<leftarrow> sa_heap env s;
     n \<leftarrow> sa_nextr sa;
     nsa \<leftarrow> sa_heap env n;
     let env = put_sa n (nsa\<lparr>sa_prevr := None\<rparr>) env;
     sa \<leftarrow> sa_heap env s;
     Some (put_sa s (sa\<lparr>sa_nextr := None\<rparr>) env) }"

subsection \<open>Configuration\<close>

text \<open>The end of \<^verbatim>\<open>config_getpolicy\<close>: the policy \<open>pol\<close>, received at address \<open>p\<close>, joins the list.\<close>

definition add_policy :: "iked \<Rightarrow> nat \<Rightarrow> iked_policy \<Rightarrow> iked option" where
  "add_policy env p pol = do {
     let env = (put_pol p pol env)\<lparr>sc_policies := sc_policies env @ [p]\<rparr>;
     if has_flag pol IKED_POLICY_DEFAULT
     then do {
       env \<leftarrow> (case sc_defaultcon env of None \<Rightarrow> Some env | Some d \<Rightarrow> config_free_policy env d);
       Some (env\<lparr>sc_defaultcon := Some p\<rparr>) }
     else Some env }"

text \<open>
  \<^verbatim>\<open>ikev2_ike_sa_delete\<close>, which tries to close an SA with a message; \<open>sent\<close> tells whether it was sent.
  The result is the return value of the function and the new state.
\<close>

definition ikev2_ike_sa_delete :: "bool \<Rightarrow> iked \<Rightarrow> nat \<Rightarrow> (bool \<times> iked) option" where
  "ikev2_ike_sa_delete sent env s = do {
     sa \<leftarrow> sa_heap env s;
     if sa_state_of sa \<noteq> IKEV2_STATE_ESTABLISHED then Some (False, env)
     else if sa_stateflags_of sa AND (IKED_REQ_CHILDSA OR IKED_REQ_INF) \<noteq> 0 then Some (False, env)
     else do {
       let env = (if sent then put_sa s (sa\<lparr>sa_stateflags_of := sa_stateflags_of sa OR IKED_REQ_INF\<rparr>) env else env);
       env \<leftarrow> sa_state env s IKEV2_STATE_CLOSED;
       Some (True, env) } }"

text \<open>\<^verbatim>\<open>config_doreset\<close>: first the policies, then the SAs.  \<open>mode_all\<close> is \<^verbatim>\<open>RESET_ALL\<close>.\<close>

fun reset_policies :: "iked \<Rightarrow> nat list \<Rightarrow> iked option" where
  "reset_policies env [] = Some env"
| "reset_policies env (p # ps) = do { env \<leftarrow> config_free_policy env p; reset_policies env ps }"

partial_function (option) reset_sas :: "(iked \<Rightarrow> nat \<Rightarrow> bool) \<Rightarrow> bool \<Rightarrow> iked \<Rightarrow> iked option" where
  "reset_sas sent mode_all env =
     (case RB_MINMAX (sc_sas env) (- 1) of
        None \<Rightarrow> Some env
      | Some s \<Rightarrow> do {
          (closed, env) \<leftarrow> (if mode_all then Some (False, env) else ikev2_ike_sa_delete (sent env s) env s);
          env \<leftarrow> (if closed then Some env else sa_drop env s);
          reset_sas sent mode_all env })"

definition config_doreset :: "(iked \<Rightarrow> nat \<Rightarrow> bool) \<Rightarrow> bool \<Rightarrow> bool \<Rightarrow> bool \<Rightarrow> iked \<Rightarrow> iked option" where
  "config_doreset sent mode_all mode_policy mode_sa env = do {
     env \<leftarrow> (if mode_all \<or> mode_policy then reset_policies env (sc_policies env) else Some env);
     if mode_all \<or> mode_sa then reset_sas sent mode_all env else Some env }"

subsection \<open>The comparison functions are orders\<close>

lemma sa_cmp_order: "key_order sa_cmp UNIV"
  by unfold_locales (auto simp: sa_cmp_def split: if_splits)

lemma sas_order: "key_order (sas_cmp env) S"
  unfolding sas_cmp_def by (rule key_order_on[OF sa_cmp_order]) simp

text \<open>\<^verbatim>\<open>memcmp\<close> extended to a total order of byte strings.\<close>

fun bytes_cmp :: "byte list \<Rightarrow> byte list \<Rightarrow> int" where
  "bytes_cmp [] [] = 0"
| "bytes_cmp [] (y # ys) = - 1"
| "bytes_cmp (x # xs) [] = 1"
| "bytes_cmp (x # xs) (y # ys) = (if x = y then bytes_cmp xs ys else int (unat x) - int (unat y))"

lemma memcmp_bytes: "length xs = length ys \<Longrightarrow> memcmp xs ys = bytes_cmp xs ys"
  by (induction xs ys rule: list_induct2) auto

lemma byte_diff_le: "int (unat x) - int (unat y) \<le> 0 \<longleftrightarrow> x \<le> (y :: byte)"
  by (simp add: word_le_def)

lemma bytes_order: "key_order bytes_cmp UNIV"
proof (unfold_locales, goal_cases)
  case (1 x y)
  show ?case
    by (induction x y rule: bytes_cmp.induct) auto
next
  case (2 x y z)
  from 2(4,5) show ?case
  proof (induction x y arbitrary: z rule: bytes_cmp.induct)
    case 1
    then show ?case by (cases z) auto
  next
    case (2 y ys)
    then show ?case by (cases z) auto
  next
    case (3 x xs)
    then show ?case by simp
  next
    case (4 x xs y ys)
    then obtain w ws where z: "z = w # ws"
      by (cases z) auto
    show ?case
    proof (cases "x = y")
      case True
      then show ?thesis
        using 4 z by (auto split: if_splits)
    next
      case False
      then have "x < y"
        using 4(2) byte_diff_le[of x y] by simp
      moreover have "y \<le> w"
        using 4(3) z byte_diff_le[of y w] by (simp split: if_splits)
      ultimately have "x < w"
        by simp
      then show ?thesis
        using z byte_diff_le[of x w] by (auto simp: less_le)
    qed
  qed
qed

definition checked :: "iked_sa set" where
  "checked = {sa. sa_dstid_checked sa \<noteq> None}"

definition dst_bytes :: "iked_sa \<Rightarrow> byte list" where
  "dst_bytes sa = drop (unat (id_offset (IKESA_DSTID sa))) (the (id_buf (IKESA_DSTID sa)))"

definition dst_key_cmp :: "iked_sa \<Rightarrow> iked_sa \<Rightarrow> int" where
  "dst_key_cmp =
     cmp_then (\<lambda>a b. if id_type (IKESA_DSTID b) < id_type (IKESA_DSTID a) then - 1
                     else if id_type (IKESA_DSTID a) < id_type (IKESA_DSTID b) then 1 else 0)
      (cmp_then (\<lambda>a b. if length (dst_bytes b) < length (dst_bytes a) then - 1
                        else if length (dst_bytes a) < length (dst_bytes b) then 1 else 0)
         (\<lambda>a b. bytes_cmp (dst_bytes a) (dst_bytes b)))"

lemma dst_key_order: "key_order dst_key_cmp UNIV"
  unfolding dst_key_cmp_def
proof (intro key_order_then)
  show "key_order (\<lambda>a b. bytes_cmp (dst_bytes a) (dst_bytes b)) UNIV"
    by (rule key_order_on[OF bytes_order]) simp
qed (unfold_locales; auto split: if_splits)+

lemma sa_dstid_cmp_key:
  assumes "a \<in> checked" "b \<in> checked"
  shows "sa_dstid_cmp a b = Some (dst_key_cmp a b)"
proof -
  obtain abuf where a: "id_buf (IKESA_DSTID a) = Some abuf" "sa_dstid_checked a = Some (IKESA_DSTID a)"
    using assms(1) by (auto simp: checked_def sa_dstid_checked_def split: option.splits if_splits)
  obtain bbuf where b: "id_buf (IKESA_DSTID b) = Some bbuf" "sa_dstid_checked b = Some (IKESA_DSTID b)"
    using assms(2) by (auto simp: checked_def sa_dstid_checked_def split: option.splits if_splits)
  show ?thesis
    using a b memcmp_bytes[of "dst_bytes a" "dst_bytes b"]
    by (auto simp: sa_dstid_cmp_def dst_key_cmp_def cmp_then_def dst_bytes_def Let_def)
qed

lemma dstid_order:
  assumes "\<forall>s\<in>S. the (sa_heap env s) \<in> checked"
  shows "key_order (dstid_cmp env) S"
proof (rule key_order_cong)
  show "key_order (\<lambda>a b. dst_key_cmp (the (sa_heap env a)) (the (sa_heap env b))) S"
    by (rule key_order_on[OF dst_key_order]) simp
qed (use assms sa_dstid_cmp_key in \<open>simp add: dstid_cmp_def\<close>)

text \<open>A tree stays in order when the stored elements keep their comparison.\<close>

lemma rb_ok_cong:
  assumes "rb_ok c S t" "set (inorder t) \<subseteq> T"
    "\<And>x y. x \<in> set (inorder t) \<Longrightarrow> y \<in> set (inorder t) \<Longrightarrow> d x y = c x y"
  shows "rb_ok d T t"
proof -
  have "sorted_wrt (\<lambda>x y. d x y < 0) (inorder t)"
    using assms(1,3) by (auto simp: rb_ok_def rb_sorted_def intro: sorted_wrt_mono_rel[rotated])
  then show ?thesis
    using assms(1,2) by (simp add: rb_ok_def rb_sorted_def)
qed

end
