(* ===== verification/Sa_Inv.thy ===== *)
theory Sa_Inv
  imports Sa
begin

section \<open>The invariant of the SA tables\<close>

text \<open>
  The tables of the daemon (\<^verbatim>\<open>sc_sas\<close>, \<^verbatim>\<open>sc_dstid_sas\<close>), the references between SAs and policies, the
  links between an SA and its replacements and the statistics counters are consistent with the SAs
  and policies that are allocated; every operation of theory \<open>Sa\<close> runs without touching freed memory
  and keeps this invariant.
\<close>

unbundle bit_operations_syntax

subsection \<open>The invariant of the SA state\<close>

text \<open>The tables: every SA except those of \<open>X\<close> is in the SA table, every valid entry in the identity table.\<close>

definition tab_inv :: "nat set \<Rightarrow> iked \<Rightarrow> bool" where
  "tab_inv X env \<longleftrightarrow> rb_ok (sas_cmp env) (dom (sa_heap env)) (sc_sas env) \<and>
     set (inorder (sc_sas env)) = dom (sa_heap env) - X"

definition dst_view :: "iked_sa \<Rightarrow> iked_id \<times> bool" where
  "dst_view sa = (IKESA_DSTID sa, sa_dstid_entry_valid sa)"

definition dst_live :: "iked \<Rightarrow> nat set" where
  "dst_live env = {s. \<exists>sa. sa_heap env s = Some sa \<and> sa \<in> checked}"

definition dst_valid :: "iked \<Rightarrow> nat set" where
  "dst_valid env = {s. \<exists>sa. sa_heap env s = Some sa \<and> sa_dstid_entry_valid sa}"

definition dst_inv :: "iked \<Rightarrow> bool" where
  "dst_inv env \<longleftrightarrow> rb_ok (dstid_cmp env) (dst_live env) (sc_dstid_sas env) \<and>
     set (inorder (sc_dstid_sas env)) = dst_valid env"

text \<open>The policies: who refers to them, and how often.\<close>

definition pol_good :: "nat list \<Rightarrow> (nat \<Rightarrow> nat option) \<Rightarrow> nat \<Rightarrow> iked_policy \<Rightarrow> bool" where
  "pol_good scp P p pol \<longleftrightarrow> distinct (pol_sapeers pol) \<and> set (pol_sapeers pol) = {s. P s = Some p} \<and>
     (if has_flag pol IKED_POLICY_REFCNT
      then pol_refcnt pol = int (length (pol_sapeers pol)) \<and> pol_sapeers pol \<noteq> [] \<and> p \<notin> set scp
      else pol_refcnt pol = 0 \<and> p \<in> set scp)"

definition pol_ok :: "(nat \<Rightarrow> iked_policy option) \<Rightarrow> nat list \<Rightarrow> (nat \<Rightarrow> nat option) \<Rightarrow> bool" where
  "pol_ok pols scp P \<longleftrightarrow> (\<forall>p pol. pols p = Some pol \<longrightarrow> pol_good scp P p pol) \<and>
     (\<forall>s p. P s = Some p \<longrightarrow> pols p \<noteq> None) \<and> distinct scp \<and> set scp \<subseteq> dom pols"

definition sa_pols :: "(nat \<Rightarrow> iked_sa option) \<Rightarrow> nat \<Rightarrow> nat option" where
  "sa_pols h s = Option.bind (h s) sa_policy"

definition pol_inv :: "iked \<Rightarrow> bool" where
  "pol_inv env \<longleftrightarrow> pol_ok (pol_heap env) (sc_policies env) (sa_pols (sa_heap env))"

text \<open>The counters, as 64-bit words.\<close>

definition established :: "(nat \<Rightarrow> iked_sa option) \<Rightarrow> nat set" where
  "established h = {s. \<exists>sa. h s = Some sa \<and> sa_state_of sa = IKEV2_STATE_ESTABLISHED}"

definition stat_inv :: "iked \<Rightarrow> bool" where
  "stat_inv env \<longleftrightarrow> finite (dom (sa_heap env)) \<and>
     ikes_sa_created env = ikes_sa_removed env + of_nat (card (dom (sa_heap env))) \<and>
     ikes_sa_established_current env = of_nat (card (established (sa_heap env)))"

text \<open>
  The links between an SA and the SAs that are to replace it: they are mutual, and a replacement
  has no replacement itself.
\<close>

definition link_ok :: "(nat \<Rightarrow> iked_sa option) \<Rightarrow> bool" where
  "link_ok h \<longleftrightarrow> (\<forall>s sa. h s = Some sa \<longrightarrow>
     (\<forall>n. sa_nexti sa = Some n \<longrightarrow> (\<exists>nsa. h n = Some nsa \<and> sa_previ nsa = Some s \<and> sa_prevr nsa = None \<and>
        sa_nexti nsa = None \<and> sa_nextr nsa = None)) \<and>
     (\<forall>n. sa_nextr sa = Some n \<longrightarrow> (\<exists>nsa. h n = Some nsa \<and> sa_prevr nsa = Some s \<and> sa_previ nsa = None \<and>
        sa_nexti nsa = None \<and> sa_nextr nsa = None)) \<and>
     (\<forall>n. sa_previ sa = Some n \<longrightarrow> (\<exists>nsa. h n = Some nsa \<and> sa_nexti nsa = Some s)) \<and>
     (\<forall>n. sa_prevr sa = Some n \<longrightarrow> (\<exists>nsa. h n = Some nsa \<and> sa_nextr nsa = Some s)))"

definition tables_inv :: "iked \<Rightarrow> bool" where
  "tables_inv env \<longleftrightarrow> tab_inv {} env \<and> dst_inv env \<and> pol_inv env \<and> stat_inv env"

definition env_inv :: "iked \<Rightarrow> bool" where
  "env_inv env \<longleftrightarrow> tables_inv env \<and> link_ok (sa_heap env)"

subsubsection \<open>Updates that do not matter\<close>

lemma put_sa_heap [simp]: "sa_heap (put_sa s sa env) = (sa_heap env)(s := Some sa)"
  "sc_sas (put_sa s sa env) = sc_sas env" "sc_dstid_sas (put_sa s sa env) = sc_dstid_sas env"
  "pol_heap (put_sa s sa env) = pol_heap env" "sc_policies (put_sa s sa env) = sc_policies env"
  "ikes_sa_created (put_sa s sa env) = ikes_sa_created env"
  "ikes_sa_removed (put_sa s sa env) = ikes_sa_removed env"
  "ikes_sa_established_current (put_sa s sa env) = ikes_sa_established_current env"
  by (simp_all add: put_sa_def)

lemma put_pol_heap [simp]: "sa_heap (put_pol p pol env) = sa_heap env"
  "sc_sas (put_pol p pol env) = sc_sas env" "sc_dstid_sas (put_pol p pol env) = sc_dstid_sas env"
  "pol_heap (put_pol p pol env) = (pol_heap env)(p := Some pol)" "sc_policies (put_pol p pol env) = sc_policies env"
  by (simp_all add: put_pol_def)

text \<open>Two heaps with the same keys, identities, policies and states.\<close>

lemma tab_inv_cong:
  assumes "tab_inv X env" "sc_sas env' = sc_sas env" "dom (sa_heap env') = dom (sa_heap env)"
    "\<And>s sa sa'. sa_heap env s = Some sa \<Longrightarrow> sa_heap env' s = Some sa' \<Longrightarrow>
       sh_ispi sa' = sh_ispi sa \<and> sh_initiator sa' = sh_initiator sa"
  shows "tab_inv X env'"
proof -
  have ok: "rb_ok (sas_cmp env) (dom (sa_heap env)) (sc_sas env)" "set (inorder (sc_sas env)) = dom (sa_heap env) - X"
    using assms(1) by (simp_all add: tab_inv_def)
  have "rb_ok (sas_cmp env') (dom (sa_heap env)) (sc_sas env)"
  proof (rule rb_ok_cong[OF ok(1)])
    fix x y
    assume "x \<in> set (inorder (sc_sas env))" "y \<in> set (inorder (sc_sas env))"
    then have xy: "x \<in> dom (sa_heap env)" "y \<in> dom (sa_heap env)"
      using ok(2) by blast+
    then obtain a b where "sa_heap env x = Some a" "sa_heap env y = Some b"
      by blast
    moreover obtain a' b' where "sa_heap env' x = Some a'" "sa_heap env' y = Some b'"
      using xy assms(3) by blast
    ultimately show "sas_cmp env' x y = sas_cmp env x y"
      using assms(4)[of x a a'] assms(4)[of y b b'] by (simp add: sas_cmp_def sa_cmp_def)
  qed (simp add: ok(2))
  then show ?thesis
    using ok(2) assms(2,3) by (simp add: tab_inv_def)
qed

lemma dstid_checked_cong:
  assumes "IKESA_DSTID a' = IKESA_DSTID a"
  shows "sa_dstid_checked a' = sa_dstid_checked a" "a' \<in> checked \<longleftrightarrow> a \<in> checked"
proof -
  show 1: "sa_dstid_checked a' = sa_dstid_checked a"
    unfolding sa_dstid_checked_def assms ..
  show "a' \<in> checked \<longleftrightarrow> a \<in> checked"
    by (simp add: checked_def 1)
qed

lemma dst_view_cong:
  assumes "map_option dst_view (sa_heap env' s) = map_option dst_view (sa_heap env s)"
  shows "s \<in> dst_live env' \<longleftrightarrow> s \<in> dst_live env" "s \<in> dst_valid env' \<longleftrightarrow> s \<in> dst_valid env"
    "s \<in> dst_live env \<Longrightarrow> sa_dstid_checked (the (sa_heap env' s)) = sa_dstid_checked (the (sa_heap env s))"
  using assms dstid_checked_cong[of "the (sa_heap env' s)" "the (sa_heap env s)"]
  by (cases "sa_heap env s"; cases "sa_heap env' s"; simp add: dst_view_def dst_live_def dst_valid_def)+

lemma sa_dstid_cmp_cong:
  assumes "sa_dstid_checked a' = sa_dstid_checked a" "sa_dstid_checked b' = sa_dstid_checked b"
  shows "sa_dstid_cmp a' b' = sa_dstid_cmp a b"
  by (simp add: sa_dstid_cmp_def assms)

lemma dst_inv_cong:
  assumes "dst_inv env" "sc_dstid_sas env' = sc_dstid_sas env"
    and same: "\<And>s. map_option dst_view (sa_heap env' s) = map_option dst_view (sa_heap env s)"
  shows "dst_inv env'"
proof -
  have ok: "rb_ok (dstid_cmp env) (dst_live env) (sc_dstid_sas env)" "set (inorder (sc_dstid_sas env)) = dst_valid env"
    using assms(1) by (simp_all add: dst_inv_def)
  have sets: "dst_live env' = dst_live env" "dst_valid env' = dst_valid env"
    by (rule set_eqI, rule dst_view_cong[OF same])+
  have in_live: "set (inorder (sc_dstid_sas env)) \<subseteq> dst_live env"
    using ok(1) unfolding rb_ok_def rb_sorted_def by blast
  have "rb_ok (dstid_cmp env') (dst_live env) (sc_dstid_sas env)"
  proof (rule rb_ok_cong[OF ok(1) in_live])
    fix x y
    assume "x \<in> set (inorder (sc_dstid_sas env))" "y \<in> set (inorder (sc_dstid_sas env))"
    then have "x \<in> dst_live env" "y \<in> dst_live env"
      using in_live by blast+
    then show "dstid_cmp env' x y = dstid_cmp env x y"
      unfolding dstid_cmp_def using sa_dstid_cmp_cong[OF dst_view_cong(3)[OF same] dst_view_cong(3)[OF same]] by metis
  qed
  then show ?thesis
    using ok(2) by (simp add: dst_inv_def sets assms(2))
qed

lemma stat_inv_cong:
  assumes "stat_inv env" "ikes_sa_created env' = ikes_sa_created env" "ikes_sa_removed env' = ikes_sa_removed env"
    "ikes_sa_established_current env' = ikes_sa_established_current env"
    and same: "\<And>s. map_option sa_state_of (sa_heap env' s) = map_option sa_state_of (sa_heap env s)"
  shows "stat_inv env'"
proof -
  have "sa_heap env' s = None \<longleftrightarrow> sa_heap env s = None" for s
    using same[of s] by (cases "sa_heap env s"; cases "sa_heap env' s") simp_all
  then have dom: "dom (sa_heap env') = dom (sa_heap env)"
    by (simp add: dom_def)
  have "s \<in> established (sa_heap env') \<longleftrightarrow> s \<in> established (sa_heap env)" for s
    using same[of s] by (cases "sa_heap env s"; cases "sa_heap env' s") (simp_all add: established_def)
  then have "established (sa_heap env') = established (sa_heap env)"
    by blast
  then show ?thesis
    using assms(1-4) dom by (simp add: stat_inv_def)
qed

lemma sa_pols_upd [simp]: "sa_pols (h(s := None)) = (sa_pols h)(s := None)"
  "sa_pols (h(s := Some sa)) = (sa_pols h)(s := sa_policy sa)"
  by (auto simp: sa_pols_def)

text \<open>An SA may change freely in the fields that no table reads.\<close>

lemma put_sa_tables:
  assumes "sa_heap env s = Some sa" "sh_ispi sa' = sh_ispi sa" "sh_initiator sa' = sh_initiator sa"
  shows "tab_inv X env \<Longrightarrow> tab_inv X (put_sa s sa' env)"
    "dst_inv env \<Longrightarrow> dst_view sa' = dst_view sa \<Longrightarrow> dst_inv (put_sa s sa' env)"
    "pol_inv env \<Longrightarrow> sa_policy sa' = sa_policy sa \<Longrightarrow> pol_inv (put_sa s sa' env)"
    "stat_inv env \<Longrightarrow> sa_state_of sa' = sa_state_of sa \<Longrightarrow> stat_inv (put_sa s sa' env)"
proof -
  show "tab_inv X (put_sa s sa' env)" if "tab_inv X env"
    by (rule tab_inv_cong[OF that]) (use assms in \<open>auto split: if_splits\<close>)
  show "dst_inv (put_sa s sa' env)" if "dst_inv env" "dst_view sa' = dst_view sa"
    by (rule dst_inv_cong[OF that(1)]) (use assms that(2) in auto)
  show "stat_inv (put_sa s sa' env)" if "stat_inv env" "sa_state_of sa' = sa_state_of sa"
    by (rule stat_inv_cong[OF that(1)]) (use assms that(2) in auto)
  show "pol_inv (put_sa s sa' env)" if "pol_inv env" "sa_policy sa' = sa_policy sa"
  proof -
    have "sa_pols ((sa_heap env)(s := Some sa')) = sa_pols (sa_heap env)"
      using assms(1) that(2) by (auto simp: sa_pols_def)
    then show ?thesis
      using that(1) by (simp add: pol_inv_def)
  qed
qed

subsubsection \<open>Policy references\<close>

lemma pol_okD:
  assumes "pol_ok pols scp P" "P s = Some p"
  obtains pol where "pols p = Some pol" "pol_good scp P p pol" "s \<in> set (pol_sapeers pol)"
proof -
  obtain pol where "pols p = Some pol" "pol_good scp P p pol"
    using assms unfolding pol_ok_def by blast
  then show ?thesis
    using that assms(2) unfolding pol_good_def by blast
qed

lemma pol_good_other:
  assumes "pol_good scp P p pol" "P s \<noteq> Some p" "v \<noteq> Some p"
  shows "pol_good scp (P(s := v)) p pol"
proof -
  have "{x. (P(s := v)) x = Some p} = {x. P x = Some p}"
    using assms(2,3) by auto
  then show ?thesis
    using assms(1) by (simp add: pol_good_def)
qed

text \<open>One policy changes, together with the policy of one SA.\<close>

lemma pol_ok_upd:
  assumes ok: "pol_ok pols scp P" and "P s = Some p \<or> P s = None" "v = None \<or> v = Some p" "pols p \<noteq> None"
    and "(case q of None \<Rightarrow> p \<notin> set scp \<and> (\<forall>x. x \<noteq> s \<longrightarrow> P x \<noteq> Some p) \<and> v = None
                | Some pol \<Rightarrow> pol_good scp (P(s := v)) p pol)"
  shows "pol_ok (pols(p := q)) scp (P(s := v))"
  unfolding pol_ok_def
proof (intro conjI allI impI)
  fix x pol
  assume x: "(pols(p := q)) x = Some pol"
  show "pol_good scp (P(s := v)) x pol"
  proof (cases "x = p")
    case True
    then show ?thesis
      using x assms(5) by simp
  next
    case False
    then have "pol_good scp P x pol"
      using x ok by (simp add: pol_ok_def)
    then show ?thesis
      using False assms(2,3) by (intro pol_good_other) auto
  qed
next
  fix x y
  assume x: "(P(s := v)) x = Some y"
  show "(pols(p := q)) y \<noteq> None"
  proof (cases "y = p")
    case True
    then show ?thesis
      using x assms(3,5) by (cases q) (auto split: if_splits)
  next
    case False
    then have "P x = Some y"
      using x assms(3) by (auto split: if_splits)
    then show ?thesis
      using ok False by (simp add: pol_ok_def)
  qed
next
  show "distinct scp" "set scp \<subseteq> dom (pols(p := q))"
    using ok assms(4,5) by (auto simp: pol_ok_def split: option.splits)
qed

lemma pol_good_remove:
  assumes "pol_good scp P p pol" "P s = Some p" "has_flag pol IKED_POLICY_REFCNT \<longrightarrow> remove1 s (pol_sapeers pol) \<noteq> []"
  shows "pol_good scp (P(s := None)) p
     (pol\<lparr>pol_sapeers := remove1 s (pol_sapeers pol),
          pol_refcnt := (if has_flag pol IKED_POLICY_REFCNT then pol_refcnt pol - 1 else pol_refcnt pol)\<rparr>)"
proof -
  have "s \<in> set (pol_sapeers pol)"
    using assms(1,2) by (auto simp: pol_good_def)
  then have "length (pol_sapeers pol) = Suc (length (remove1 s (pol_sapeers pol)))"
    using length_pos_if_in_set[of s "pol_sapeers pol"] by (simp add: length_remove1)
  moreover have "{x. (P(s := None)) x = Some p} = {x. P x = Some p} - {s}"
    by auto
  ultimately show ?thesis
    using assms by (auto simp: pol_good_def)
qed

lemma policy_unref_ok:
  assumes ok: "pol_ok (pol_heap env) scp P" and "P s = Some p" "pol_heap env p = Some pol"
  shows "\<exists>pols. policy_unref (put_pol p (pol\<lparr>pol_sapeers := remove1 s (pol_sapeers pol)\<rparr>) env) p =
       Some (env\<lparr>pol_heap := pols\<rparr>) \<and> pol_ok pols scp (P(s := None))"
proof -
  let ?ss = "remove1 s (pol_sapeers pol)"
  have good: "pol_good scp P p pol"
    using ok assms(3) by (simp add: pol_ok_def)
  then have s: "s \<in> set (pol_sapeers pol)"
    using assms(2) by (auto simp: pol_good_def)
  show ?thesis
  proof (cases "has_flag pol IKED_POLICY_REFCNT")
    case False
    then have "pol_good scp (P(s := None)) p (pol\<lparr>pol_sapeers := ?ss\<rparr>)"
      using pol_good_remove[OF good assms(2)] by simp
    then have "pol_ok ((pol_heap env)(p := Some (pol\<lparr>pol_sapeers := ?ss\<rparr>))) scp (P(s := None))"
      using assms by (intro pol_ok_upd[OF ok]) auto
    then show ?thesis
      using False by (intro exI[of _ "(pol_heap env)(p := Some (pol\<lparr>pol_sapeers := ?ss\<rparr>))"]) (simp add: policy_unref_def put_pol_def)
  next
    case True
    then have cnt: "pol_refcnt pol - 1 = int (length ?ss)" "p \<notin> set scp"
      using good length_pos_if_in_set[OF s] s by (auto simp: pol_good_def length_remove1 of_nat_diff Suc_leI)
    show ?thesis
    proof (cases "?ss = []")
      case False
      then have "pol_good scp (P(s := None)) p (pol\<lparr>pol_sapeers := ?ss, pol_refcnt := pol_refcnt pol - 1\<rparr>)"
        using pol_good_remove[OF good assms(2)] True by simp
      then have "pol_ok ((pol_heap env)(p := Some (pol\<lparr>pol_sapeers := ?ss, pol_refcnt := pol_refcnt pol - 1\<rparr>))) scp (P(s := None))"
        using assms by (intro pol_ok_upd[OF ok]) auto
      moreover have "\<not> pol_refcnt pol - 1 \<le> 0"
        using False unfolding cnt(1) by simp
      ultimately show ?thesis
        using True by (intro exI[of _ "(pol_heap env)(p := Some (pol\<lparr>pol_sapeers := ?ss, pol_refcnt := pol_refcnt pol - 1\<rparr>))"])
          (simp add: policy_unref_def put_pol_def)
    next
      case Nil: True
      then have "\<forall>x. x \<noteq> s \<longrightarrow> P x \<noteq> Some p"
        using good by (auto simp: pol_good_def dest: in_set_remove1[THEN iffD2])
      then have "pol_ok ((pol_heap env)(p := None)) scp (P(s := None))"
        using assms(2,3) cnt(2) by (intro pol_ok_upd[OF ok]) auto
      moreover have "pol_refcnt pol - 1 = 0"
        using Nil cnt(1) by simp
      ultimately show ?thesis
        using True Nil by (intro exI[of _ "(pol_heap env)(p := None)"])
          (simp add: policy_unref_def put_pol_def config_free_policy_def free_pol_def)
    qed
  qed
qed

lemma rb_remove_set:
  assumes "key_order cmp S" "rb_ok cmp S t" "e \<in> set (inorder t)"
  obtains t' where "RB_REMOVE t e = Some t'" "rb_ok cmp S t'" "set (inorder t') = set (inorder t) - {e}"
proof -
  have "distinct (inorder t)"
    using key_order.rb_sorted_distinct[OF assms(1)] assms(2) by (simp add: rb_ok_def)
  then show ?thesis
    using key_order.remove_refines[OF assms] that by (auto simp: set_remove1_eq)
qed

lemma dst_live_checked: "\<forall>s\<in>dst_live env. the (sa_heap env s) \<in> checked"
  by (auto simp: dst_live_def)

lemma sa_dstid_remove_ok:
  assumes inv: "dst_inv env" and sa: "sa_heap env s = Some sa" "sa_dstid_entry_valid sa"
  shows "\<exists>t. sa_dstid_remove env s = Some (put_sa s (sa\<lparr>sa_dstid_entry_valid := False\<rparr>) (env\<lparr>sc_dstid_sas := t\<rparr>)) \<and>
     dst_inv (put_sa s (sa\<lparr>sa_dstid_entry_valid := False\<rparr>) (env\<lparr>sc_dstid_sas := t\<rparr>))"
proof -
  let ?sa = "sa\<lparr>sa_dstid_entry_valid := False\<rparr>"
  have ok: "rb_ok (dstid_cmp env) (dst_live env) (sc_dstid_sas env)" "set (inorder (sc_dstid_sas env)) = dst_valid env"
    using inv by (simp_all add: dst_inv_def)
  have mem: "s \<in> set (inorder (sc_dstid_sas env))"
    using ok(2) sa by (simp add: dst_valid_def)
  then have chk: "sa_dstid_checked sa \<noteq> None"
    using ok(1) sa(1) by (auto simp: rb_ok_def rb_sorted_def dst_live_def checked_def)
  obtain t where t: "RB_REMOVE (sc_dstid_sas env) s = Some t" "rb_ok (dstid_cmp env) (dst_live env) t"
      "set (inorder t) = dst_valid env - {s}"
    using rb_remove_set[OF dstid_order[OF dst_live_checked] ok(1) mem] ok(2) by metis
  let ?env = "put_sa s ?sa (env\<lparr>sc_dstid_sas := t\<rparr>)"
  have id: "sa_dstid_checked ?sa = sa_dstid_checked sa" "?sa \<in> checked \<longleftrightarrow> sa \<in> checked"
    by (rule dstid_checked_cong; simp add: IKESA_DSTID_def)+
  have sets: "dst_live ?env = dst_live env" "dst_valid ?env = dst_valid env - {s}"
    using sa id(2) by (auto simp: dst_live_def dst_valid_def)
  have "dstid_cmp ?env x y = dstid_cmp env x y" for x y
    using sa(1) id(1) by (auto simp: dstid_cmp_def intro!: arg_cong[where f = the] sa_dstid_cmp_cong)
  then have "dstid_cmp ?env = dstid_cmp env"
    by blast
  then have "dst_inv ?env"
    using t(2,3) unfolding dst_inv_def sets by simp
  then show ?thesis
    using sa chk t(1) by (auto simp: sa_dstid_remove_def)
qed

lemma established_upd:
  "established (h(s := None)) = established h - {s}"
  "established (h(s := Some sa)) =
     (if sa_state_of sa = IKEV2_STATE_ESTABLISHED then insert s (established h) else established h - {s})"
  by (auto simp: established_def)

lemma established_dom: "established h \<subseteq> dom h"
  by (auto simp: established_def)

lemma card_remove_word:
  assumes "finite A" "x \<in> A"
  shows "of_nat (card (A - {x})) = of_nat (card A) - (1 :: u64)"
  using assms by (simp add: card_Suc_Diff1[symmetric, of A x] del: card_Diff_insert)

lemma stat_inv_free:
  assumes "stat_inv env" "sa_heap env s = Some sa"
    and "sa_heap env' = (sa_heap env)(s := None)" "ikes_sa_created env' = ikes_sa_created env"
    "ikes_sa_removed env' = ikes_sa_removed env + 1"
    "ikes_sa_established_current env' =
       (if sa_state_of sa = IKEV2_STATE_ESTABLISHED then ikes_sa_established_current env - 1 else ikes_sa_established_current env)"
  shows "stat_inv env'"
proof -
  have fin: "finite (dom (sa_heap env))" "finite (established (sa_heap env))"
    using assms(1) established_dom finite_subset unfolding stat_inv_def by blast+
  have "s \<in> established (sa_heap env) \<longleftrightarrow> sa_state_of sa = IKEV2_STATE_ESTABLISHED"
    using assms(2) by (simp add: established_def)
  then have "ikes_sa_established_current env' = of_nat (card (established (sa_heap env) - {s}))"
    using assms(1,6) fin(2) card_remove_word[OF fin(2), of s] by (auto simp: stat_inv_def)
  moreover have "s \<in> dom (sa_heap env)"
    using assms(2) by blast
  ultimately show ?thesis
    using assms(1) fin card_remove_word[OF fin(1), of s] by (simp add: stat_inv_def assms(3-5) established_upd)
qed

text \<open>Outside of the tables, an SA can be freed.\<close>

lemma tab_inv_free:
  assumes "tab_inv X env" "X = {s}" "sc_sas env' = sc_sas env" "sa_heap env' = (sa_heap env)(s := None)"
  shows "tab_inv {} env'"
proof -
  have ok: "rb_ok (sas_cmp env) (dom (sa_heap env)) (sc_sas env)" "set (inorder (sc_sas env)) = dom (sa_heap env) - {s}"
    using assms(1,2) by (simp_all add: tab_inv_def)
  have "rb_ok (sas_cmp env') (dom (sa_heap env) - {s}) (sc_sas env)"
    by (rule rb_ok_cong[OF ok(1)]) (simp_all add: ok(2) sas_cmp_def assms(4))
  then show ?thesis
    using ok(2) assms(3,4) by (simp add: tab_inv_def)
qed

lemma dst_inv_free:
  assumes "dst_inv env" "sa_heap env s = Some sa" "\<not> sa_dstid_entry_valid sa"
    "sc_dstid_sas env' = sc_dstid_sas env" "sa_heap env' = (sa_heap env)(s := None)"
  shows "dst_inv env'"
proof -
  have ok: "rb_ok (dstid_cmp env) (dst_live env) (sc_dstid_sas env)" "set (inorder (sc_dstid_sas env)) = dst_valid env"
    using assms(1) by (simp_all add: dst_inv_def)
  have sets: "dst_valid env' = dst_valid env" "dst_live env' = dst_live env - {s}" "s \<notin> dst_valid env"
    using assms(2,3,5) by (auto simp: dst_valid_def dst_live_def)
  have "set (inorder (sc_dstid_sas env)) \<subseteq> dst_live env"
    using ok(1) unfolding rb_ok_def rb_sorted_def by blast
  then have "rb_ok (dstid_cmp env') (dst_live env - {s}) (sc_dstid_sas env)"
    using sets(3) unfolding ok(2)
    by (intro rb_ok_cong[OF ok(1)]) (auto simp: ok(2) dstid_cmp_def assms(5))
  then show ?thesis
    using ok(2) by (simp add: dst_inv_def sets assms(4))
qed

lemma config_free_sa_ok:
  assumes inv: "tab_inv {s} env" "dst_inv env" "pol_inv env" "stat_inv env"
    and sa: "sa_heap env s = Some sa" "\<not> sa_dstid_entry_valid sa"
  shows "\<exists>env'. config_free_sa env s = Some env' \<and> tables_inv env' \<and> sa_heap env' = (sa_heap env)(s := None) \<and> sc_policies env' = sc_policies env"
proof -
  let ?P = "sa_pols (sa_heap env)"
  have "\<exists>pols. (case sa_policy sa of
              None \<Rightarrow> Some env
            | Some p \<Rightarrow> do {
                pol \<leftarrow> pol_heap env p;
                policy_unref (put_pol p (pol\<lparr>pol_sapeers := remove1 s (pol_sapeers pol)\<rparr>) env) p }) =
          Some (env\<lparr>pol_heap := pols\<rparr>) \<and> pol_ok pols (sc_policies env) (?P(s := None))"
  proof (cases "sa_policy sa")
    case None
    then have "?P(s := None) = ?P"
      using sa(1) by (auto simp: sa_pols_def)
    then show ?thesis
      using None inv(3) by (intro exI[of _ "pol_heap env"]) (simp add: pol_inv_def)
  next
    case (Some p)
    have ok: "pol_ok (pol_heap env) (sc_policies env) ?P" "?P s = Some p"
      using inv(3) Some sa(1) by (simp_all add: pol_inv_def sa_pols_def)
    then obtain pol where "pol_heap env p = Some pol"
      by (rule pol_okD)
    then show ?thesis
      using policy_unref_ok[OF ok] Some by simp
  qed
  then obtain pols where p: "(case sa_policy sa of
              None \<Rightarrow> Some env
            | Some p \<Rightarrow> do {
                pol \<leftarrow> pol_heap env p;
                policy_unref (put_pol p (pol\<lparr>pol_sapeers := remove1 s (pol_sapeers pol)\<rparr>) env) p }) =
          Some (env\<lparr>pol_heap := pols\<rparr>)" "pol_ok pols (sc_policies env) (?P(s := None))"
    by blast
  define env' where "env' = (let env = env\<lparr>pol_heap := pols\<rparr>;
    env = (if sa_state_of sa = IKEV2_STATE_ESTABLISHED
           then env\<lparr>ikes_sa_established_current := ikes_sa_established_current env - 1\<rparr> else env);
    env = env\<lparr>ikes_sa_removed := ikes_sa_removed env + 1\<rparr> in env\<lparr>sa_heap := (sa_heap env)(s := None)\<rparr>)"
  have sel: "sa_heap env' = (sa_heap env)(s := None)" "sc_sas env' = sc_sas env" "sc_dstid_sas env' = sc_dstid_sas env"
    "pol_heap env' = pols" "sc_policies env' = sc_policies env"
    by (simp_all add: env'_def Let_def)
  have "stat_inv env'"
    by (rule stat_inv_free[OF inv(4) sa(1)]) (simp_all add: env'_def Let_def)
  moreover have "tab_inv {} env'" "dst_inv env'"
    using tab_inv_free[OF inv(1) refl] dst_inv_free[OF inv(2) sa] sel by simp_all
  moreover have "pol_inv env'"
    using p(2) by (simp add: pol_inv_def sel)
  moreover have "config_free_sa env s = Some env'"
    using sa(1) by (simp add: config_free_sa_def p(1) env'_def Let_def)
  ultimately show ?thesis
    using sel(1,5) by (simp add: tables_inv_def)
qed

subsubsection \<open>Freeing an SA\<close>

lemma sa_drop_ok:
  assumes inv: "tables_inv env" and sa: "sa_heap env s = Some sa"
  shows "\<exists>env'. sa_drop env s = Some env' \<and> tables_inv env' \<and> sa_heap env' = (sa_heap env)(s := None) \<and> sc_policies env' = sc_policies env"
proof -
  have ok: "rb_ok (sas_cmp env) (dom (sa_heap env)) (sc_sas env)" "set (inorder (sc_sas env)) = dom (sa_heap env)"
    using inv by (simp_all add: tables_inv_def tab_inv_def)
  have mem: "s \<in> set (inorder (sc_sas env))"
    using ok(2) sa by blast
  obtain t where t: "RB_REMOVE (sc_sas env) s = Some t" "rb_ok (sas_cmp env) (dom (sa_heap env)) t"
      "set (inorder t) = dom (sa_heap env) - {s}"
    using rb_remove_set[OF sas_order ok(1) mem] ok(2) by metis
  let ?env = "env\<lparr>sc_sas := t\<rparr>"
  have "sas_cmp ?env = sas_cmp env"
    by (intro ext) (simp add: sas_cmp_def)
  then have tab: "tab_inv {s} ?env"
    using t(2,3) by (simp add: tab_inv_def)
  have rest: "dst_inv ?env" "pol_inv ?env" "stat_inv ?env"
    using inv dst_inv_cong[of env ?env] by (simp_all add: tables_inv_def pol_inv_def stat_inv_def)
  show ?thesis
  proof (cases "sa_dstid_entry_valid sa")
    case False
    then show ?thesis
      using config_free_sa_ok[OF tab rest, of sa] sa by (simp add: sa_drop_def t(1))
  next
    case True
    let ?sa = "sa\<lparr>sa_dstid_entry_valid := False\<rparr>"
    obtain d where d: "sa_dstid_remove ?env s = Some (put_sa s ?sa (?env\<lparr>sc_dstid_sas := d\<rparr>))"
        "dst_inv (put_sa s ?sa (?env\<lparr>sc_dstid_sas := d\<rparr>))"
      using sa_dstid_remove_ok[OF rest(1), of s sa] sa True by auto
    let ?env2 = "?env\<lparr>sc_dstid_sas := d\<rparr>"
    have h: "sa_heap ?env2 s = Some sa"
      using sa by simp
    have "tab_inv {s} ?env2"
      by (rule tab_inv_cong[OF tab]) simp_all
    moreover have "pol_inv ?env2" "stat_inv ?env2"
      using rest by (simp_all add: pol_inv_def stat_inv_def)
    ultimately have tab2: "tab_inv {s} (put_sa s ?sa ?env2)" "pol_inv (put_sa s ?sa ?env2)" "stat_inv (put_sa s ?sa ?env2)"
      using put_sa_tables[OF h, of ?sa] by simp_all
    show ?thesis
      using config_free_sa_ok[OF tab2(1) d(2) tab2(2,3), of ?sa] sa True d(1) by (simp add: sa_drop_def t(1))
  qed
qed

lemma link_okD:
  assumes "link_ok h" "h s = Some sa"
  shows "sa_nexti sa = Some n \<Longrightarrow> \<exists>nsa. h n = Some nsa \<and> sa_previ nsa = Some s \<and> sa_prevr nsa = None \<and>
        sa_nexti nsa = None \<and> sa_nextr nsa = None"
    "sa_nextr sa = Some n \<Longrightarrow> \<exists>nsa. h n = Some nsa \<and> sa_prevr nsa = Some s \<and> sa_previ nsa = None \<and>
        sa_nexti nsa = None \<and> sa_nextr nsa = None"
    "sa_previ sa = Some n \<Longrightarrow> \<exists>nsa. h n = Some nsa \<and> sa_nexti nsa = Some s"
    "sa_prevr sa = Some n \<Longrightarrow> \<exists>nsa. h n = Some nsa \<and> sa_nextr nsa = Some s"
  using assms unfolding link_ok_def by blast+

definition successors :: "iked_sa \<Rightarrow> nat set" where
  "successors sa = set_option (sa_nexti sa) \<union> set_option (sa_nextr sa)"

lemma successor_facts:
  assumes ok: "link_ok h" "h s = Some sa" and n: "n \<in> successors sa"
  shows "n \<noteq> s" "\<exists>nsa. h n = Some nsa \<and> successors nsa = {}"
    "\<And>x xa. h x = Some xa \<Longrightarrow> n \<in> successors xa \<Longrightarrow> x = s"
proof -
  obtain nsa where nsa: "h n = Some nsa" "sa_nexti nsa = None" "sa_nextr nsa = None"
      "(sa_previ nsa = Some s \<and> sa_prevr nsa = None) \<or> (sa_prevr nsa = Some s \<and> sa_previ nsa = None)"
    using n link_okD(1,2)[OF ok] unfolding successors_def by (auto; blast)
  then show "\<exists>nsa. h n = Some nsa \<and> successors nsa = {}"
    by (simp add: successors_def)
  show "n \<noteq> s"
    using nsa(1-3) n ok(2) by (auto simp: successors_def)
  show "x = s" if x: "h x = Some xa" "n \<in> successors xa" for x xa
  proof -
    have "sa_previ nsa = Some x \<or> sa_prevr nsa = Some x"
      using x(2) nsa(1) link_okD(1,2)[OF ok(1) x(1), of n] unfolding successors_def by auto
    then show ?thesis
      using nsa(4) by auto
  qed
qed

lemma link_ok_restrict:
  assumes ok: "link_ok h"
    and "\<And>x xa y. h x = Some xa \<Longrightarrow> x \<notin> D \<Longrightarrow> y \<in> successors xa \<Longrightarrow> y \<notin> D"
    and "\<And>x xa y. h x = Some xa \<Longrightarrow> x \<in> D \<Longrightarrow> y \<in> successors xa \<Longrightarrow> y \<in> D"
  shows "link_ok (h |` (- D))"
  unfolding link_ok_def
proof (intro allI impI conjI, goal_cases)
  case (1 s sa n)
  then have "n \<notin> D"
    using assms(2)[of s sa n] by (auto simp: restrict_map_def successors_def split: if_splits)
  then show ?case
    using 1 link_okD(1)[OF ok, of s sa n] by (auto simp: restrict_map_def split: if_splits)
next
  case (2 s sa n)
  then have "n \<notin> D"
    using assms(2)[of s sa n] by (auto simp: restrict_map_def successors_def split: if_splits)
  then show ?case
    using 2 link_okD(2)[OF ok, of s sa n] by (auto simp: restrict_map_def split: if_splits)
next
  case (3 s sa n)
  then obtain nsa where "h n = Some nsa" "sa_nexti nsa = Some s" "s \<notin> D"
    using link_okD(3)[OF ok, of s sa n] by (auto simp: restrict_map_def split: if_splits)
  moreover have "n \<notin> D"
    using calculation assms(3)[of n nsa s] by (auto simp: successors_def)
  ultimately show ?case
    by (simp add: restrict_map_def)
next
  case (4 s sa n)
  then obtain nsa where "h n = Some nsa" "sa_nextr nsa = Some s" "s \<notin> D"
    using link_okD(4)[OF ok, of s sa n] by (auto simp: restrict_map_def split: if_splits)
  moreover have "n \<notin> D"
    using calculation assms(3)[of n nsa s] by (auto simp: successors_def)
  ultimately show ?case
    by (simp add: restrict_map_def)
qed

lemma link_unlink:
  assumes ok: "link_ok h" and s: "h s = Some sa" and p: "h p = Some osa" "sa_nexti osa = Some s"
  shows "link_ok (h(p := Some (osa\<lparr>sa_nexti := None\<rparr>), s := None))"
proof -
  have "s \<in> successors osa"
    using p(2) by (simp add: successors_def)
  note sf = successor_facts[OF ok p(1) this]
  have sa: "sa_nexti sa = None" "sa_nextr sa = None" "sa_prevr sa = None"
    using link_okD(1)[OF ok p] s by auto
  let ?h = "h(p := Some (osa\<lparr>sa_nexti := None\<rparr>), s := None)"
  show ?thesis
    unfolding link_ok_def
  proof (intro allI impI conjI, goal_cases)
    case (1 x xa y)
    then have x: "h x = Some xa" "x \<noteq> p" "x \<noteq> s"
      by (auto split: if_splits)
    then have "y \<noteq> s"
      using sf(3)[OF x(1)] 1(2) by (auto simp: successors_def)
    moreover have "y \<noteq> p"
      using link_okD(1)[OF ok x(1) 1(2)] p by auto
    ultimately show ?case
      using link_okD(1)[OF ok x(1) 1(2)] by simp
  next
    case (2 x xa y)
    then obtain xb where x: "h x = Some xb" "sa_nextr xb = Some y"
      using p(1) by (auto split: if_splits)
    note l = link_okD(2)[OF ok x]
    have "y \<noteq> s" "y \<noteq> p"
      using l s p sa(3) by auto
    then show ?case
      using l 2(1) by simp
  next
    case (3 x xa y)
    then obtain xb where x: "h x = Some xb" "sa_previ xb = Some y" "x \<noteq> s"
      using p(1) by (auto split: if_splits)
    note l = link_okD(3)[OF ok x(1,2)]
    have "y \<noteq> s" "y \<noteq> p"
      using l s p sa(1) x(3) by auto
    then show ?case
      using l by simp
  next
    case (4 x xa y)
    then obtain xb where x: "h x = Some xb" "sa_prevr xb = Some y"
      using p(1) by (auto split: if_splits)
    note l = link_okD(4)[OF ok x]
    have "y \<noteq> s"
      using l s sa(2) by auto
    then show ?case
      using l p(1) by auto
  qed
qed

text \<open>The same for \<^verbatim>\<open>sa_nextr\<close>, by exchanging the two kinds of links.\<close>

definition flip_sa :: "iked_sa \<Rightarrow> iked_sa" where
  "flip_sa sa = sa\<lparr>sa_nexti := sa_nextr sa, sa_nextr := sa_nexti sa, sa_previ := sa_prevr sa, sa_prevr := sa_previ sa\<rparr>"

lemma flip_sa_simps [simp]: "sa_nexti (flip_sa sa) = sa_nextr sa" "sa_nextr (flip_sa sa) = sa_nexti sa"
  "sa_previ (flip_sa sa) = sa_prevr sa" "sa_prevr (flip_sa sa) = sa_previ sa" "flip_sa (flip_sa sa) = sa"
  "(flip_sa sa)\<lparr>sa_nexti := n\<rparr> = flip_sa (sa\<lparr>sa_nextr := n\<rparr>)"
  by (simp_all add: flip_sa_def)

lemma flip_heap: "(map_option flip_sa \<circ> h) s = Some sa \<longleftrightarrow> h s = Some (flip_sa sa)"
  by (cases "h s") auto

lemma link_ok_flip:
  assumes "link_ok h"
  shows "link_ok (map_option flip_sa \<circ> h)"
  unfolding link_ok_def flip_heap
proof (intro allI impI conjI, goal_cases)
  case (1 s sa n)
  then obtain nsa where "h n = Some nsa" "sa_prevr nsa = Some s" "sa_previ nsa = None" "sa_nexti nsa = None" "sa_nextr nsa = None"
    using link_okD(2)[OF assms 1(1), of n] by auto
  then show ?case
    by (intro exI[of _ "flip_sa nsa"]) simp
next
  case (2 s sa n)
  then obtain nsa where "h n = Some nsa" "sa_previ nsa = Some s" "sa_prevr nsa = None" "sa_nexti nsa = None" "sa_nextr nsa = None"
    using link_okD(1)[OF assms 2(1), of n] by auto
  then show ?case
    by (intro exI[of _ "flip_sa nsa"]) simp
next
  case (3 s sa n)
  then obtain nsa where "h n = Some nsa" "sa_nextr nsa = Some s"
    using link_okD(4)[OF assms 3(1), of n] by auto
  then show ?case
    by (intro exI[of _ "flip_sa nsa"]) simp
next
  case (4 s sa n)
  then obtain nsa where "h n = Some nsa" "sa_nexti nsa = Some s"
    using link_okD(3)[OF assms 4(1), of n] by auto
  then show ?case
    by (intro exI[of _ "flip_sa nsa"]) simp
qed

lemma link_ok_flip_iff: "link_ok (map_option flip_sa \<circ> h) \<longleftrightarrow> link_ok h"
proof
  assume "link_ok (map_option flip_sa \<circ> h)"
  from link_ok_flip[OF this] show "link_ok h"
    by (simp add: comp_def option.map_comp option.map_ident)
qed (rule link_ok_flip)

lemma link_unlink_r:
  assumes "link_ok h" "h s = Some sa" "h p = Some osa" "sa_nextr osa = Some s"
  shows "link_ok (h(p := Some (osa\<lparr>sa_nextr := None\<rparr>), s := None))"
proof -
  have "link_ok ((map_option flip_sa \<circ> h)(p := Some (flip_sa osa\<lparr>sa_nexti := None\<rparr>), s := None))"
    using assms by (intro link_unlink[of _ _ "flip_sa sa"] link_ok_flip) simp_all
  also have "(map_option flip_sa \<circ> h)(p := Some (flip_sa osa\<lparr>sa_nexti := None\<rparr>), s := None) =
      map_option flip_sa \<circ> h(p := Some (osa\<lparr>sa_nextr := None\<rparr>), s := None)"
    by auto
  finally show ?thesis
    by (simp only: link_ok_flip_iff)
qed

lemma put_sa_tables_inv:
  assumes "tables_inv env" "sa_heap env s = Some sa" "sh_ispi sa' = sh_ispi sa" "sh_initiator sa' = sh_initiator sa"
    "dst_view sa' = dst_view sa" "sa_policy sa' = sa_policy sa" "sa_state_of sa' = sa_state_of sa"
  shows "tables_inv (put_sa s sa' env)"
  using put_sa_tables[OF assms(2-4)] assms(1,5-7) by (simp add: tables_inv_def)

lemma dst_view_links [simp]: "dst_view (sa\<lparr>sa_nexti := n\<rparr>) = dst_view sa" "dst_view (sa\<lparr>sa_nextr := n\<rparr>) = dst_view sa"
  by (simp_all add: dst_view_def IKESA_DSTID_def)

lemma drop_opt_ok:
  assumes "tables_inv env" "\<And>n. v = Some n \<Longrightarrow> sa_heap env n \<noteq> None"
  shows "\<exists>env'. (case v of None \<Rightarrow> Some env | Some n \<Rightarrow> sa_drop env n) = Some env' \<and> tables_inv env' \<and>
    sa_heap env' = sa_heap env |` (- set_option v)"
  using sa_drop_ok[OF assms(1)] assms by (cases v) (auto simp: restrict_complement_singleton_eq)

text \<open>The SA that is freed takes its successors along, or leaves its predecessor.\<close>

lemma sa_free_drops:
  assumes inv: "tables_inv env" and s: "sa_heap env s = Some sa" "sa_previ sa = None" "sa_prevr sa = None"
    and live: "\<And>n. n \<in> successors sa \<Longrightarrow> n \<noteq> s \<and> sa_heap env n \<noteq> None"
    and diff: "\<And>n. sa_nexti sa = Some n \<Longrightarrow> sa_nextr sa \<noteq> Some n"
  shows "\<exists>env'. sa_free env s = Some env' \<and> tables_inv env' \<and>
    sa_heap env' = sa_heap env |` (- insert s (successors sa))"
proof -
  obtain env1 where e1: "(case sa_nexti sa of None \<Rightarrow> Some env | Some n \<Rightarrow> sa_drop env n) = Some env1" "tables_inv env1"
      "sa_heap env1 = sa_heap env |` (- set_option (sa_nexti sa))"
    using drop_opt_ok[OF inv, of "sa_nexti sa"] live by (auto simp: successors_def)
  have s1: "sa_heap env1 s = Some sa"
    using s live[of s] by (auto simp: e1(3) restrict_map_def successors_def)
  have "\<And>n. sa_nextr sa = Some n \<Longrightarrow> sa_heap env1 n \<noteq> None"
    using live diff by (auto simp: e1(3) restrict_map_def successors_def)
  then obtain env2 where e2: "(case sa_nextr sa of None \<Rightarrow> Some env1 | Some n \<Rightarrow> sa_drop env1 n) = Some env2"
      "tables_inv env2" "sa_heap env2 = sa_heap env1 |` (- set_option (sa_nextr sa))"
    using drop_opt_ok[OF e1(2), of "sa_nextr sa"] by blast
  have s2: "sa_heap env2 s = Some sa"
    using s1 live[of s] by (auto simp: e2(3) restrict_map_def successors_def)
  obtain env3 where e3: "sa_drop env2 s = Some env3" "tables_inv env3" "sa_heap env3 = (sa_heap env2)(s := None)"
    using sa_drop_ok[OF e2(2) s2] by blast
  have "sa_heap env3 = sa_heap env |` (- insert s (successors sa))"
    by (auto simp: e3(3) e2(3) e1(3) restrict_map_def successors_def)
  then show ?thesis
    using s s1 s2 e3 by (simp add: sa_free_def e1(1) e2(1))
qed

lemma sa_free_first:
  assumes inv: "env_inv env" and s: "sa_heap env s = Some sa" and "sa_previ sa = None" "sa_prevr sa = None"
  shows "\<exists>env'. sa_free env s = Some env' \<and> env_inv env' \<and>
    sa_heap env' = sa_heap env |` (- insert s (successors sa))"
proof -
  have ok: "link_ok (sa_heap env)" "tables_inv env"
    using inv by (simp_all add: env_inv_def)
  note sf = successor_facts[OF ok(1) s]
  have live: "n \<noteq> s \<and> sa_heap env n \<noteq> None" if "n \<in> successors sa" for n
    using sf(1,2)[OF that] by auto
  have diff: "sa_nextr sa \<noteq> Some n" if "sa_nexti sa = Some n" for n
    using link_okD(1,2)[OF ok(1) s, of n] that by auto
  obtain env' where e: "sa_free env s = Some env'" "tables_inv env'"
      "sa_heap env' = sa_heap env |` (- insert s (successors sa))"
    using sa_free_drops[OF ok(2) s assms(3,4) live diff] by blast
  have "link_ok (sa_heap env')"
    unfolding e(3)
  proof (rule link_ok_restrict[OF ok(1)])
    fix x xa y
    assume x: "sa_heap env x = Some xa" "y \<in> successors xa"
    show "y \<notin> insert s (successors sa)" if "x \<notin> insert s (successors sa)"
    proof -
      have "y \<noteq> s"
        using x link_okD(1,2)[OF ok(1) x(1), of s] s assms(3,4) unfolding successors_def by auto
      moreover have "y \<notin> successors sa"
        using sf(3)[OF _ x] that by blast
      ultimately show ?thesis
        by blast
    qed
    show "y \<in> insert s (successors sa)" if "x \<in> insert s (successors sa)"
      using that x sf(2)[of x] s by (metis empty_iff insertE insertCI option.inject)
  qed
  then show ?thesis
    using e by (auto simp: env_inv_def)
qed

lemma sa_free_next:
  assumes inv: "env_inv env" and s: "sa_heap env s = Some sa"
    and p: "sa_previ sa = Some p \<or> sa_prevr sa = Some p"
  shows "\<exists>env'. sa_free env s = Some env' \<and> env_inv env' \<and> dom (sa_heap env') = dom (sa_heap env) - {s}"
proof -
  have ok: "link_ok (sa_heap env)" "tables_inv env"
    using inv by (simp_all add: env_inv_def)
  obtain osa where o: "sa_heap env p = Some osa" "sa_previ sa = Some p \<and> sa_nexti osa = Some s \<or> sa_prevr sa = Some p \<and> sa_nextr osa = Some s"
    using link_okD(3,4)[OF ok(1) s, of p] p by blast
  then have ps: "p \<noteq> s" and sa: "sa_nexti sa = None" "sa_nextr sa = None"
      "sa_previ sa = Some p \<Longrightarrow> sa_prevr sa = None" "sa_prevr sa = Some p \<Longrightarrow> sa_previ sa = None"
    using link_okD(1,2)[OF ok(1) o(1), of s] s by auto
  let ?osa = "if sa_previ sa = Some p then osa\<lparr>sa_nexti := None\<rparr> else osa\<lparr>sa_nextr := None\<rparr>"
  have "tables_inv (put_sa p ?osa env)"
    by (rule put_sa_tables_inv[OF ok(2) o(1)]) simp_all
  then obtain env' where e: "sa_drop (put_sa p ?osa env) s = Some env'" "tables_inv env'"
      "sa_heap env' = (sa_heap env)(p := Some ?osa, s := None)"
    using sa_drop_ok[of "put_sa p ?osa env" s sa] s ps by auto
  have "link_ok (sa_heap env')"
    using link_unlink[OF ok(1) s o(1)] link_unlink_r[OF ok(1) s o(1)] o(2) sa(3,4) unfolding e(3) by auto
  moreover have "sa_free env s = Some env'"
    using e(1) s ps sa o p by (auto simp: sa_free_def)
  moreover have "dom (sa_heap env') = dom (sa_heap env) - {s}"
    using e(3) o(1) ps by auto
  ultimately show ?thesis
    using e(2) by (auto simp: env_inv_def)
qed

subsubsection \<open>The identity table\<close>

lemma dstid_tree_inv: "dst_inv env \<Longrightarrow> dstid_tree env"
  unfolding dst_inv_def rb_ok_def rb_sorted_def dstid_tree_def dst_live_def checked_def
  by (auto split: option.splits)

lemma list_find_None: "list_find cmp xs e = None \<longleftrightarrow> (\<forall>y\<in>set xs. cmp e y \<noteq> 0)"
  by (auto simp: list_find_def find_None_iff)

lemma list_find_Some: "list_find cmp xs e = Some y \<Longrightarrow> y \<in> set xs \<and> cmp e y = 0"
  by (auto simp: list_find_def find_Some_iff)

lemma list_insert_set: "list_find cmp xs e = None \<Longrightarrow> set (list_insert cmp xs e) = insert e (set xs)"
  by (force simp: list_insert_def list_find_None)

lemma rb_insert_set:
  assumes "key_order cmp S" "rb_ok cmp S t" "e \<in> S" "\<forall>y\<in>set (inorder t). cmp e y \<noteq> 0"
  obtains t' where "RB_INSERT cmp t e = Some (None, t')" "rb_ok cmp S t'" "set (inorder t') = insert e (set (inorder t))"
proof -
  have "list_find cmp (inorder t) e = None"
    using assms(4) by (simp add: list_find_None)
  then show ?thesis
    using key_order.insert_refines[OF assms(1-3)] that list_insert_set[of cmp "inorder t" e] by auto
qed

text \<open>What \<^verbatim>\<open>sa_dstid_insert\<close> does: it returns the SA that has the identity, or it adds the entry.\<close>

lemma sa_dstid_insert_ok:
  assumes inv: "dst_inv env" and sa: "sa_heap env s = Some sa" "\<not> sa_dstid_entry_valid sa" "sa \<in> checked"
  shows "(\<exists>x\<in>dst_valid env. dstid_cmp env s x = 0 \<and> sa_dstid_insert env s = Some (Some x, env)) \<or>
     (\<exists>t. (\<forall>x\<in>dst_valid env. dstid_cmp env s x \<noteq> 0) \<and>
        sa_dstid_insert env s = Some (None, put_sa s (sa\<lparr>sa_dstid_entry_valid := True\<rparr>) (env\<lparr>sc_dstid_sas := t\<rparr>)) \<and>
        dst_inv (put_sa s (sa\<lparr>sa_dstid_entry_valid := True\<rparr>) (env\<lparr>sc_dstid_sas := t\<rparr>)))"
proof -
  have ok: "rb_ok (dstid_cmp env) (dst_live env) (sc_dstid_sas env)" "set (inorder (sc_dstid_sas env)) = dst_valid env"
    using inv by (simp_all add: dst_inv_def)
  have ord: "key_order (dstid_cmp env) (dst_live env)"
    by (rule dstid_order[OF dst_live_checked])
  have s: "s \<in> dst_live env" "sa_dstid_checked sa \<noteq> None"
    using sa by (auto simp: dst_live_def checked_def)
  have find: "RB_FIND (dstid_cmp env) (sc_dstid_sas env) s = list_find (dstid_cmp env) (inorder (sc_dstid_sas env)) s"
    using key_order.find_refines[OF ord _ s(1)] ok(1) by (simp add: rb_ok_def)
  show ?thesis
  proof (cases "list_find (dstid_cmp env) (inorder (sc_dstid_sas env)) s")
    case (Some x)
    then have x: "x \<in> dst_valid env" "dstid_cmp env s x = 0"
      using list_find_Some[OF Some] ok(2) by simp_all
    then obtain xa where "sa_heap env x = Some xa" "sa_dstid_entry_valid xa"
      by (auto simp: dst_valid_def)
    then have "sa_dstid_insert env s = Some (Some x, env)"
      using sa s(2) dstid_tree_inv[OF inv] find Some by (auto simp: sa_dstid_insert_def)
    then show ?thesis
      using x by blast
  next
    case None
    then have new: "\<forall>y\<in>set (inorder (sc_dstid_sas env)). dstid_cmp env s y \<noteq> 0"
      by (simp add: list_find_None)
    obtain t where t: "RB_INSERT (dstid_cmp env) (sc_dstid_sas env) s = Some (None, t)"
        "rb_ok (dstid_cmp env) (dst_live env) t" "set (inorder t) = insert s (dst_valid env)"
      using rb_insert_set[OF ord ok(1) s(1) new] ok(2) by metis
    let ?sa = "sa\<lparr>sa_dstid_entry_valid := True\<rparr>"
    let ?env = "put_sa s ?sa (env\<lparr>sc_dstid_sas := t\<rparr>)"
    have id: "sa_dstid_checked ?sa = sa_dstid_checked sa" "?sa \<in> checked \<longleftrightarrow> sa \<in> checked"
      by (rule dstid_checked_cong; simp add: IKESA_DSTID_def)+
    have sets: "dst_live ?env = dst_live env" "dst_valid ?env = insert s (dst_valid env)"
      using sa id(2) by (auto simp: dst_live_def dst_valid_def)
    have "dstid_cmp ?env x y = dstid_cmp env x y" for x y
      using sa(1) id(1) by (auto simp: dstid_cmp_def intro!: arg_cong[where f = the] sa_dstid_cmp_cong)
    then have "dstid_cmp ?env = dstid_cmp env"
      by blast
    then have "dst_inv ?env"
      using t(2,3) unfolding dst_inv_def sets by simp
    moreover have "sa_dstid_insert env s = Some (None, ?env)"
      using sa s(2) dstid_tree_inv[OF inv] find None t(1) by (auto simp: sa_dstid_insert_def)
    ultimately show ?thesis
      using new unfolding ok(2) by blast
  qed
qed

subsubsection \<open>Policies\<close>

lemma ref_peers_ok:
  assumes "\<forall>s\<in>set ss. \<exists>sa. sa_heap env s = Some sa \<and> sa_policy sa = Some p"
    "pol_heap env p = Some pol" "has_flag pol IKED_POLICY_REFCNT"
  shows "ref_peers env p ss = Some (put_pol p (pol\<lparr>pol_refcnt := pol_refcnt pol + int (length ss)\<rparr>) env)"
  using assms
proof (induction ss arbitrary: env pol)
  case Nil
  then show ?case
    by (simp add: put_pol_def fun_upd_idem)
next
  case (Cons s ss)
  let ?pol = "pol\<lparr>pol_refcnt := pol_refcnt pol + 1\<rparr>"
  have "ref_peers (put_pol p ?pol env) p ss =
      Some (put_pol p (?pol\<lparr>pol_refcnt := pol_refcnt ?pol + int (length ss)\<rparr>) (put_pol p ?pol env))"
    using Cons.prems by (intro Cons.IH) auto
  then show ?case
    using Cons.prems by (auto simp: policy_ref_def put_pol_def add.assoc)
qed

text \<open>A policy that leaves the configuration lives on as long as an SA uses it.\<close>

lemma config_free_policy_ok:
  assumes inv: "pol_inv env" and p: "p \<in> set (sc_policies env)"
  shows "\<exists>pol pols. pol_heap env p = Some pol \<and>
     config_free_policy env p = Some (env\<lparr>pol_heap := pols, sc_policies := remove1 p (sc_policies env)\<rparr>) \<and>
     pol_inv (env\<lparr>pol_heap := pols, sc_policies := remove1 p (sc_policies env)\<rparr>) \<and>
     (pols p = None \<longleftrightarrow> pol_sapeers pol = []) \<and> (\<forall>q. q \<noteq> p \<longrightarrow> pols q = pol_heap env q)"
proof -
  let ?P = "sa_pols (sa_heap env)" and ?scp = "sc_policies env"
  have ok: "pol_ok (pol_heap env) ?scp ?P"
    using inv by (simp add: pol_inv_def)
  then obtain pol where pol: "pol_heap env p = Some pol" and good: "pol_good ?scp ?P p pol"
    using p unfolding pol_ok_def by blast
  then have fl: "\<not> has_flag pol IKED_POLICY_REFCNT" "pol_refcnt pol = 0"
    using p by (auto simp: pol_good_def split: if_splits)
  have peers: "\<forall>s\<in>set (pol_sapeers pol). \<exists>sa. sa_heap env s = Some sa \<and> sa_policy sa = Some p"
    using good by (auto simp: pol_good_def sa_pols_def bind_eq_Some_conv)
  let ?pol = "pol\<lparr>pol_flags := pol_flags pol OR IKED_POLICY_REFCNT, pol_refcnt := int (length (pol_sapeers pol))\<rparr>"
  let ?q = "if pol_sapeers pol = [] then None else Some ?pol"
  let ?env = "env\<lparr>pol_heap := (pol_heap env)(p := ?q), sc_policies := remove1 p ?scp\<rparr>"
  have rp: "ref_peers ((put_pol p (pol\<lparr>pol_flags := pol_flags pol OR IKED_POLICY_REFCNT\<rparr>) env)\<lparr>sc_policies := remove1 p ?scp\<rparr>) p
      (pol_sapeers pol) = Some (put_pol p ?pol (env\<lparr>sc_policies := remove1 p ?scp\<rparr>))"
    using ref_peers_ok[of "pol_sapeers pol" _ p "pol\<lparr>pol_flags := pol_flags pol OR IKED_POLICY_REFCNT\<rparr>"] peers fl(2)
    by (simp add: put_pol_def)
  have free: "config_free_policy env p = Some ?env"
    using fl pol rp by (simp add: config_free_policy_def free_pol_def put_pol_def Let_def)
  have "pol_ok ((pol_heap env)(p := ?q)) (remove1 p ?scp) ?P"
    unfolding pol_ok_def
  proof (intro conjI allI impI)
    fix x y
    assume x: "((pol_heap env)(p := ?q)) x = Some y"
    show "pol_good (remove1 p ?scp) ?P x y"
    proof (cases "x = p")
      case True
      then show ?thesis
        using x good ok by (auto simp: pol_good_def pol_ok_def split: if_splits)
    next
      case False
      then have "pol_good ?scp ?P x y"
        using x ok by (simp add: pol_ok_def)
      then show ?thesis
        using False ok by (auto simp: pol_good_def pol_ok_def)
    qed
  next
    fix s x
    assume "?P s = Some x"
    then show "((pol_heap env)(p := ?q)) x \<noteq> None"
      using ok good by (auto simp: pol_ok_def pol_good_def)
  qed (use ok in \<open>auto simp: pol_ok_def\<close>)
  then have "pol_inv ?env"
    by (simp add: pol_inv_def)
  then show ?thesis
    using pol free by (intro exI[of _ pol] exI[of _ "(pol_heap env)(p := ?q)"]) simp
qed

subsubsection \<open>Looking up and creating SAs\<close>

interpretation sa_table: key_order "sas_cmp env" S for env S
  by (rule sas_order)

lemma RB_FIND_cong: "\<forall>x\<in>set (inorder t). c e x = d f x \<Longrightarrow> RB_FIND c t e = RB_FIND d t f"
  by (induction t) (auto simp: Let_def)

lemma tab_live: "tab_inv X env \<Longrightarrow> live_tree env (sc_sas env)"
  by (auto simp: tab_inv_def live_tree_def)

text \<open>The key of the lookup as an SA at an address that is not in use.\<close>

lemma find_sa_list:
  assumes inv: "tab_inv {} env" "finite (dom (sa_heap env))"
  shows "find_sa env key = Some (List.find (\<lambda>s. sa_cmp key (the (sa_heap env s)) = 0) (inorder (sc_sas env)))"
proof -
  obtain k where k: "k \<notin> dom (sa_heap env)"
    using inv(2) ex_new_if_finite[OF infinite_UNIV_nat] by blast
  let ?env = "put_sa k key env"
  have ok: "rb_ok (sas_cmp env) (dom (sa_heap env)) (sc_sas env)" "set (inorder (sc_sas env)) = dom (sa_heap env)"
    using inv(1) by (simp_all add: tab_inv_def)
  have new: "sas_cmp ?env k x = sa_cmp key (the (sa_heap env x))" if "x \<in> set (inorder (sc_sas env))" for x
    using that k ok(2) by (auto simp: sas_cmp_def)
  have "rb_ok (sas_cmp ?env) (insert k (dom (sa_heap env))) (sc_sas env)"
    using k ok(2) by (intro rb_ok_cong[OF ok(1)]) (auto simp: sas_cmp_def)
  then have "RB_FIND (sas_cmp ?env) (sc_sas env) k = list_find (sas_cmp ?env) (inorder (sc_sas env)) k"
    by (intro sa_table.find_refines[where S = "insert k (dom (sa_heap env))"]) (simp_all add: rb_ok_def)
  also have "\<dots> = List.find (\<lambda>s. sa_cmp key (the (sa_heap env s)) = 0) (inorder (sc_sas env))"
    unfolding list_find_def by (intro find_cong) (simp_all add: new)
  finally have "RB_FIND (\<lambda>_ s. sa_cmp key (the (sa_heap env s))) (sc_sas env) 0 = \<dots>"
    using RB_FIND_cong[of "sc_sas env" "\<lambda>_ s. sa_cmp key (the (sa_heap env s))" 0 "sas_cmp ?env" k] new by simp
  then show ?thesis
    using tab_live[OF inv(1)] by (simp add: find_sa_def)
qed

lemma sa_cmp_0: "sa_cmp a b = 0 \<longleftrightarrow> sh_initiator a = sh_initiator b \<and> sh_ispi a = sh_ispi b"
  by (auto simp: sa_cmp_def)

lemma tab_unique:
  assumes "tab_inv {} env" "sa_heap env s = Some sa" "sa_heap env r = Some ra" "sa_cmp sa ra = 0"
  shows "s = r"
proof (rule ccontr)
  assume "s \<noteq> r"
  have ok: "sorted_wrt (\<lambda>x y. sas_cmp env x y < 0) (inorder (sc_sas env))" "s \<in> set (inorder (sc_sas env))" "r \<in> set (inorder (sc_sas env))"
    using assms(1-3) by (auto simp: tab_inv_def rb_ok_def rb_sorted_def)
  then have "sas_cmp env s r < 0 \<or> sas_cmp env r s < 0"
    using \<open>s \<noteq> r\<close> by (auto simp: in_set_conv_nth sorted_wrt_iff_nth_less) (metis linorder_neqE_nat)
  then show False
    using assms(2-4) by (auto simp: sas_cmp_def sa_cmp_def split: if_splits)
qed

lemma sa_lookup_ok:
  assumes "tab_inv {} env" "finite (dom (sa_heap env))"
  shows "\<exists>r. sa_lookup env ispi rspi initiator = Some r \<and>
    (\<forall>s. r = Some s \<longleftrightarrow> (\<exists>sa. sa_heap env s = Some sa \<and> sh_initiator sa = initiator \<and> sh_ispi sa = ispi \<and>
        (sh_rspi sa = 0 \<or> rspi = 0 \<or> sh_rspi sa = rspi)))"
proof -
  let ?key = "new_sa\<lparr>sh_ispi := ispi, sh_initiator := initiator\<rparr>"
  let ?f = "List.find (\<lambda>s. sa_cmp ?key (the (sa_heap env s)) = 0) (inorder (sc_sas env))"
  have all: "set (inorder (sc_sas env)) = dom (sa_heap env)"
    using assms(1) by (simp add: tab_inv_def)
  have fd: "find_sa env ?key = Some ?f"
    by (rule find_sa_list[OF assms])
  show ?thesis
  proof (cases ?f)
    case None
    then have "\<forall>s sa. sa_heap env s = Some sa \<longrightarrow> \<not> (sh_initiator sa = initiator \<and> sh_ispi sa = ispi)"
      using all by (auto simp: find_None_iff sa_cmp_0)
    then show ?thesis
      using None by (auto simp: sa_lookup_def fd)
  next
    case (Some r)
    then have "r \<in> dom (sa_heap env)" "sa_cmp ?key (the (sa_heap env r)) = 0"
      using all by (auto simp: find_Some_iff)
    then obtain ra where ra: "sa_heap env r = Some ra" "sh_initiator ra = initiator" "sh_ispi ra = ispi"
      by (auto simp: sa_cmp_0)
    have uniq: "s = r" if "sa_heap env s = Some sa" "sh_initiator sa = initiator" "sh_ispi sa = ispi" for s sa
      using tab_unique[OF assms(1) that(1) ra(1)] that ra by (simp add: sa_cmp_0)
    have look: "sa_lookup env ispi rspi initiator =
        Some (if sh_rspi ra \<noteq> 0 \<and> rspi \<noteq> 0 \<and> sh_rspi ra \<noteq> rspi then None else Some r)"
      using Some ra(1) by (simp add: sa_lookup_def fd)
    show ?thesis
      unfolding look option.inject
    proof (intro exI[of _ "if sh_rspi ra \<noteq> 0 \<and> rspi \<noteq> 0 \<and> sh_rspi ra \<noteq> rspi then None else Some r"] conjI allI refl iffI, goal_cases)
      case (1 s)
      then show ?case
        using ra by (auto split: if_splits)
    next
      case (2 s)
      then obtain sa where sa: "sa_heap env s = Some sa" "sh_initiator sa = initiator" "sh_ispi sa = ispi"
          "sh_rspi sa = 0 \<or> rspi = 0 \<or> sh_rspi sa = rspi"
        by blast
      then have "s = r" "sa = ra"
        using uniq[OF sa(1-3)] ra(1) by simp_all
      then show ?case
        using sa(4) by auto
    qed
  qed
qed

text \<open>A new SA, not in any table yet.\<close>

lemma alloc_ok:
  assumes inv: "env_inv env" and new: "sa_heap env s = None"
    and sa: "sa_policy sa = None" "sa_state_of sa = IKEV2_STATE_INIT" "\<not> sa_dstid_entry_valid sa"
      "sa_nexti sa = None" "sa_nextr sa = None" "sa_previ sa = None" "sa_prevr sa = None"
  defines "env' \<equiv> (put_sa s sa env)\<lparr>ikes_sa_created := ikes_sa_created env + 1\<rparr>"
  shows "tab_inv {s} env'" "dst_inv env'" "pol_inv env'" "stat_inv env'" "link_ok (sa_heap env')"
proof -
  have i: "tab_inv {} env" "dst_inv env" "pol_inv env" "stat_inv env" "link_ok (sa_heap env)"
    using inv by (simp_all add: env_inv_def tables_inv_def)
  have h: "sa_heap env' = (sa_heap env)(s := Some sa)" "sc_sas env' = sc_sas env" "sc_dstid_sas env' = sc_dstid_sas env"
    "pol_heap env' = pol_heap env" "sc_policies env' = sc_policies env" "ikes_sa_removed env' = ikes_sa_removed env"
    "ikes_sa_created env' = ikes_sa_created env + 1" "ikes_sa_established_current env' = ikes_sa_established_current env"
    by (simp_all add: env'_def)
  have notin: "s \<notin> dom (sa_heap env)" "s \<notin> established (sa_heap env)" "s \<notin> dst_live env" "s \<notin> dst_valid env"
    using new by (auto simp: established_def dst_live_def dst_valid_def)
  have ok: "rb_ok (sas_cmp env) (dom (sa_heap env)) (sc_sas env)" "set (inorder (sc_sas env)) = dom (sa_heap env)"
    using i(1) by (simp_all add: tab_inv_def)
  have "rb_ok (sas_cmp env') (dom (sa_heap env')) (sc_sas env)"
    using notin(1) ok(2) by (intro rb_ok_cong[OF ok(1)]) (auto simp: sas_cmp_def h(1))
  then show "tab_inv {s} env'"
    using notin(1) ok(2) by (auto simp: tab_inv_def h(1,2))
  have dok: "rb_ok (dstid_cmp env) (dst_live env) (sc_dstid_sas env)" "set (inorder (sc_dstid_sas env)) = dst_valid env"
    using i(2) by (simp_all add: dst_inv_def)
  then have sub: "dst_valid env \<subseteq> dst_live env"
    unfolding rb_ok_def rb_sorted_def by simp
  have sets: "dst_valid env' = dst_valid env" "dst_live env \<subseteq> dst_live env'"
    using new sa(3) by (auto simp: dst_valid_def dst_live_def h(1))
  have "rb_ok (dstid_cmp env') (dst_live env') (sc_dstid_sas env)"
    using notin(4) sub sets(2) dok(2) by (intro rb_ok_cong[OF dok(1)]) (auto simp: dstid_cmp_def h(1))
  then show "dst_inv env'"
    by (simp add: dst_inv_def h(3) dok(2) sets(1))
  have "sa_pols (sa_heap env') = sa_pols (sa_heap env)"
    using new sa(1) by (auto simp: h(1) sa_pols_def)
  then show "pol_inv env'"
    using i(3) by (simp add: pol_inv_def h(4,5))
  show "stat_inv env'"
    using i(4) notin(1,2) sa(2) by (simp add: stat_inv_def h established_upd)
  show "link_ok (sa_heap env')"
    unfolding h(1) link_ok_def
  proof (intro allI impI conjI, goal_cases)
    case (1 x xa n)
    then show ?case
      using sa(4) link_okD(1)[OF i(5), of x xa n] new by (auto split: if_splits)
  next
    case (2 x xa n)
    then show ?case
      using sa(5) link_okD(2)[OF i(5), of x xa n] new by (auto split: if_splits)
  next
    case (3 x xa n)
    then show ?case
      using sa(6) link_okD(3)[OF i(5), of x xa n] new by (auto split: if_splits)
  next
    case (4 x xa n)
    then show ?case
      using sa(7) link_okD(4)[OF i(5), of x xa n] new by (auto split: if_splits)
  qed
qed

text \<open>The insertion into the SA table, and its failure.\<close>

lemma sa_insert_ok:
  assumes inv: "tab_inv {s} env" "dst_inv env" "pol_inv env" "stat_inv env"
    and links: "link_ok (sa_heap env)" "link_ok ((sa_heap env)(s := None))"
    and sa: "sa_heap env s = Some sa" "\<not> sa_dstid_entry_valid sa"
  shows "\<exists>r env'. do {
        (old, t) \<leftarrow> RB_INSERT (sas_cmp env) (sc_sas env) s;
        let env = env\<lparr>sc_sas := t\<rparr>;
        if old \<noteq> None \<and> old \<noteq> Some s
        then do { env \<leftarrow> config_free_sa env s; Some (None, env) }
        else Some (Some s, env) } = Some (r, env') \<and> env_inv env' \<and>
      (r = None \<and> sa_heap env' = (sa_heap env)(s := None) \<or> r = Some s \<and> sa_heap env' = sa_heap env)"
proof -
  have ok: "rb_ok (sas_cmp env) (dom (sa_heap env)) (sc_sas env)" "set (inorder (sc_sas env)) = dom (sa_heap env) - {s}"
    using inv(1) by (simp_all add: tab_inv_def)
  have s: "s \<in> dom (sa_heap env)"
    using sa(1) by blast
  obtain t where t: "RB_INSERT (sas_cmp env) (sc_sas env) s = Some (list_find (sas_cmp env) (inorder (sc_sas env)) s, t)"
      "rb_ok (sas_cmp env) (dom (sa_heap env)) t" "inorder t = list_insert (sas_cmp env) (inorder (sc_sas env)) s"
      "list_find (sas_cmp env) (inorder (sc_sas env)) s \<noteq> None \<longrightarrow> t = sc_sas env"
    using sa_table.insert_refines[OF ok(1) s] by blast
  show ?thesis
  proof (cases "list_find (sas_cmp env) (inorder (sc_sas env)) s")
    case (Some old)
    then have "old \<noteq> s" "t = sc_sas env"
      using list_find_Some[OF Some] ok(2) t(4) by auto
    moreover obtain env' where "config_free_sa env s = Some env'" "tables_inv env'" "sa_heap env' = (sa_heap env)(s := None)"
      using config_free_sa_ok[OF inv sa] by blast
    ultimately show ?thesis
      unfolding t(1) Some using links(2) by (intro exI[of _ None] exI[of _ env']) (simp add: env_inv_def)
  next
    case None
    let ?env = "env\<lparr>sc_sas := t\<rparr>"
    have "set (inorder t) = dom (sa_heap env)"
      unfolding t(3) list_insert_set[OF None] ok(2) using s by auto
    moreover have "sas_cmp ?env = sas_cmp env"
      by (intro ext) (simp add: sas_cmp_def)
    ultimately have "tab_inv {} ?env"
      using t(2) by (simp add: tab_inv_def)
    moreover have "dst_inv ?env"
      by (rule dst_inv_cong[OF inv(2)]) simp_all
    moreover have "pol_inv ?env" "stat_inv ?env" "link_ok (sa_heap ?env)"
      using inv(3,4) links(1) by (simp_all add: pol_inv_def stat_inv_def)
    ultimately show ?thesis
      unfolding t(1) None by (intro exI[of _ "Some s"] exI[of _ ?env]) (simp add: env_inv_def tables_inv_def)
  qed
qed

lemma sa_new_get_ok:
  assumes inv: "env_inv env" and new: "sa_heap env new = None" and x: "config_getspi rnd = Some x"
  shows "\<exists>r env'. sa_new_get ok rnd new env ispi rspi initiator = Some (r, env') \<and> env_inv env' \<and>
     (case r of
        None \<Rightarrow> sa_heap env' = sa_heap env
      | Some s \<Rightarrow> \<exists>sa. sa_heap env' = (sa_heap env)(s := Some sa) \<and> sh_initiator sa = initiator \<and>
          (sa_heap env s = Some sa \<or> s = new \<and> sa_policy sa = None))"
proof -
  have i: "tab_inv {} env" "finite (dom (sa_heap env))"
    using inv by (simp_all add: env_inv_def tables_inv_def stat_inv_def)
  obtain r where r: "sa_lookup env ispi rspi initiator = Some r"
      "\<And>s. r = Some s \<Longrightarrow> \<exists>sa. sa_heap env s = Some sa \<and> sh_initiator sa = initiator"
    using sa_lookup_ok[OF i] by metis
  define f where "f = (if ispi = 0 \<and> rspi = 0 then None else r)"
  have f: "(if ispi = 0 \<and> rspi = 0 then Some None else sa_lookup env ispi rspi initiator) = Some f"
    by (simp add: f_def r(1))
  consider (found) s sa where "f = Some s" "sa_heap env s = Some sa" "sh_initiator sa = initiator"
    | (none) "f = None" "\<not> initiator \<and> ispi = 0 \<or> \<not> ok" | (make) "f = None" "initiator \<or> ispi \<noteq> 0" "ok"
    using r(2) by (cases f) (auto simp: f_def split: if_splits)
  then show ?thesis
  proof cases
    case found
    then have "sa_heap env = (sa_heap env)(s := Some sa)"
      by (simp add: fun_upd_idem)
    moreover have "sa_new_get ok rnd new env ispi rspi initiator = Some (Some s, env)"
      using f found(1) by (simp add: sa_new_get_def)
    ultimately show ?thesis
      using found(2,3) inv by (intro exI[of _ "Some s"] exI[of _ env]) auto
  next
    case none
    then show ?thesis
      using f inv by (intro exI[of _ None] exI[of _ env]) (auto simp: sa_new_get_def)
  next
    case make
    define sa where "sa = (if initiator then new_sa\<lparr>sh_initiator := True, sh_ispi := x\<rparr>
      else new_sa\<lparr>sh_initiator := False, sh_ispi := ispi, sh_rspi := x\<rparr>)"
    have sa: "sa_policy sa = None" "sa_state_of sa = IKEV2_STATE_INIT" "\<not> sa_dstid_entry_valid sa"
        "sa_nexti sa = None" "sa_nextr sa = None" "sa_previ sa = None" "sa_prevr sa = None" "sh_initiator sa = initiator"
      by (simp_all add: sa_def new_sa_def)
    let ?env = "(put_sa new sa env)\<lparr>ikes_sa_created := ikes_sa_created env + 1\<rparr>"
    note al = alloc_ok[OF inv new sa(1-7)]
    have h: "sa_heap ?env = (sa_heap env)(new := Some sa)" "(sa_heap ?env)(new := None) = sa_heap env"
      using new by auto
    have "link_ok ((sa_heap ?env)(new := None))"
      unfolding h(2) using inv by (simp add: env_inv_def)
    note ins = sa_insert_ok[OF al this, of sa]
    have "sa_new_get ok rnd new env ispi rspi initiator = do {
        (old, t) \<leftarrow> RB_INSERT (sas_cmp ?env) (sc_sas ?env) new;
        let env = ?env\<lparr>sc_sas := t\<rparr>;
        if old \<noteq> None \<and> old \<noteq> Some new
        then do { env \<leftarrow> config_free_sa env new; Some (None, env) }
        else Some (Some new, env) }"
      unfolding sa_new_get_def f make(1) using make(2,3) x tab_live[OF al(1)]
      by (cases initiator; cases env) (simp_all add: config_new_sa_def put_sa_def sa_def new_sa_def Let_def)
    then obtain r env' where "sa_new_get ok rnd new env ispi rspi initiator = Some (r, env')" "env_inv env'"
        "r = None \<and> sa_heap env' = sa_heap env \<or> r = Some new \<and> sa_heap env' = (sa_heap env)(new := Some sa)"
      using ins sa(3) h by auto
    then show ?thesis
      using sa(1,8) by auto
  qed
qed

text \<open>Fields other than the links do not matter to the links.\<close>

definition link_view :: "iked_sa \<Rightarrow> nat option list" where
  "link_view sa = [sa_nexti sa, sa_nextr sa, sa_previ sa, sa_prevr sa]"

lemma link_ok_fields:
  assumes "link_ok h" "h s = Some sa" "link_view sa' = link_view sa"
  shows "link_ok (h(s := Some sa'))"
proof -
  have bwd: "\<exists>ya. h x = Some ya \<and> link_view ya = link_view xa" if "(h(s := Some sa')) x = Some xa" for x xa
    using that assms(2,3) by (auto split: if_splits)
  have fwd: "\<exists>ya. (h(s := Some sa')) x = Some ya \<and> link_view ya = link_view xa" if "h x = Some xa" for x xa
    using that assms(2,3) by auto
  show ?thesis
    unfolding link_ok_def
  proof (intro allI impI conjI, goal_cases)
    case (1 x xa n)
    then obtain ya where y: "h x = Some ya" "link_view ya = link_view xa"
      using bwd by blast
    then show ?case
      using link_okD(1)[OF assms(1) y(1), of n] 1(2) fwd[of n] by (auto simp: link_view_def)
  next
    case (2 x xa n)
    then obtain ya where y: "h x = Some ya" "link_view ya = link_view xa"
      using bwd by blast
    then show ?case
      using link_okD(2)[OF assms(1) y(1), of n] 2(2) fwd[of n] by (auto simp: link_view_def)
  next
    case (3 x xa n)
    then obtain ya where y: "h x = Some ya" "link_view ya = link_view xa"
      using bwd by blast
    then show ?case
      using link_okD(3)[OF assms(1) y(1), of n] 3(2) fwd[of n] by (auto simp: link_view_def)
  next
    case (4 x xa n)
    then obtain ya where y: "h x = Some ya" "link_view ya = link_view xa"
      using bwd by blast
    then show ?case
      using link_okD(4)[OF assms(1) y(1), of n] 4(2) fwd[of n] by (auto simp: link_view_def)
  qed
qed

lemma sa_new_policy_ok:
  assumes inv: "env_inv env" and sa: "sa_heap env s = Some sa"
    and pol: "sa_policy sa = None \<Longrightarrow> \<exists>p. pol = Some p \<and> pol_heap env p \<noteq> None"
  shows "\<exists>p env' q. sa_new_policy env s pol = Some (p, env') \<and> env_inv env' \<and> pol_heap env' p = Some q \<and>
     sa_heap env' = (sa_heap env)(s := Some (sa\<lparr>sa_policy := Some p\<rparr>))"
proof (cases "sa_policy sa")
  case (Some p)
  have "pol_ok (pol_heap env) (sc_policies env) (sa_pols (sa_heap env))" "sa_pols (sa_heap env) s = Some p"
    using inv sa Some by (simp_all add: env_inv_def tables_inv_def pol_inv_def sa_pols_def)
  then obtain q where "pol_heap env p = Some q"
    by (rule pol_okD)
  moreover have "sa_heap env = (sa_heap env)(s := Some (sa\<lparr>sa_policy := Some p\<rparr>))"
    using sa Some by (simp add: fun_upd_idem)
  moreover have "sa_new_policy env s pol = Some (p, env)"
    using sa Some by (cases pol) (simp_all add: sa_new_policy_def)
  ultimately show ?thesis
    using inv by (intro exI[of _ p] exI[of _ env] exI[of _ q]) simp
next
  case None
  then obtain p q where p: "pol = Some p" "pol_heap env p = Some q"
    using pol by auto
  let ?P = "sa_pols (sa_heap env)" and ?sa = "sa\<lparr>sa_policy := Some p\<rparr>"
  let ?q = "q\<lparr>pol_refcnt := (if has_flag q IKED_POLICY_REFCNT then pol_refcnt q + 1 else pol_refcnt q),
              pol_sapeers := pol_sapeers q @ [s]\<rparr>"
  let ?env = "put_sa s ?sa (env\<lparr>pol_heap := (pol_heap env)(p := Some ?q)\<rparr>)"
  have i: "tab_inv {} env" "dst_inv env" "pol_ok (pol_heap env) (sc_policies env) ?P" "stat_inv env" "link_ok (sa_heap env)"
    using inv by (simp_all add: env_inv_def tables_inv_def pol_inv_def)
  have Ps: "?P s = None"
    using sa None by (simp add: sa_pols_def)
  have good: "pol_good (sc_policies env) ?P p q"
    using i(3) p(2) by (simp add: pol_ok_def)
  have "{x. (?P(s := Some p)) x = Some p} = insert s {x. ?P x = Some p}"
    by auto
  then have "pol_good (sc_policies env) (?P(s := Some p)) p ?q"
    using good Ps by (auto simp: pol_good_def)
  then have pok: "pol_ok ((pol_heap env)(p := Some ?q)) (sc_policies env) (?P(s := Some p))"
    using Ps p(2) by (intro pol_ok_upd[OF i(3)]) auto
  have "tab_inv {} ?env"
    by (rule tab_inv_cong[OF i(1)]) (use sa in \<open>auto split: if_splits\<close>)
  moreover have "dst_inv ?env"
    by (rule dst_inv_cong[OF i(2)]) (use sa in \<open>auto simp: dst_view_def IKESA_DSTID_def\<close>)
  moreover have "stat_inv ?env"
    by (rule stat_inv_cong[OF i(4)]) (use sa in auto)
  moreover have "pol_inv ?env"
    using pok by (simp add: pol_inv_def)
  moreover have "link_ok (sa_heap ?env)"
    using link_ok_fields[OF i(5) sa, of ?sa] by (simp add: link_view_def)
  ultimately have "env_inv ?env"
    by (simp add: env_inv_def tables_inv_def)
  moreover have "sa_new_policy env s pol = Some (p, ?env)"
    using sa None p by (cases env) (simp add: sa_new_policy_def policy_ref_def put_pol_def put_sa_def)
  ultimately show ?thesis
    by (intro exI[of _ p] exI[of _ ?env] exI[of _ ?q]) simp
qed

lemma config_free_sa_pols:
  assumes "config_free_sa env s = Some env'" "sa_heap env s = Some sa" "sa_policy sa = None"
  shows "pol_heap env' = pol_heap env"
  using assms by (auto simp: config_free_sa_def Let_def split: if_splits)

lemma sa_new_get_pols:
  assumes "sa_new_get ok rnd new env ispi rspi initiator = Some (r, env')"
    and "env_inv env" "sa_heap env new = None" "config_getspi rnd = Some x" "pol_heap env p \<noteq> None"
  shows "pol_heap env' p \<noteq> None"
proof -
  have "pol_heap env' = pol_heap env"
    using assms(1,4) unfolding sa_new_get_def config_new_sa_def
    by (auto simp: bind_eq_Some_conv Let_def new_sa_def split: option.splits if_splits prod.splits
        dest!: config_free_sa_pols)
  then show ?thesis
    using assms(5) by simp
qed

lemma put_sa_env_inv:
  assumes "env_inv env" "sa_heap env s = Some sa" "sh_ispi sa' = sh_ispi sa" "sh_initiator sa' = sh_initiator sa"
    "dst_view sa' = dst_view sa" "sa_policy sa' = sa_policy sa" "sa_state_of sa' = sa_state_of sa" "link_view sa' = link_view sa"
  shows "env_inv (put_sa s sa' env)"
proof -
  have "tables_inv env" "link_ok (sa_heap env)"
    using assms(1) by (simp_all add: env_inv_def)
  then show ?thesis
    using put_sa_tables_inv[OF _ assms(2-7)] link_ok_fields[of "sa_heap env" s sa sa'] assms(2,8) by (simp add: env_inv_def)
qed

lemma sa_free_ok:
  assumes "env_inv env" "sa_heap env s = Some sa"
  shows "\<exists>env'. sa_free env s = Some env' \<and> env_inv env' \<and>
    dom (sa_heap env') = dom (sa_heap env) - insert s (successors sa)"
proof (cases "sa_previ sa = None \<and> sa_prevr sa = None")
  case True
  then show ?thesis
    using sa_free_first[OF assms] by auto
next
  case False
  then obtain p where p: "sa_previ sa = Some p \<or> sa_prevr sa = Some p"
    by auto
  have ok: "link_ok (sa_heap env)"
    using assms(1) by (simp add: env_inv_def)
  obtain osa where o: "sa_heap env p = Some osa" "s \<in> successors osa"
    using p link_okD(3,4)[OF ok assms(2)] by (fastforce simp: successors_def)
  have "successors sa = {}"
    using successor_facts(2)[OF ok o] assms(2) by simp
  then show ?thesis
    using sa_free_next[OF assms p] by auto
qed

text \<open>
  \<^verbatim>\<open>sa_new\<close> returns a new or an existing SA with a policy, or \<open>NULL\<close>; it cannot reach the \<^verbatim>\<open>fatalx\<close> when
  the caller has a policy.
\<close>

lemma sa_new_ok:
  assumes inv: "env_inv env" and new: "sa_heap env new = None" and x: "config_getspi rnd = Some x"
    and p: "pol_heap env p \<noteq> None"
  shows "\<exists>r env'. sa_new p2id ok rnd new env ispi rspi initiator (Some p) = Some (r, env') \<and> env_inv env' \<and>
     (\<forall>s. r = Some s \<longrightarrow> (\<exists>sa q. sa_heap env' s = Some sa \<and> sh_initiator sa = initiator \<and> sa_policy sa = Some q))"
proof -
  obtain r env1 where g: "sa_new_get ok rnd new env ispi rspi initiator = Some (r, env1)" "env_inv env1"
      "(case r of
        None \<Rightarrow> sa_heap env1 = sa_heap env
      | Some s \<Rightarrow> \<exists>sa. sa_heap env1 = (sa_heap env)(s := Some sa) \<and> sh_initiator sa = initiator \<and>
          (sa_heap env s = Some sa \<or> s = new \<and> sa_policy sa = None))"
    using sa_new_get_ok[OF inv new x] by blast
  have pols: "pol_heap env1 p \<noteq> None"
    by (rule sa_new_get_pols[OF g(1) inv new x p])
  show ?thesis
  proof (cases r)
    case None
    then show ?thesis
      using g(1,2) by (intro exI[of _ None] exI[of _ env1]) (simp add: sa_new_def)
  next
    case (Some s)
    then obtain sa where sa: "sa_heap env1 s = Some sa" "sh_initiator sa = initiator"
      using g(3) by auto
    let ?sa = "if initiator \<and> sh_rspi sa = 0 \<and> rspi \<noteq> 0 then sa\<lparr>sh_rspi := rspi\<rparr> else sa"
    let ?env = "if initiator \<and> sh_rspi sa = 0 \<and> rspi \<noteq> 0 then put_sa s (sa\<lparr>sh_rspi := rspi\<rparr>) env1 else env1"
    have e: "env_inv ?env" "sa_heap ?env s = Some ?sa" "pol_heap ?env = pol_heap env1"
      using g(2) sa put_sa_env_inv[OF g(2) sa(1), of "sa\<lparr>sh_rspi := rspi\<rparr>"]
      by (simp_all add: dst_view_def IKESA_DSTID_def link_view_def)
    obtain q env2 pq where n: "sa_new_policy ?env s (Some p) = Some (q, env2)" "env_inv env2" "pol_heap env2 q = Some pq"
        "sa_heap env2 = (sa_heap ?env)(s := Some (?sa\<lparr>sa_policy := Some q\<rparr>))"
      using sa_new_policy_ok[OF e(1,2), of "Some p"] pols e(3) by auto
    obtain i v where iv: "required_flags (pol_auth pq) initiator (sa_stateinit ?sa, sa_statevalid ?sa) = (i, v)"
      by fastforce
    let ?sb = "?sa\<lparr>sa_policy := Some q, sa_stateinit := i, sa_statevalid := v\<rparr>"
    have run: "sa_new p2id ok rnd new env ispi rspi initiator (Some p) =
        (case p2id (pol_localid pq) of
           None \<Rightarrow> do { env \<leftarrow> sa_free (put_sa s ?sb env2) s; Some (None, env) }
         | Some d \<Rightarrow> Some (Some s, put_sa s (if initiator then ?sb\<lparr>sa_iid := d\<rparr> else ?sb\<lparr>sa_rid := d\<rparr>) env2))"
      unfolding sa_new_def using g(1) Some sa(1) n(1,3,4) iv by (simp add: Let_def)
    have s2: "sa_heap env2 s = Some (?sa\<lparr>sa_policy := Some q\<rparr>)"
      by (simp add: n(4))
    show ?thesis
    proof (cases "p2id (pol_localid pq)")
      case None
      have "env_inv (put_sa s ?sb env2)"
        by (rule put_sa_env_inv[OF n(2) s2]) (simp_all add: dst_view_def IKESA_DSTID_def link_view_def)
      then show ?thesis
        using sa_free_ok[of "put_sa s ?sb env2" s ?sb] run None by auto
    next
      case (Some d)
      let ?sc = "if initiator then ?sb\<lparr>sa_iid := d\<rparr> else ?sb\<lparr>sa_rid := d\<rparr>"
      have "env_inv (put_sa s ?sc env2)"
        by (rule put_sa_env_inv[OF n(2) s2]) (use sa(2) in \<open>simp_all add: dst_view_def IKESA_DSTID_def link_view_def\<close>)
      then show ?thesis
        using run Some sa(2) by (intro exI[of _ "Some s"] exI[of _ "put_sa s ?sc env2"]) simp
    qed
  qed
qed

subsubsection \<open>States\<close>

lemma sa_state_stats_heap [simp]: "sa_heap (sa_state_stats a b env) = sa_heap env" "sc_sas (sa_state_stats a b env) = sc_sas env"
  "sc_dstid_sas (sa_state_stats a b env) = sc_dstid_sas env" "pol_heap (sa_state_stats a b env) = pol_heap env"
  "sc_policies (sa_state_stats a b env) = sc_policies env" "ikes_sa_created (sa_state_stats a b env) = ikes_sa_created env"
  "ikes_sa_removed (sa_state_stats a b env) = ikes_sa_removed env"
  by (simp_all add: sa_state_stats_def)

text \<open>The gauge of established SAs follows a state change, provided an established SA is only closed.\<close>

lemma stat_inv_state:
  assumes inv: "stat_inv env" and sa: "sa_heap env s = Some sa"
    and st: "sa_state_of sa = IKEV2_STATE_ESTABLISHED \<longrightarrow>
      st = IKEV2_STATE_ESTABLISHED \<or> st = IKEV2_STATE_CLOSING \<or> st = IKEV2_STATE_CLOSED"
  shows "stat_inv (sa_state_stats (sa_state_of sa) st (put_sa s (sa\<lparr>sa_state_of := st\<rparr>) env))"
    (is "stat_inv ?env")
proof (cases "st = sa_state_of sa")
  case True
  then have "?env = put_sa s sa env"
    by (simp add: sa_state_stats_def)
  then show ?thesis
    using put_sa_tables(4)[OF sa refl refl inv refl] by simp
next
  case False
  have fin: "finite (dom (sa_heap env))" "finite (established (sa_heap env))"
    using inv established_dom finite_subset unfolding stat_inv_def by blast+
  have mem: "s \<in> established (sa_heap env) \<longleftrightarrow> sa_state_of sa = IKEV2_STATE_ESTABLISHED"
    using sa by (simp add: established_def)
  have dom: "dom (sa_heap ?env) = dom (sa_heap env)"
    using sa by auto
  have "ikes_sa_established_current ?env = of_nat (card (established (sa_heap ?env)))"
  proof (cases "st = IKEV2_STATE_ESTABLISHED")
    case True
    then have "sa_state_of sa \<noteq> IKEV2_STATE_ESTABLISHED"
      using False by simp
    then show ?thesis
      using True inv mem fin(2) by (simp add: sa_state_stats_def established_upd stat_inv_def)
  next
    case no: False
    show ?thesis
    proof (cases "sa_state_of sa = IKEV2_STATE_ESTABLISHED")
      case True
      then show ?thesis
        using no st inv mem card_remove_word[OF fin(2), of s] by (auto simp: sa_state_stats_def established_upd stat_inv_def)
    next
      case other: False
      then show ?thesis
        using no False inv mem by (auto simp: sa_state_stats_def established_upd stat_inv_def)
    qed
  qed
  then show ?thesis
    using inv dom by (simp add: stat_inv_def)
qed

definition next_state :: "iked_sa \<Rightarrow> nat \<Rightarrow> nat" where
  "next_state sa st =
     (if sa_state_of sa \<noteq> IKEV2_STATE_INIT \<and> \<not> sa_stateok (sa\<lparr>sa_state_of := st\<rparr>) st then sa_state_of sa else st)"

lemma sa_state_tables:
  assumes inv: "tables_inv env" and sa: "sa_heap env s = Some sa"
    and st: "sa_state_of sa = IKEV2_STATE_ESTABLISHED \<longrightarrow>
      st = IKEV2_STATE_ESTABLISHED \<or> st = IKEV2_STATE_CLOSING \<or> st = IKEV2_STATE_CLOSED"
  shows "\<exists>env'. sa_state env s st = Some env' \<and> tables_inv env' \<and>
     sa_heap env' = (sa_heap env)(s := Some (sa\<lparr>sa_state_of := next_state sa st\<rparr>)) \<and> sc_policies env' = sc_policies env"
proof -
  let ?st = "next_state sa st" and ?sa = "sa\<lparr>sa_state_of := next_state sa st\<rparr>"
  let ?env = "sa_state_stats (sa_state_of sa) ?st (put_sa s ?sa env)"
  have run: "sa_state env s st = Some ?env"
    using sa by (simp add: sa_state_def next_state_def Let_def)
  have i: "tab_inv {} env" "dst_inv env" "pol_inv env" "stat_inv env"
    using inv by (simp_all add: tables_inv_def)
  have "stat_inv ?env"
    by (rule stat_inv_state[OF i(4) sa]) (use st in \<open>simp add: next_state_def\<close>)
  moreover have "tab_inv {} (put_sa s ?sa env)" "dst_inv (put_sa s ?sa env)" "pol_inv (put_sa s ?sa env)"
    using put_sa_tables(1-3)[OF sa, of ?sa] i by (simp_all add: dst_view_def IKESA_DSTID_def)
  then have "tab_inv {} ?env" "dst_inv ?env" "pol_inv ?env"
    using tab_inv_cong[of "{}" "put_sa s ?sa env" ?env] dst_inv_cong[of "put_sa s ?sa env" ?env]
    by (simp_all add: pol_inv_def)
  ultimately show ?thesis
    using run by (intro exI[of _ ?env]) (simp add: tables_inv_def)
qed

lemma sa_state_ok:
  assumes "env_inv env" "sa_heap env s = Some sa"
    and "sa_state_of sa = IKEV2_STATE_ESTABLISHED \<longrightarrow>
      st = IKEV2_STATE_ESTABLISHED \<or> st = IKEV2_STATE_CLOSING \<or> st = IKEV2_STATE_CLOSED"
  shows "\<exists>env'. sa_state env s st = Some env' \<and> env_inv env' \<and>
     sa_heap env' = (sa_heap env)(s := Some (sa\<lparr>sa_state_of := next_state sa st\<rparr>))"
proof -
  have i: "tables_inv env" "link_ok (sa_heap env)"
    using assms(1) by (simp_all add: env_inv_def)
  then show ?thesis
    using sa_state_tables[OF i(1) assms(2,3)] link_ok_fields[OF i(2) assms(2), of "sa\<lparr>sa_state_of := next_state sa st\<rparr>"]
    by (auto simp: env_inv_def link_view_def)
qed

subsubsection \<open>Rekeying\<close>

lemma two_put:
  assumes "sa_heap env s = Some sa" "sa_heap env n = Some na" "n \<noteq> s" "tables_inv env"
    and "sh_ispi sa' = sh_ispi sa" "sh_initiator sa' = sh_initiator sa" "dst_view sa' = dst_view sa"
      "sa_policy sa' = sa_policy sa" "sa_state_of sa' = sa_state_of sa"
      "sh_ispi na' = sh_ispi na" "sh_initiator na' = sh_initiator na" "dst_view na' = dst_view na"
      "sa_policy na' = sa_policy na" "sa_state_of na' = sa_state_of na"
  shows "tables_inv (put_sa n na' (put_sa s sa' env))"
proof (rule put_sa_tables_inv)
  show "tables_inv (put_sa s sa' env)"
    using assms by (intro put_sa_tables_inv)
qed (use assms in simp_all)

lemma dst_view_prev [simp]: "dst_view (sa\<lparr>sa_previ := n\<rparr>) = dst_view sa" "dst_view (sa\<lparr>sa_prevr := n\<rparr>) = dst_view sa"
  by (simp_all add: dst_view_def IKESA_DSTID_def)

text \<open>An SA that is no replacement itself and has no replacement of this kind yet gets a new SA without links.\<close>

lemma link_ok_link_i:
  assumes ok: "link_ok h" and s: "h s = Some sa" "sa_nexti sa = None" "sa_previ sa = None" "sa_prevr sa = None"
    and n: "h n = Some na" "link_view na = [None, None, None, None]" "n \<noteq> s"
  shows "link_ok (h(s := Some (sa\<lparr>sa_nexti := Some n\<rparr>), n := Some (na\<lparr>sa_previ := Some s\<rparr>)))"
proof -
  have free: "x \<noteq> n \<and> x \<noteq> s" if "h y = Some ya" "sa_nexti ya = Some x \<or> sa_nextr ya = Some x" for x y ya
    using link_okD(1,2)[OF ok that(1), of x] that(2) n s by (auto simp: link_view_def)
  have pred: "x \<noteq> n" if "h y = Some ya" "sa_previ ya = Some x \<or> sa_prevr ya = Some x" for x y ya
    using link_okD(3,4)[OF ok that(1), of x] that(2) n by (auto simp: link_view_def)
  show ?thesis
    unfolding link_ok_def
  proof (intro allI impI conjI, goal_cases)
    case (1 x xa y)
    consider "x = n" | "x = s" | "x \<noteq> n" "x \<noteq> s"
      by blast
    then show ?case
    proof cases
      case 3
      then have "h x = Some xa"
        using 1 by simp
      then show ?thesis
        using link_okD(1)[OF ok, of x xa y] free[of x xa y] 1(2) by auto
    qed (use 1 n s in \<open>auto simp: link_view_def\<close>)
  next
    case (2 x xa y)
    then obtain xb where x: "h x = Some xb" "sa_nextr xb = Some y"
      using n s by (auto simp: link_view_def split: if_splits)
    then show ?case
      using link_okD(2)[OF ok x] free[OF x(1)] by auto
  next
    case (3 x xa y)
    consider "x = n" | "x = s" | "x \<noteq> n" "x \<noteq> s"
      by blast
    then show ?case
    proof cases
      case 3
      then have x: "h x = Some xa"
        using \<open>(h(s \<mapsto> sa\<lparr>sa_nexti := Some n\<rparr>, n \<mapsto> na\<lparr>sa_previ := Some s\<rparr>)) x = Some xa\<close> by simp
      then show ?thesis
        using link_okD(3)[OF ok x, of y] pred[OF x, of y] \<open>sa_previ xa = Some y\<close> s(1,2) by auto
    qed (use 3 n s in \<open>auto simp: link_view_def\<close>)
  next
    case (4 x xa y)
    then obtain xb where x: "h x = Some xb" "sa_prevr xb = Some y"
      using n s by (auto simp: link_view_def split: if_splits)
    then show ?case
      using link_okD(4)[OF ok x] pred[OF x(1), of y] s(1) by auto
  qed
qed

lemma link_ok_unlink_i:
  assumes ok: "link_ok h" and s: "h s = Some sa" "sa_nexti sa = Some n" and n: "h n = Some na"
  shows "link_ok (h(n := Some (na\<lparr>sa_previ := None\<rparr>), s := Some (sa\<lparr>sa_nexti := None\<rparr>)))" "n \<noteq> s"
proof -
  have na: "sa_previ na = Some s" "sa_prevr na = None" "sa_nexti na = None" "sa_nextr na = None"
    using link_okD(1)[OF ok s] n by auto
  then show ns: "n \<noteq> s"
    using s n by auto
  have nos: "y \<noteq> s" if "h x = Some xa" "sa_nexti xa = Some y \<or> sa_nextr xa = Some y" for x xa y
    using link_okD(1,2)[OF ok that(1), of y] that(2) s by auto
  show "link_ok (h(n := Some (na\<lparr>sa_previ := None\<rparr>), s := Some (sa\<lparr>sa_nexti := None\<rparr>)))"
    unfolding link_ok_def
  proof (intro allI impI conjI, goal_cases)
    case (1 x xa y)
    then have x: "h x = Some xa" "x \<noteq> s"
      using na(3) by (auto split: if_splits)
    then show ?case
      using link_okD(1)[OF ok x(1) 1(2)] nos[OF x(1), of y] na(1) n 1(2) by auto
  next
    case (2 x xa y)
    then obtain xb where x: "h x = Some xb" "sa_nextr xb = Some y"
      using na(4) s by (auto split: if_splits)
    then show ?case
      using link_okD(2)[OF ok x] nos[OF x(1), of y] na(2) n by auto
  next
    case (3 x xa y)
    then obtain xb where x: "h x = Some xb" "sa_previ xb = Some y" "x \<noteq> n"
      using s ns by (auto split: if_splits)
    then show ?case
      using link_okD(3)[OF ok x(1,2)] na(3) n s by auto
  next
    case (4 x xa y)
    then obtain xb where x: "h x = Some xb" "sa_prevr xb = Some y"
      using s na(2) by (auto split: if_splits)
    then show ?case
      using link_okD(4)[OF ok x] na(4) n s(1) by auto
  qed
qed

lemma flip_sa_prev [simp]: "(flip_sa sa)\<lparr>sa_previ := n\<rparr> = flip_sa (sa\<lparr>sa_prevr := n\<rparr>)"
  by (simp add: flip_sa_def)

lemma link_ok_link_r:
  assumes "link_ok h" "h s = Some sa" "sa_nextr sa = None" "sa_previ sa = None" "sa_prevr sa = None"
    and "h n = Some na" "link_view na = [None, None, None, None]" "n \<noteq> s"
  shows "link_ok (h(s := Some (sa\<lparr>sa_nextr := Some n\<rparr>), n := Some (na\<lparr>sa_prevr := Some s\<rparr>)))"
proof -
  have "link_ok ((map_option flip_sa \<circ> h)(s := Some (flip_sa sa\<lparr>sa_nexti := Some n\<rparr>), n := Some (flip_sa na\<lparr>sa_previ := Some s\<rparr>)))"
    using assms by (intro link_ok_link_i link_ok_flip) (simp_all add: link_view_def)
  also have "(map_option flip_sa \<circ> h)(s := Some (flip_sa sa\<lparr>sa_nexti := Some n\<rparr>), n := Some (flip_sa na\<lparr>sa_previ := Some s\<rparr>)) =
      map_option flip_sa \<circ> h(s := Some (sa\<lparr>sa_nextr := Some n\<rparr>), n := Some (na\<lparr>sa_prevr := Some s\<rparr>))"
    by auto
  finally show ?thesis
    by (simp only: link_ok_flip_iff)
qed

lemma link_ok_unlink_r:
  assumes "link_ok h" "h s = Some sa" "sa_nextr sa = Some n" "h n = Some na"
  shows "link_ok (h(n := Some (na\<lparr>sa_prevr := None\<rparr>), s := Some (sa\<lparr>sa_nextr := None\<rparr>)))" "n \<noteq> s"
proof -
  note u = link_ok_unlink_i[OF link_ok_flip[OF assms(1)], of s "flip_sa sa" n "flip_sa na"]
  have "link_ok ((map_option flip_sa \<circ> h)(n := Some (flip_sa na\<lparr>sa_previ := None\<rparr>), s := Some (flip_sa sa\<lparr>sa_nexti := None\<rparr>)))"
    using u assms by simp
  also have "(map_option flip_sa \<circ> h)(n := Some (flip_sa na\<lparr>sa_previ := None\<rparr>), s := Some (flip_sa sa\<lparr>sa_nexti := None\<rparr>)) =
      map_option flip_sa \<circ> h(n := Some (na\<lparr>sa_prevr := None\<rparr>), s := Some (sa\<lparr>sa_nextr := None\<rparr>))"
    by auto
  finally show "link_ok (h(n := Some (na\<lparr>sa_prevr := None\<rparr>), s := Some (sa\<lparr>sa_nextr := None\<rparr>)))"
    by (simp only: link_ok_flip_iff)
  show "n \<noteq> s"
    using u(2) assms by simp
qed

lemma rekey_link_ok:
  assumes inv: "env_inv env" and s: "sa_heap env s = Some sa" "sa_previ sa = None" "sa_prevr sa = None"
    and n: "sa_heap env n = Some na" "link_view na = [None, None, None, None]" "n \<noteq> s"
  shows "sa_nexti sa = None \<Longrightarrow> \<exists>env'. rekey_link_i env s n = Some env' \<and> env_inv env'"
    "sa_nextr sa = None \<Longrightarrow> \<exists>env'. rekey_link_r env s n = Some env' \<and> env_inv env'"
proof -
  have i: "tables_inv env" "link_ok (sa_heap env)"
    using inv by (simp_all add: env_inv_def)
  show "\<exists>env'. rekey_link_i env s n = Some env' \<and> env_inv env'" if "sa_nexti sa = None"
    using two_put[OF s(1) n(1,3) i(1), of "sa\<lparr>sa_nexti := Some n\<rparr>" "na\<lparr>sa_previ := Some s\<rparr>"]
      link_ok_link_i[OF i(2) s(1) that s(2,3) n] s(1) n by (simp add: rekey_link_i_def env_inv_def)
  show "\<exists>env'. rekey_link_r env s n = Some env' \<and> env_inv env'" if "sa_nextr sa = None"
    using two_put[OF s(1) n(1,3) i(1), of "sa\<lparr>sa_nextr := Some n\<rparr>" "na\<lparr>sa_prevr := Some s\<rparr>"]
      link_ok_link_r[OF i(2) s(1) that s(2,3) n] s(1) n by (simp add: rekey_link_r_def env_inv_def)
qed

lemma rekey_unlink_ok:
  assumes inv: "env_inv env" and s: "sa_heap env s = Some sa"
  shows "sa_nexti sa = Some n \<Longrightarrow> \<exists>env'. rekey_unlink_i env s = Some env' \<and> env_inv env'"
    "sa_nextr sa = Some n \<Longrightarrow> \<exists>env'. rekey_unlink_r env s = Some env' \<and> env_inv env'"
proof -
  have i: "tables_inv env" "link_ok (sa_heap env)"
    using inv by (simp_all add: env_inv_def)
  show "\<exists>env'. rekey_unlink_i env s = Some env' \<and> env_inv env'" if n: "sa_nexti sa = Some n"
  proof -
    obtain na where na: "sa_heap env n = Some na"
      using link_okD(1)[OF i(2) s n] by blast
    note u = link_ok_unlink_i[OF i(2) s n na]
    show ?thesis
      using two_put[OF na s u(2)[symmetric] i(1), of "na\<lparr>sa_previ := None\<rparr>" "sa\<lparr>sa_nexti := None\<rparr>"] u s n na
      by (simp add: rekey_unlink_i_def env_inv_def)
  qed
  show "\<exists>env'. rekey_unlink_r env s = Some env' \<and> env_inv env'" if n: "sa_nextr sa = Some n"
  proof -
    obtain na where na: "sa_heap env n = Some na"
      using link_okD(2)[OF i(2) s n] by blast
    note u = link_ok_unlink_r[OF i(2) s n na]
    show ?thesis
      using two_put[OF na s u(2)[symmetric] i(1), of "na\<lparr>sa_prevr := None\<rparr>" "sa\<lparr>sa_nextr := None\<rparr>"] u s n na
      by (simp add: rekey_unlink_r_def env_inv_def)
  qed
qed

end
