(* ===== verification/Sa_Step.thy ===== *)
theory Sa_Step
  imports Sa_Inv
begin

section \<open>Histories of the SA tables\<close>

text \<open>
  The operations of theory \<open>Sa\<close> as the steps of the daemon, the states that it can reach from an
  empty configuration, and what holds in all of them.
\<close>

unbundle bit_operations_syntax

definition init_env :: iked where
  "init_env = \<lparr>pol_heap = Map.empty, sa_heap = Map.empty, sc_policies = [], sc_sas = Leaf, sc_dstid_sas = Leaf,
     sc_defaultcon = None, ikes_sa_created = 0, ikes_sa_established_total = 0, ikes_sa_established_current = 0,
     ikes_sa_established_failures = 0, ikes_sa_removed = 0\<rparr>"

text \<open>
  A step calls an operation the way the daemon calls it: with SAs and policies that are not freed, an
  allocation at a free address, an entry of the identity table that is (not) valid as its callers
  check, an established SA that is only closed, and a rekeying of an SA that is not itself waiting to
  replace another one.  \<open>other\<close> is any change of an SA that keeps what the tables are sorted by.
\<close>

inductive iked_step :: "iked \<Rightarrow> iked \<Rightarrow> bool" where
  new: "sa_heap env new = None \<Longrightarrow> pol_heap env p \<noteq> None \<Longrightarrow> config_getspi rnd \<noteq> None \<Longrightarrow>
    sa_new p2id ok rnd new env ispi rspi initiator (Some p) = Some (r, env') \<Longrightarrow> iked_step env env'"
| free: "sa_heap env s \<noteq> None \<Longrightarrow> sa_free env s = Some env' \<Longrightarrow> iked_step env env'"
| state: "sa_heap env s = Some sa \<Longrightarrow>
    sa_state_of sa = IKEV2_STATE_ESTABLISHED \<longrightarrow>
      st = IKEV2_STATE_ESTABLISHED \<or> st = IKEV2_STATE_CLOSING \<or> st = IKEV2_STATE_CLOSED \<Longrightarrow>
    sa_state env s st = Some env' \<Longrightarrow> iked_step env env'"
| dstid_insert: "sa_heap env s = Some sa \<Longrightarrow> \<not> sa_dstid_entry_valid sa \<Longrightarrow> sa_dstid_checked sa \<noteq> None \<Longrightarrow>
    sa_dstid_insert env s = Some (r, env') \<Longrightarrow> iked_step env env'"
| dstid_remove: "sa_heap env s = Some sa \<Longrightarrow> sa_dstid_entry_valid sa \<Longrightarrow>
    sa_dstid_remove env s = Some env' \<Longrightarrow> iked_step env env'"
| link_i: "sa_heap env s = Some sa \<Longrightarrow> sa_nexti sa = None \<Longrightarrow> sa_previ sa = None \<Longrightarrow> sa_prevr sa = None \<Longrightarrow>
    sa_heap env n = Some na \<Longrightarrow> link_view na = [None, None, None, None] \<Longrightarrow> n \<noteq> s \<Longrightarrow>
    rekey_link_i env s n = Some env' \<Longrightarrow> iked_step env env'"
| link_r: "sa_heap env s = Some sa \<Longrightarrow> sa_nextr sa = None \<Longrightarrow> sa_previ sa = None \<Longrightarrow> sa_prevr sa = None \<Longrightarrow>
    sa_heap env n = Some na \<Longrightarrow> link_view na = [None, None, None, None] \<Longrightarrow> n \<noteq> s \<Longrightarrow>
    rekey_link_r env s n = Some env' \<Longrightarrow> iked_step env env'"
| unlink_i: "sa_heap env s = Some sa \<Longrightarrow> sa_nexti sa \<noteq> None \<Longrightarrow> rekey_unlink_i env s = Some env' \<Longrightarrow> iked_step env env'"
| unlink_r: "sa_heap env s = Some sa \<Longrightarrow> sa_nextr sa \<noteq> None \<Longrightarrow> rekey_unlink_r env s = Some env' \<Longrightarrow> iked_step env env'"
| add_policy: "pol_heap env p = None \<Longrightarrow> \<not> has_flag pol IKED_POLICY_REFCNT \<Longrightarrow> \<not> has_flag pol IKED_POLICY_DEFAULT \<Longrightarrow>
    pol_refcnt pol = 0 \<Longrightarrow> pol_sapeers pol = [] \<Longrightarrow> add_policy env p pol = Some env' \<Longrightarrow> iked_step env env'"
| free_policy: "p \<in> set (sc_policies env) \<Longrightarrow> config_free_policy env p = Some env' \<Longrightarrow> iked_step env env'"
| other: "sa_heap env s = Some sa \<Longrightarrow> sh_ispi sa' = sh_ispi sa \<Longrightarrow> sh_initiator sa' = sh_initiator sa \<Longrightarrow>
    sa_dstid_entry_valid sa' = sa_dstid_entry_valid sa \<Longrightarrow> sa_dstid_entry_valid sa \<longrightarrow> IKESA_DSTID sa' = IKESA_DSTID sa \<Longrightarrow>
    sa_policy sa' = sa_policy sa \<Longrightarrow> sa_state_of sa' = sa_state_of sa \<Longrightarrow> link_view sa' = link_view sa \<Longrightarrow>
    iked_step env (put_sa s sa' env)"

abbreviation reachable :: "iked \<Rightarrow> bool" where
  "reachable \<equiv> iked_step\<^sup>*\<^sup>* init_env"

lemma env_inv_init: "env_inv init_env"
  by (simp add: env_inv_def tables_inv_def tab_inv_def dst_inv_def pol_inv_def stat_inv_def link_ok_def init_env_def
      rb_ok_def rb_inv_def rb_sorted_def dst_valid_def pol_ok_def sa_pols_def established_def)

text \<open>An SA without an entry in the identity table may change its identity.\<close>

lemma dst_inv_other:
  assumes inv: "dst_inv env" and sa: "sa_heap env s = Some sa" "\<not> sa_dstid_entry_valid sa" "\<not> sa_dstid_entry_valid sa'"
  shows "dst_inv (put_sa s sa' env)"
proof -
  let ?env = "put_sa s sa' env"
  have ok: "rb_ok (dstid_cmp env) (dst_live env) (sc_dstid_sas env)" "set (inorder (sc_dstid_sas env)) = dst_valid env"
    using inv by (simp_all add: dst_inv_def)
  have val: "dst_valid ?env = dst_valid env" "s \<notin> dst_valid env"
    using sa by (auto simp: dst_valid_def)
  have "dst_valid env \<subseteq> dst_live env"
    using ok unfolding rb_ok_def rb_sorted_def by simp
  moreover have "x \<in> dst_live ?env" if "x \<in> dst_live env" "x \<noteq> s" for x
    using that by (simp add: dst_live_def)
  ultimately have "dst_valid env \<subseteq> dst_live ?env"
    using val(2) by blast
  then have "rb_ok (dstid_cmp ?env) (dst_live ?env) (sc_dstid_sas env)"
    using val(2) ok(2) by (intro rb_ok_cong[OF ok(1)]) (auto simp: dstid_cmp_def)
  then show ?thesis
    by (simp add: dst_inv_def ok(2) val(1))
qed

lemma other_ok:
  assumes inv: "env_inv env" and sa: "sa_heap env s = Some sa" "sh_ispi sa' = sh_ispi sa" "sh_initiator sa' = sh_initiator sa"
    and "sa_dstid_entry_valid sa' = sa_dstid_entry_valid sa" "sa_dstid_entry_valid sa \<longrightarrow> IKESA_DSTID sa' = IKESA_DSTID sa"
      "sa_policy sa' = sa_policy sa" "sa_state_of sa' = sa_state_of sa" "link_view sa' = link_view sa"
  shows "env_inv (put_sa s sa' env)"
proof (cases "sa_dstid_entry_valid sa")
  case True
  then show ?thesis
    using assms by (intro put_sa_env_inv[OF inv sa]) (simp_all add: dst_view_def)
next
  case False
  have i: "tab_inv {} env" "dst_inv env" "pol_inv env" "stat_inv env" "link_ok (sa_heap env)"
    using inv by (simp_all add: env_inv_def tables_inv_def)
  show ?thesis
    using put_sa_tables[OF sa] dst_inv_other[OF i(2) sa(1), of sa'] link_ok_fields[OF i(5) sa(1), of sa'] i False assms(5-9)
    by (simp add: env_inv_def tables_inv_def)
qed

lemma dstid_flag_other:
  assumes "env_inv env" "sa_heap env s = Some sa" "dst_inv (put_sa s (sa\<lparr>sa_dstid_entry_valid := b\<rparr>) (env\<lparr>sc_dstid_sas := t\<rparr>))"
  shows "env_inv (put_sa s (sa\<lparr>sa_dstid_entry_valid := b\<rparr>) (env\<lparr>sc_dstid_sas := t\<rparr>))"
proof -
  let ?sa = "sa\<lparr>sa_dstid_entry_valid := b\<rparr>" and ?env = "env\<lparr>sc_dstid_sas := t\<rparr>"
  have i: "tab_inv {} env" "pol_inv env" "stat_inv env" "link_ok (sa_heap env)"
    using assms(1) by (simp_all add: env_inv_def tables_inv_def)
  have "tab_inv {} ?env"
    by (rule tab_inv_cong[OF i(1)]) simp_all
  moreover have "pol_inv ?env" "stat_inv ?env" "sa_heap ?env s = Some sa"
    using i assms(2) by (simp_all add: pol_inv_def stat_inv_def)
  ultimately show ?thesis
    using put_sa_tables(1,3,4)[of ?env s sa ?sa] link_ok_fields[OF i(4) assms(2), of ?sa] assms(3)
    by (simp add: env_inv_def tables_inv_def link_view_def)
qed

lemma add_policy_ok:
  assumes inv: "env_inv env" and "pol_heap env p = None" "\<not> has_flag pol IKED_POLICY_REFCNT" "\<not> has_flag pol IKED_POLICY_DEFAULT"
    "pol_refcnt pol = 0" "pol_sapeers pol = []"
  shows "\<exists>env'. add_policy env p pol = Some env' \<and> env_inv env'"
proof -
  let ?env = "(put_pol p pol env)\<lparr>sc_policies := sc_policies env @ [p]\<rparr>" and ?P = "sa_pols (sa_heap env)"
  have i: "tab_inv {} env" "dst_inv env" "pol_ok (pol_heap env) (sc_policies env) ?P" "stat_inv env" "link_ok (sa_heap env)"
    using inv by (simp_all add: env_inv_def tables_inv_def pol_inv_def)
  have new: "p \<notin> set (sc_policies env)" "\<And>s. ?P s \<noteq> Some p"
    using i(3) assms(2) unfolding pol_ok_def by (auto, metis option.distinct(1))
  have "pol_ok ((pol_heap env)(p := Some pol)) (sc_policies env @ [p]) ?P"
    using i(3) new assms(3,5,6) unfolding pol_ok_def pol_good_def by (auto split: if_splits)
  then have "pol_inv ?env"
    by (simp add: pol_inv_def)
  moreover have "tab_inv {} ?env" "dst_inv ?env" "stat_inv ?env" "link_ok (sa_heap ?env)"
    using i tab_inv_cong[OF i(1), of ?env] dst_inv_cong[OF i(2), of ?env] by (simp_all add: stat_inv_def put_pol_def)
  ultimately show ?thesis
    using assms(4) by (simp add: add_policy_def env_inv_def tables_inv_def Let_def)
qed

lemma free_policy_inv:
  assumes inv: "env_inv env" and p: "p \<in> set (sc_policies env)"
  shows "\<exists>env'. config_free_policy env p = Some env' \<and> env_inv env' \<and> sa_heap env' = sa_heap env \<and>
    sc_policies env' = remove1 p (sc_policies env) \<and> sc_defaultcon env' = sc_defaultcon env \<and>
    (\<forall>q. q \<noteq> p \<longrightarrow> pol_heap env' q = pol_heap env q) \<and>
    (pol_heap env' p = None \<longleftrightarrow> (\<forall>s sa. sa_heap env s = Some sa \<longrightarrow> sa_policy sa \<noteq> Some p))"
proof -
  have i: "tab_inv {} env" "dst_inv env" "pol_inv env" "stat_inv env" "link_ok (sa_heap env)"
    using inv by (simp_all add: env_inv_def tables_inv_def)
  obtain pol pols where f: "pol_heap env p = Some pol"
      "config_free_policy env p = Some (env\<lparr>pol_heap := pols, sc_policies := remove1 p (sc_policies env)\<rparr>)"
      "pol_inv (env\<lparr>pol_heap := pols, sc_policies := remove1 p (sc_policies env)\<rparr>)"
      "pols p = None \<longleftrightarrow> pol_sapeers pol = []" "\<forall>q. q \<noteq> p \<longrightarrow> pols q = pol_heap env q"
    using config_free_policy_ok[OF i(3) p] by (elim exE conjE) (rule that)
  let ?env = "env\<lparr>pol_heap := pols, sc_policies := remove1 p (sc_policies env)\<rparr>"
  have "pol_good (sc_policies env) (sa_pols (sa_heap env)) p pol"
    using i(3) f(1) by (simp add: pol_inv_def pol_ok_def)
  then have "set (pol_sapeers pol) = {s. sa_pols (sa_heap env) s = Some p}"
    by (simp add: pol_good_def)
  then have "pol_sapeers pol = [] \<longleftrightarrow> (\<forall>s sa. sa_heap env s = Some sa \<longrightarrow> sa_policy sa \<noteq> Some p)"
    by (auto simp: sa_pols_def bind_eq_Some_conv simp flip: set_empty)
  moreover have "tab_inv {} ?env" "dst_inv ?env" "stat_inv ?env" "link_ok (sa_heap ?env)"
    using i tab_inv_cong[OF i(1), of ?env] dst_inv_cong[OF i(2), of ?env] by (simp_all add: stat_inv_def)
  ultimately show ?thesis
    using f by (intro exI[of _ ?env]) (simp add: env_inv_def tables_inv_def)
qed

lemma iked_step_inv:
  assumes "iked_step env env'" "env_inv env"
  shows "env_inv env'"
  using assms
proof (induction rule: iked_step.induct)
  case (new env new p rnd p2id ok ispi rspi initiator r env')
  then obtain x where "config_getspi rnd = Some x"
    by blast
  from sa_new_ok[OF new(5,1) this new(2), of p2id ok ispi rspi initiator] show ?case
    using new(4) by auto
next
  case (free env s env')
  then show ?case
    using sa_free_ok[OF free(3)] by fastforce
next
  case (state env s sa st env')
  then show ?case
    using sa_state_ok[OF state(4,1,2)] by fastforce
next
  case (dstid_insert env s sa r env')
  have "dst_inv env" "sa \<in> checked"
    using dstid_insert by (simp_all add: env_inv_def tables_inv_def checked_def)
  then show ?case
    using sa_dstid_insert_ok[of env s sa] dstid_insert dstid_flag_other[OF dstid_insert(5,1)] by auto
next
  case (dstid_remove env s sa env')
  have "dst_inv env"
    using dstid_remove by (simp add: env_inv_def tables_inv_def)
  then show ?case
    using sa_dstid_remove_ok[of env s sa] dstid_remove dstid_flag_other[OF dstid_remove(4,1)] by auto
next
  case (link_i env s sa n na env')
  then show ?case
    using rekey_link_ok(1)[OF link_i(9,1,3,4,5,6,7)] by auto
next
  case (link_r env s sa n na env')
  then show ?case
    using rekey_link_ok(2)[OF link_r(9,1,3,4,5,6,7)] by auto
next
  case (unlink_i env s sa env')
  then show ?case
    using rekey_unlink_ok(1)[OF unlink_i(4,1)] by auto
next
  case (unlink_r env s sa env')
  then show ?case
    using rekey_unlink_ok(2)[OF unlink_r(4,1)] by auto
next
  case (add_policy env p pol env')
  then show ?case
    using add_policy_ok[OF add_policy(7,1-5)] by auto
next
  case (free_policy p env env')
  then show ?case
    using free_policy_inv by fastforce
next
  case (other env s sa sa')
  then show ?case
    by (intro other_ok[of env s sa]) auto
qed

lemma reachable_inv: "reachable env \<Longrightarrow> env_inv env"
  by (induction rule: rtranclp_induct) (use env_inv_init iked_step_inv in blast)+

abbreviation demo_pol :: iked_policy where
  "demo_pol \<equiv> plain_policy 0 2 any_addr"

abbreviation demo_sa :: iked_sa where
  "demo_sa \<equiv> new_sa\<lparr>sh_initiator := True, sh_ispi := 7, sa_policy := Some 1, sa_stateinit := 9, sa_statevalid := 50\<rparr>"

definition demo_env :: iked where
  "demo_env = init_env\<lparr>pol_heap := [1 \<mapsto> demo_pol\<lparr>pol_sapeers := [5]\<rparr>], sa_heap := [5 \<mapsto> demo_sa],
     sc_policies := [1], sc_sas := Node Black Leaf 5 Leaf, ikes_sa_created := 1\<rparr>"

lemma demo_steps:
  "add_policy init_env 1 demo_pol = Some (init_env\<lparr>pol_heap := [1 \<mapsto> demo_pol], sc_policies := [1]\<rparr>)"
  "sa_new (\<lambda>_. Some no_id) True [7] 5 (init_env\<lparr>pol_heap := [1 \<mapsto> demo_pol], sc_policies := [1]\<rparr>) 0 0 True (Some 1) =
     Some (Some 5, demo_env)"
  subgoal
    by (simp add: add_policy_def plain_policy_def init_env_def put_pol_def)
  subgoal
    by (simp add: sa_new_def sa_new_get_def config_new_sa_def live_tree_def RB_INSERT_def RB_INSERT_COLOR.simps
      sa_new_policy_def policy_ref_def put_pol_def put_sa_def required_flags_def demo_env_def init_env_def new_sa_def no_id_def plain_policy_def)
  done

lemma demo_reachable: "reachable demo_env"
proof -
  have "iked_step init_env (init_env\<lparr>pol_heap := [1 \<mapsto> demo_pol], sc_policies := [1]\<rparr>)"
    using demo_steps(1) by (intro iked_step.add_policy) (simp_all add: init_env_def plain_policy_def)
  moreover have "iked_step (init_env\<lparr>pol_heap := [1 \<mapsto> demo_pol], sc_policies := [1]\<rparr>) demo_env"
    using demo_steps(2) by (intro iked_step.new) (simp_all add: init_env_def)
  ultimately show ?thesis
    by simp
qed

lemma demo_heap: "sa_heap demo_env 5 = Some demo_sa" "sa_heap demo_env s = Some sa \<Longrightarrow> s = 5 \<and> sa = demo_sa"
  "pol_heap demo_env 1 = Some (demo_pol\<lparr>pol_sapeers := [5]\<rparr>)" "sc_policies demo_env = [1]"
  by (auto simp: demo_env_def split: if_splits)

lemma env_inv_policy:
  assumes "env_inv env" "sa_heap env s = Some sa" "sa_policy sa = Some p"
  shows "\<exists>pol. pol_heap env p = Some pol \<and> s \<in> set (pol_sapeers pol) \<and> distinct (pol_sapeers pol) \<and>
    (has_flag pol IKED_POLICY_REFCNT \<longrightarrow> pol_refcnt pol = int (length (pol_sapeers pol)))"
proof -
  have "pol_ok (pol_heap env) (sc_policies env) (sa_pols (sa_heap env))" "sa_pols (sa_heap env) s = Some p"
    using assms by (simp_all add: sa_pols_def env_inv_def tables_inv_def pol_inv_def)
  then obtain pol where "pol_heap env p = Some pol" "pol_good (sc_policies env) (sa_pols (sa_heap env)) p pol"
      "s \<in> set (pol_sapeers pol)"
    by (rule pol_okD)
  then show ?thesis
    by (auto simp: pol_good_def split: if_splits)
qed





text \<open>
  C9: \<^verbatim>\<open>sa_lookup\<close> returns the SA with the given role and initiator SPI, unless both responder SPIs are
  known and differ, and \<open>NULL\<close> exactly when there is none.
\<close>

theorem sa_lookup_correct:
  assumes "reachable env"
  shows "\<exists>r. sa_lookup env ispi rspi initiator = Some r \<and>
    (\<forall>s. r = Some s \<longleftrightarrow> (\<exists>sa. sa_heap env s = Some sa \<and> sh_initiator sa = initiator \<and> sh_ispi sa = ispi \<and>
        (sh_rspi sa = 0 \<or> rspi = 0 \<or> sh_rspi sa = rspi)))"
  using reachable_inv[OF assms] by (intro sa_lookup_ok) (simp_all add: env_inv_def tables_inv_def stat_inv_def)

theorem sa_lookup_correct_witness: "sa_lookup demo_env 7 3 True = Some (Some 5) \<and> sa_lookup demo_env 8 0 True = Some None"
proof -
  obtain r where r: "sa_lookup demo_env 7 3 True = Some r" "r = Some 5"
    using sa_lookup_correct[OF demo_reachable, of 7 3 True] demo_heap(1) by (auto simp: new_sa_def)
  obtain q where "sa_lookup demo_env 8 0 True = Some q" "q = Some s \<Longrightarrow> False" for s
    using sa_lookup_correct[OF demo_reachable, of 8 0 True] demo_heap(2) by (fastforce simp: new_sa_def)
  then show ?thesis
    using r by (cases q) auto
qed

text \<open>
  C10: Creating an SA never ends in \<^verbatim>\<open>fatalx\<close> or in freed memory when the caller passes a policy in use;
  the SA that \<^verbatim>\<open>sa_new\<close> returns is in the tables, has the requested role and a policy.
\<close>

theorem sa_new_safe:
  assumes "reachable env" "sa_heap env new = None" "config_getspi rnd = Some x" "pol_heap env p \<noteq> None"
  shows "\<exists>r env'. sa_new p2id ok rnd new env ispi rspi initiator (Some p) = Some (r, env') \<and> env_inv env' \<and>
     (\<forall>s. r = Some s \<longrightarrow> (\<exists>sa q. sa_heap env' s = Some sa \<and> sh_initiator sa = initiator \<and> sa_policy sa = Some q))"
  by (rule sa_new_ok[OF reachable_inv[OF assms(1)] assms(2-4)])

theorem sa_new_safe_witness:
  "\<exists>r env'. sa_new (\<lambda>_. None) True [0, 9] 6 demo_env 3 0 False (Some 1) = Some (r, env') \<and> env_inv env'"
  using sa_new_safe[OF demo_reachable, of 6 "[0, 9]" 9 1 "\<lambda>_. None" True 3 0 False] by (auto simp: demo_env_def)

text \<open>
  C11: Removing a policy from the configuration frees it exactly when no SA uses it; otherwise it stays
  until its last SA is freed, and nothing but the list and this policy changes.
\<close>

theorem config_free_policy_deferred:
  assumes "reachable env" "p \<in> set (sc_policies env)"
  shows "\<exists>env'. config_free_policy env p = Some env' \<and> env_inv env' \<and> sa_heap env' = sa_heap env \<and>
    sc_policies env' = remove1 p (sc_policies env) \<and> sc_defaultcon env' = sc_defaultcon env \<and>
    (\<forall>q. q \<noteq> p \<longrightarrow> pol_heap env' q = pol_heap env q) \<and>
    (pol_heap env' p = None \<longleftrightarrow> (\<forall>s sa. sa_heap env s = Some sa \<longrightarrow> sa_policy sa \<noteq> Some p))"
  by (rule free_policy_inv[OF reachable_inv[OF assms(1)] assms(2)])

theorem config_free_policy_deferred_witness:
  "\<exists>env'. config_free_policy demo_env 1 = Some env' \<and> pol_heap env' 1 \<noteq> None \<and> sc_policies env' = []"
proof -
  have "1 \<in> set (sc_policies demo_env)"
    by (simp add: demo_heap(4))
  from config_free_policy_deferred[OF demo_reachable this] obtain env' where
      e: "config_free_policy demo_env 1 = Some env'" "sc_policies env' = remove1 1 (sc_policies demo_env)"
      "pol_heap env' 1 = None \<longleftrightarrow> (\<forall>s sa. sa_heap demo_env s = Some sa \<longrightarrow> sa_policy sa \<noteq> Some 1)"
    by (elim exE conjE) (rule that)
  have "sa_policy demo_sa = Some 1"
    by simp
  then have "pol_heap env' 1 \<noteq> None"
    using e(3) demo_heap(1) by blast
  then show ?thesis
    using e(1,2) demo_heap(4) by simp
qed

text \<open>Two more SAs, one of them a replacement of the first.\<close>

definition demo_env2 :: iked where
  "demo_env2 = demo_env\<lparr>pol_heap := [1 \<mapsto> demo_pol\<lparr>pol_sapeers := [5, 6]\<rparr>],
     sa_heap := [5 \<mapsto> demo_sa, 6 \<mapsto> demo_sa\<lparr>sh_ispi := 8\<rparr>],
     sc_sas := Node Black (Node Red Leaf 6 Leaf) 5 Leaf, ikes_sa_created := 2\<rparr>"

definition demo_env3 :: iked where
  "demo_env3 = demo_env\<lparr>pol_heap := [1 \<mapsto> demo_pol\<lparr>pol_sapeers := [5, 6, 7]\<rparr>],
     sa_heap := [5 \<mapsto> demo_sa, 6 \<mapsto> demo_sa\<lparr>sh_ispi := 8\<rparr>, 7 \<mapsto> demo_sa\<lparr>sh_ispi := 6\<rparr>],
     sc_sas := Node Black (Node Red Leaf 6 Leaf) 5 (Node Red Leaf 7 Leaf), ikes_sa_created := 3\<rparr>"

definition demo_env4 :: iked where
  "demo_env4 = demo_env3\<lparr>sa_heap := [5 \<mapsto> demo_sa\<lparr>sa_nextr := Some 6\<rparr>, 6 \<mapsto> demo_sa\<lparr>sh_ispi := 8, sa_prevr := Some 5\<rparr>,
     7 \<mapsto> demo_sa\<lparr>sh_ispi := 6\<rparr>]\<rparr>"

lemmas sa_new_eval = sa_new_def sa_new_get_def config_new_sa_def live_tree_def RB_INSERT_def RB_INSERT_COLOR.simps
  sas_cmp_def sa_cmp_def sa_new_policy_def policy_ref_def put_pol_def put_sa_def required_flags_def demo_env_def init_env_def
  new_sa_def no_id_def plain_policy_def

lemma demo_steps2:
  "sa_new (\<lambda>_. Some no_id) True [8] 6 demo_env 0 0 True (Some 1) = Some (Some 6, demo_env2)"
  by (simp add: sa_new_eval demo_env2_def)

lemma demo_steps3:
  "sa_new (\<lambda>_. Some no_id) True [6] 7 demo_env2 0 0 True (Some 1) = Some (Some 7, demo_env3)"
  by (simp add: sa_new_eval demo_env2_def demo_env3_def)

lemma demo_steps4: "rekey_link_r demo_env3 5 6 = Some demo_env4"
  by (simp add: rekey_link_r_def put_sa_def demo_env3_def demo_env4_def new_sa_def demo_env_def init_env_def fun_upd_twist)

lemma demo_reachable4: "reachable demo_env4"
proof -
  have "iked_step demo_env demo_env2"
    using demo_steps2 by (intro iked_step.new) (simp_all add: demo_env_def)
  moreover have "iked_step demo_env2 demo_env3"
    using demo_steps3 by (intro iked_step.new) (simp_all add: demo_env2_def)
  moreover have "iked_step demo_env3 demo_env4"
    using demo_steps4
    by (intro iked_step.link_r[of _ 5 demo_sa 6 "demo_sa\<lparr>sh_ispi := 8\<rparr>"]) (simp_all add: demo_env3_def link_view_def new_sa_def)
  ultimately show ?thesis
    using demo_reachable by (meson rtranclp.rtrancl_into_rtrancl)
qed

lemma mask_subset:
  fixes f :: u32
  assumes "f AND r = r" "r AND b = b"
  shows "f AND b = b"
  using assms by (metis and.assoc and.commute)



text \<open>
  C13: A second rekeying request of the peer while both sides rekey is not handled: it overwrites
  \<^verbatim>\<open>sa_nextr\<close>, and when the old SA is freed the first replacement keeps a pointer to it, which \<^verbatim>\<open>sa_free\<close>
  of this replacement follows.
\<close>

theorem rekey_twice_dangles:
  assumes "reachable env" "sa_heap env s = Some sa" "sa_nextr sa = Some r" "sa_nexti sa \<noteq> Some n"
    and "sa_heap env n = Some na" "link_view na = [None, None, None, None]" "n \<noteq> s"
  shows "\<exists>env1 env2. rekey_link_r env s n = Some env1 \<and> sa_free env1 s = Some env2 \<and>
    sa_heap env2 r \<noteq> None \<and> sa_free env2 r = None"
proof -
  have inv: "tables_inv env" "link_ok (sa_heap env)"
    using reachable_inv[OF assms(1)] by (simp_all add: env_inv_def)
  obtain ra where ra: "sa_heap env r = Some ra" "sa_prevr ra = Some s" "sa_previ ra = None" "sa_nexti ra = None" "sa_nextr ra = None"
    using link_okD(2)[OF inv(2) assms(2,3)] by blast
  have rn: "r \<noteq> n" "r \<noteq> s"
    using ra assms(2,3,5,6) by (auto simp: link_view_def)
  have prev: "sa_previ sa = None" "sa_prevr sa = None"
    using link_okD(3,4)[OF inv(2) assms(2)] link_okD(1,2)[OF inv(2)] assms(2,3) by (metis not_Some_eq option.inject)+
  let ?sa = "sa\<lparr>sa_nextr := Some n\<rparr>" and ?na = "na\<lparr>sa_prevr := Some s\<rparr>"
  let ?env = "put_sa n ?na (put_sa s ?sa env)"
  have t: "tables_inv ?env"
    by (rule two_put[OF assms(2,5,7) inv(1)]) simp_all
  have h: "sa_heap ?env s = Some ?sa"
    using assms(7) by simp
  have nx: "sa_heap env y \<noteq> None \<and> y \<noteq> s \<and> y \<noteq> r" if "sa_nexti sa = Some y" for y
    using link_okD(1)[OF inv(2) assms(2) that] ra assms(2,3) by auto
  have live: "y \<noteq> s \<and> sa_heap ?env y \<noteq> None" if "y \<in> successors ?sa" for y
    using that nx[of y] assms(5,7) by (auto simp: successors_def)
  have diff: "sa_nextr ?sa \<noteq> Some y" if "sa_nexti ?sa = Some y" for y
    using that assms(4) by auto
  obtain env2 where e: "sa_free ?env s = Some env2" "sa_heap env2 = sa_heap ?env |` (- insert s (successors ?sa))"
    using sa_free_drops[OF t h _ _ live diff] prev by auto
  have r2: "sa_heap env2 r = Some ra" "sa_heap env2 s = None"
    using e(2) rn ra(1) nx by (auto simp: restrict_map_def successors_def)
  then have "sa_free env2 r = None"
    using ra by (simp add: sa_free_def)
  moreover have "rekey_link_r env s n = Some ?env"
    using assms(2,5,7) by (simp add: rekey_link_r_def)
  ultimately show ?thesis
    using e(1) r2(1) by blast
qed

theorem rekey_twice_dangles_witness:
  "\<exists>env1 env2. rekey_link_r demo_env4 5 7 = Some env1 \<and> sa_free env1 5 = Some env2 \<and>
    sa_heap env2 6 \<noteq> None \<and> sa_free env2 6 = None"
  by (rule rekey_twice_dangles[OF demo_reachable4, of 5 "demo_sa\<lparr>sa_nextr := Some 6\<rparr>" 6 7 "demo_sa\<lparr>sh_ispi := 6\<rparr>"])
    (simp_all add: demo_env4_def link_view_def new_sa_def)

subsection \<open>Resetting the configuration\<close>

lemma reset_policies_ok:
  assumes "env_inv env" "set ps \<subseteq> set (sc_policies env)" "distinct ps"
  shows "\<exists>env'. reset_policies env ps = Some env' \<and> env_inv env' \<and> sa_heap env' = sa_heap env \<and>
    set (sc_policies env') = set (sc_policies env) - set ps \<and> sc_defaultcon env' = sc_defaultcon env \<and>
    (\<forall>q. q \<notin> set ps \<longrightarrow> pol_heap env' q = pol_heap env q) \<and>
    (\<forall>p\<in>set ps. pol_heap env' p = None \<longleftrightarrow> (\<forall>s sa. sa_heap env s = Some sa \<longrightarrow> sa_policy sa \<noteq> Some p))"
  using assms
proof (induction ps arbitrary: env)
  case (Cons p ps)
  have "p \<in> set (sc_policies env)"
    using Cons.prems by simp
  from free_policy_inv[OF Cons.prems(1) this] obtain env1 where
      e1: "config_free_policy env p = Some env1" "env_inv env1" "sa_heap env1 = sa_heap env"
      "sc_policies env1 = remove1 p (sc_policies env)" "sc_defaultcon env1 = sc_defaultcon env"
      "\<forall>q. q \<noteq> p \<longrightarrow> pol_heap env1 q = pol_heap env q"
      "pol_heap env1 p = None \<longleftrightarrow> (\<forall>s sa. sa_heap env s = Some sa \<longrightarrow> sa_policy sa \<noteq> Some p)"
    by (elim exE conjE) (rule that)
  have "distinct (sc_policies env)"
    using Cons.prems(1) by (simp add: env_inv_def tables_inv_def pol_inv_def pol_ok_def)
  then have scp: "set (sc_policies env1) = set (sc_policies env) - {p}"
    using e1(4) by (simp add: set_remove1_eq)
  have "set ps \<subseteq> set (sc_policies env1)" "distinct ps"
    using Cons.prems scp by auto
  from Cons.IH[OF e1(2) this] obtain env2 where
      e2: "reset_policies env1 ps = Some env2" "env_inv env2" "sa_heap env2 = sa_heap env1"
      "set (sc_policies env2) = set (sc_policies env1) - set ps" "sc_defaultcon env2 = sc_defaultcon env1"
      "\<forall>q. q \<notin> set ps \<longrightarrow> pol_heap env2 q = pol_heap env1 q"
      "\<forall>p\<in>set ps. pol_heap env2 p = None \<longleftrightarrow> (\<forall>s sa. sa_heap env1 s = Some sa \<longrightarrow> sa_policy sa \<noteq> Some p)"
    by (elim exE conjE) (rule that)
  have "p \<notin> set ps"
    using Cons.prems(3) by simp
  then show ?case
    using e1 e2 scp by (intro exI[of _ env2]) auto
qed simp

lemma tab_min:
  assumes "tab_inv {} env"
  shows "RB_MINMAX (sc_sas env) (- 1) = None \<longleftrightarrow> dom (sa_heap env) = {}"
    "RB_MINMAX (sc_sas env) (- 1) = Some s \<Longrightarrow> sa_heap env s \<noteq> None"
proof -
  have all: "set (inorder (sc_sas env)) = dom (sa_heap env)"
    using assms by (simp add: tab_inv_def)
  show "RB_MINMAX (sc_sas env) (- 1) = None \<longleftrightarrow> dom (sa_heap env) = {}"
    unfolding all[symmetric] by (simp add: RB_MINMAX_def leftmost_hd split: list.splits)
  show "sa_heap env s \<noteq> None" if "RB_MINMAX (sc_sas env) (- 1) = Some s"
  proof -
    have "s \<in> set (inorder (sc_sas env))"
      using that by (auto simp: RB_MINMAX_def leftmost_hd split: list.splits)
    then show ?thesis
      using all by blast
  qed
qed

lemma ike_sa_delete_ok:
  assumes inv: "tables_inv env" and sa: "sa_heap env s = Some sa"
  shows "ikev2_ike_sa_delete sent env s = Some (False, env) \<or>
    (\<exists>env'. ikev2_ike_sa_delete sent env s = Some (True, env') \<and> tables_inv env' \<and> dom (sa_heap env') = dom (sa_heap env) \<and>
      sc_policies env' = sc_policies env \<and> established (sa_heap env') = established (sa_heap env) - {s} \<and>
      s \<in> established (sa_heap env))"
proof (cases "sa_state_of sa = IKEV2_STATE_ESTABLISHED \<and> sa_stateflags_of sa AND (IKED_REQ_CHILDSA OR IKED_REQ_INF) = 0")
  case True
  let ?sa = "if sent then sa\<lparr>sa_stateflags_of := sa_stateflags_of sa OR IKED_REQ_INF\<rparr> else sa"
  let ?env = "if sent then put_sa s ?sa env else env"
  have "tables_inv (put_sa s ?sa env)"
    by (rule put_sa_tables_inv[OF inv sa]) (simp_all add: dst_view_def IKESA_DSTID_def)
  then have e: "tables_inv ?env" "sa_heap ?env s = Some ?sa" "sc_policies ?env = sc_policies env"
    using inv sa by (cases sent; simp)+
  have "sa_state_of ?sa = IKEV2_STATE_ESTABLISHED \<longrightarrow>
      IKEV2_STATE_CLOSED = IKEV2_STATE_ESTABLISHED \<or> IKEV2_STATE_CLOSED = IKEV2_STATE_CLOSING \<or> IKEV2_STATE_CLOSED = IKEV2_STATE_CLOSED"
    by simp
  from sa_state_tables[OF e(1,2) this] obtain env' where
      st: "sa_state ?env s IKEV2_STATE_CLOSED = Some env'" "tables_inv env'" "sc_policies env' = sc_policies env"
      "sa_heap env' = (sa_heap ?env)(s := Some (?sa\<lparr>sa_state_of := next_state ?sa IKEV2_STATE_CLOSED\<rparr>))"
    using e(3) by auto
  have "next_state ?sa IKEV2_STATE_CLOSED = IKEV2_STATE_CLOSED"
    by (simp add: next_state_def sa_stateok_def)
  then have "sa_heap env' = (sa_heap env)(s := Some (?sa\<lparr>sa_state_of := IKEV2_STATE_CLOSED\<rparr>))"
    using st(4) by auto
  then have "dom (sa_heap env') = dom (sa_heap env)" "established (sa_heap env') = established (sa_heap env) - {s}"
    using sa by (auto simp: established_upd)
  moreover have "ikev2_ike_sa_delete sent env s = Some (True, env')"
    using sa True st(1) by (simp add: ikev2_ike_sa_delete_def split: if_splits)
  moreover have "s \<in> established (sa_heap env)"
    using sa True by (simp add: established_def)
  ultimately show ?thesis
    using st(2,3) by blast
next
  case False
  then show ?thesis
    using sa by (auto simp: ikev2_ike_sa_delete_def)
qed

text \<open>Every round removes an SA or closes an established one.\<close>

lemma reset_sas_ok:
  assumes "tables_inv env"
  shows "\<exists>env'. reset_sas sent mode_all env = Some env' \<and> tables_inv env' \<and> dom (sa_heap env') = {} \<and>
    sc_policies env' = sc_policies env"
  using assms
proof (induction "card (dom (sa_heap env)) + card (established (sa_heap env))" arbitrary: env rule: less_induct)
  case less
  have inv: "tab_inv {} env" and fin: "finite (dom (sa_heap env))"
    using less.prems by (simp_all add: tables_inv_def stat_inv_def)
  then have fine: "finite (established (sa_heap env))"
    using established_dom finite_subset by blast
  show ?case
  proof (cases "RB_MINMAX (sc_sas env) (- 1)")
    case None
    then show ?thesis
      using less.prems tab_min(1)[OF inv] by (simp add: reset_sas.simps)
  next
    case (Some s)
    then obtain sa where sa: "sa_heap env s = Some sa"
      using tab_min(2)[OF inv] by blast
    obtain env1 where d: "sa_drop env s = Some env1" "tables_inv env1" "sa_heap env1 = (sa_heap env)(s := None)"
        "sc_policies env1 = sc_policies env"
      using sa_drop_ok[OF less.prems sa] by blast
    have "card (dom (sa_heap env1)) < card (dom (sa_heap env))"
      using d(3) sa fin by (auto intro!: psubset_card_mono)
    moreover have "card (established (sa_heap env1)) \<le> card (established (sa_heap env))"
      using fine by (auto simp: d(3) established_upd intro: card_mono)
    ultimately have small: "card (dom (sa_heap env1)) + card (established (sa_heap env1)) <
        card (dom (sa_heap env)) + card (established (sa_heap env))"
      by simp
    consider (drop) "(if mode_all then Some (False, env) else ikev2_ike_sa_delete (sent env s) env s) = Some (False, env)"
      | (close) env2 where "\<not> mode_all" "ikev2_ike_sa_delete (sent env s) env s = Some (True, env2)" "tables_inv env2"
        "dom (sa_heap env2) = dom (sa_heap env)" "sc_policies env2 = sc_policies env"
        "established (sa_heap env2) = established (sa_heap env) - {s}" "s \<in> established (sa_heap env)"
      using ike_sa_delete_ok[OF less.prems sa, of "sent env s"] by (cases mode_all) auto
    then show ?thesis
    proof cases
      case drop
      then show ?thesis
        using less.hyps[OF small d(2)] d(1,4) Some by (subst reset_sas.simps) simp
    next
      case close
      have "card (dom (sa_heap env2)) + card (established (sa_heap env2)) < card (dom (sa_heap env)) + card (established (sa_heap env))"
        using close(4,6) card_Diff1_less[OF fine close(7)] by simp
      from less.hyps[OF this close(3)] show ?thesis
        using close(1,2,5) Some by (subst reset_sas.simps) simp
    qed
  qed
qed

text \<open>
  C12: A reset of the SAs ends with no SA left, whatever messages can be sent; a reset of everything
  also frees every policy, and every SA that was ever created is counted as removed.
\<close>

theorem config_doreset_empties:
  assumes "reachable env" "mode_all \<or> mode_sa"
  shows "\<exists>env'. config_doreset sent mode_all mode_policy mode_sa env = Some env' \<and> sa_heap env' = Map.empty \<and>
    inorder (sc_sas env') = [] \<and> inorder (sc_dstid_sas env') = [] \<and> ikes_sa_removed env' = ikes_sa_created env' \<and>
    ikes_sa_established_current env' = 0 \<and> (mode_all \<or> mode_policy \<longrightarrow> pol_heap env' = Map.empty \<and> sc_policies env' = [])"
proof -
  let ?ps = "if mode_all \<or> mode_policy then sc_policies env else []"
  have inv: "env_inv env"
    by (rule reachable_inv[OF assms(1)])
  then have "distinct (sc_policies env)"
    by (simp add: env_inv_def tables_inv_def pol_inv_def pol_ok_def)
  then have "set ?ps \<subseteq> set (sc_policies env)" "distinct ?ps"
    by auto
  from reset_policies_ok[OF inv this] obtain env1 where e1: "reset_policies env ?ps = Some env1" "env_inv env1"
      "set (sc_policies env1) = set (sc_policies env) - set ?ps"
    by (elim exE conjE) (rule that)
  have "tables_inv env1"
    using e1(2) by (simp add: env_inv_def)
  from reset_sas_ok[OF this] obtain env2 where e2: "reset_sas sent mode_all env1 = Some env2" "tables_inv env2"
      "dom (sa_heap env2) = {}" "sc_policies env2 = sc_policies env1"
    by blast
  have run: "config_doreset sent mode_all mode_policy mode_sa env = Some env2"
    using e1(1) e2(1) assms(2) by (auto simp: config_doreset_def split: if_splits)
  have heap: "sa_heap env2 = Map.empty"
    using e2(3) by simp
  have "sa_pols (sa_heap env2) = (\<lambda>_. None)"
    by (intro ext) (simp add: heap sa_pols_def)
  then have i: "tab_inv {} env2" "dst_inv env2" "pol_ok (pol_heap env2) (sc_policies env2) (\<lambda>_. None)" "stat_inv env2"
    using e2(2) by (simp_all add: tables_inv_def pol_inv_def)
  have "pol_heap env2 = Map.empty \<and> sc_policies env2 = []" if "mode_all \<or> mode_policy"
  proof -
    have nil: "sc_policies env2 = []"
      using that e1(3) e2(4) by auto
    then have "pol_heap env2 p = None" for p
      using i(3) by (cases "pol_heap env2 p") (auto simp: pol_ok_def pol_good_def split: if_splits)
    then show ?thesis
      using nil by auto
  qed
  moreover have "inorder (sc_sas env2) = []" "inorder (sc_dstid_sas env2) = []"
    using i(1,2) heap by (simp_all add: tab_inv_def dst_inv_def dst_valid_def)
  moreover have "ikes_sa_removed env2 = ikes_sa_created env2" "ikes_sa_established_current env2 = 0"
    using i(4) heap by (simp_all add: stat_inv_def established_def)
  ultimately show ?thesis
    using run heap by blast
qed

theorem config_doreset_empties_witness:
  "\<exists>env'. config_doreset (\<lambda>_ _. True) False False True demo_env = Some env' \<and> sa_heap env' = Map.empty"
  using config_doreset_empties[OF demo_reachable, of False True "\<lambda>_ _. True" False] by auto

text \<open>
  C14: A reload frees the default policy and keeps the pointer to it.  \<^verbatim>\<open>config_doreset\<close> does not clear
  \<^verbatim>\<open>sc_defaultcon\<close>, so when no SA uses the default policy, the next policy with the default flag makes
  \<^verbatim>\<open>config_getpolicy\<close> free it a second time.
\<close>

theorem reload_default_dangles:
  assumes "env_inv env" "sc_defaultcon env = Some d" "d \<in> set (sc_policies env)"
    and "\<forall>s sa. sa_heap env s = Some sa \<longrightarrow> sa_policy sa \<noteq> Some d" "has_flag pol IKED_POLICY_DEFAULT" "p \<noteq> d"
  shows "\<exists>env'. config_doreset sent False True False env = Some env' \<and> sc_defaultcon env' = Some d \<and>
    pol_heap env' d = None \<and> add_policy env' p pol = None"
proof -
  have "distinct (sc_policies env)"
    using assms(1) by (simp add: env_inv_def tables_inv_def pol_inv_def pol_ok_def)
  from reset_policies_ok[OF assms(1) subset_refl this] obtain env1 where
      e1: "reset_policies env (sc_policies env) = Some env1" "sc_defaultcon env1 = sc_defaultcon env"
      "\<forall>p\<in>set (sc_policies env). pol_heap env1 p = None \<longleftrightarrow> (\<forall>s sa. sa_heap env s = Some sa \<longrightarrow> sa_policy sa \<noteq> Some p)"
    by (elim exE conjE) (rule that)
  have d: "pol_heap env1 d = None"
    using e1(3) assms(3,4) by blast
  then have "add_policy env1 p pol = None"
    using assms(2,5,6) e1(2) by (simp add: add_policy_def config_free_policy_def put_pol_def Let_def)
  then show ?thesis
    using e1(1,2) d assms(2) by (simp add: config_doreset_def)
qed

theorem reload_default_dangles_witness:
  "\<exists>env'. config_doreset (\<lambda>_ _. True) False True False
      (init_env\<lparr>pol_heap := [1 \<mapsto> plain_policy 1 2 any_addr], sc_policies := [1], sc_defaultcon := Some 1\<rparr>) = Some env' \<and>
    sc_defaultcon env' = Some 1 \<and> pol_heap env' 1 = None \<and> add_policy env' 2 (plain_policy 1 2 any_addr) = None"
proof (rule reload_default_dangles)
  show "env_inv (init_env\<lparr>pol_heap := [1 \<mapsto> plain_policy 1 2 any_addr], sc_policies := [1], sc_defaultcon := Some 1\<rparr>)"
    by (simp add: env_inv_def tables_inv_def tab_inv_def dst_inv_def pol_inv_def stat_inv_def link_ok_def init_env_def
      rb_ok_def rb_inv_def rb_sorted_def dst_valid_def pol_ok_def pol_good_def sa_pols_def established_def plain_policy_def)
qed (simp_all add: init_env_def plain_policy_def)

end
