(* ===== verification/Ikemsg.thy ===== *)
theory Ikemsg
  imports Sa
begin

section \<open>Protection of messages: iked/ikev2_msg.c, iked/util.c\<close>

text \<open>
  Encryption, integrity protection and decryption of the encrypted payload.  A buffer is the list of
  its readable bytes; the buffers these functions fill come from \<^verbatim>\<open>ibuf_static\<close> and \<^verbatim>\<open>ibuf_new\<close>, which
  hold at most \<open>IKED_MSGBUF_MAX\<close> bytes.  The SA is the object \<^verbatim>\<open>sa\<close> points to and is returned with its
  cipher and hash contexts updated; the list of Booleans holds the outcomes of the allocations.
\<close>

abbreviation (input) IKEV2_FLAG_INITIATOR :: byte where "IKEV2_FLAG_INITIATOR \<equiv> 0x08"

abbreviation (input) IKE_HDR_SIZE :: nat where "IKE_HDR_SIZE \<equiv> 28"

abbreviation (input) IKEV2_MAXLEN_IPV4_FRAG :: nat where "IKEV2_MAXLEN_IPV4_FRAG \<equiv> 576 - (20 + 8 + 28)"

abbreviation (input) IKEV2_MAXLEN_IPV6_FRAG :: nat where "IKEV2_MAXLEN_IPV6_FRAG \<equiv> 1280 - (40 + 8 + 28)"

text \<open>\<^verbatim>\<open>ibuf_add\<close> on a buffer of the size above.\<close>

definition buf_add :: "bool \<Rightarrow> byte list \<Rightarrow> byte list \<Rightarrow> byte list option" where
  "buf_add ok b d = (if IKED_MSGBUF_MAX < length b + length d \<or> \<not> ok then None else Some (b @ d))"

definition print_hex :: "nat \<Rightarrow> byte list \<Rightarrow> nat \<Rightarrow> nat \<Rightarrow> unit option" where
  "print_hex verbose buf off len =
     (if verbose < 3 \<or> len = 0 then Some () else map_option (\<lambda>_. ()) (mem_read buf off len))"

subsection \<open>Encryption\<close>

text \<open>The part of \<^verbatim>\<open>ikev2_msg_encrypt\<close> after the padding; \<open>src\<close> is the padded payload.\<close>

definition encrypt_padded ::
    "evp \<Rightarrow> (nat \<Rightarrow> byte) \<Rightarrow> bool list \<Rightarrow> iked_cipher \<Rightarrow> byte list option \<Rightarrow> iked_hash \<Rightarrow> byte list \<Rightarrow> byte list \<Rightarrow>
     (byte list option \<times> iked_cipher \<times> bool list) option" where
  "encrypt_padded ev rnd al encr enckey integr src aad = do {
     key \<leftarrow> enckey;
     let (ok, al) = next_ok al;
     let encr = cipher_setkey ok encr key;
     let (ok, al) = next_ok al;
     let encr = cipher_setiv ok rnd encr None;
     let (ok, al) = next_ok al;
     r \<leftarrow> cipher_init_encrypt ev ok encr;
     (case r of
        None \<Rightarrow> Some (None, encr, al)
      | Some encr \<Rightarrow> do {
          let (ok, al) = next_ok al;
          (case Option.bind (encr_iv encr) (buf_new ok) of
             None \<Rightarrow> Some (None, encr, al)
           | Some dst \<Rightarrow> do {
               let (ok, al) = next_ok al;
               let cap = cipher_outlength encr (length src);
               if \<not> ok \<or> IKED_MSGBUF_MAX < cap then Some (None, encr, al)
               else do {
                 encr \<leftarrow> (if hash_isaead integr then cipher_aad encr aad else Some encr);
                 u \<leftarrow> cipher_update ev encr src cap;
                 (case u of
                    Inl _ \<Rightarrow> Some (None, encr, al)
                  | Inr (out, outlen, encr) \<Rightarrow> do {
                      fin \<leftarrow> cipher_final ev encr;
                      ct \<leftarrow> mem_read out 0 outlen;
                      let (ok, al) = next_ok al;
                      let (ok', al) = next_ok al;
                      Some (if \<not> fin then None
                            else Option.bind (if outlen = 0 then Some dst else buf_add ok dst ct)
                                   (\<lambda>d. buf_add ok' d (replicate (hash_length integr) 0)),
                            encr, al) }) } }) }) }"

text \<open>The padding and its length byte; each may make the buffer grow.\<close>

definition encrypt_pad ::
    "(nat \<Rightarrow> byte) \<Rightarrow> bool list \<Rightarrow> nat \<Rightarrow> byte list \<Rightarrow> byte list option \<times> bool list" where
  "encrypt_pad rnd al blocklen src =
     (let pad = (roundup (length src + 1) blocklen - (length src + 1)) mod 256;
          (ok, al) = (if pad = 0 then (True, al) else next_ok al);
          (ok', al) = next_ok al
      in (Option.bind (if pad = 0 then Some src else buf_add ok src (map rnd [0..<pad]))
            (\<lambda>s. buf_add ok' s [of_nat pad]), al))"

text \<open>The random bytes are those of the padding and of the initialization vector.\<close>

definition ikev2_msg_encrypt ::
    "evp \<Rightarrow> (nat \<Rightarrow> nat \<Rightarrow> byte) \<Rightarrow> bool list \<Rightarrow> iked_sa option \<Rightarrow> byte list \<Rightarrow> byte list \<Rightarrow>
     (byte list option \<times> iked_sa option \<times> bool list) option" where
  "ikev2_msg_encrypt ev rnd al sao src aad =
     (case sao of
        None \<Rightarrow> Some (None, None, al)
      | Some sa \<Rightarrow>
          (case (sa_encr sa, sa_integr sa) of
             (Some encr, Some integr) \<Rightarrow>
               if cipher_length encr = 0 then None
               else
                 (let encrlen = roundup (length src + 1) (cipher_length encr)
                  in case encrypt_pad (rnd 0) al (cipher_length encr) src of
                       (None, al) \<Rightarrow> Some (None, Some sa, al)
                     | (Some s, al) \<Rightarrow> do {
                         d \<leftarrow> mem_read s 0 encrlen;
                         (r, encr, al) \<leftarrow> encrypt_padded ev (rnd 1) al encr
                           (if sh_initiator sa then sa_key_iencr sa else sa_key_rencr sa) integr d aad;
                         Some (r, Some (sa\<lparr>sa_encr := Some encr\<rparr>), al) })
           | _ \<Rightarrow> Some (None, Some sa, al)))"

subsection \<open>Integrity checksum\<close>

text \<open>The HMAC over the message without its last \<open>integrlen\<close> bytes, in a buffer of the digest's length.\<close>

definition msg_hmac ::
    "evp \<Rightarrow> bool list \<Rightarrow> iked_hash \<Rightarrow> byte list option \<Rightarrow> byte list \<Rightarrow>
     (byte list \<times> nat \<times> iked_hash \<times> bool list) option" where
  "msg_hmac ev al hash integr msg = do {
     key \<leftarrow> integr;
     let (ok, al) = next_ok al;
     hash \<leftarrow> hash_init (hash_setkey ok hash key);
     d \<leftarrow> mem_read msg 0 (usub (length msg) (hash_length hash));
     hash \<leftarrow> hash_update hash d;
     (tmp, tmplen) \<leftarrow> hash_final ev hash (hash_keylength hash);
     Some (tmp, tmplen, hash, al) }"

text \<open>The checksum replaces the end of the message; \<open>None\<close> in the first component is \<open>-1\<close>.\<close>

definition put_checksum :: "byte list \<Rightarrow> byte list \<Rightarrow> nat \<Rightarrow> byte list option option" where
  "put_checksum msg tmp integrlen =
     (if length msg < integrlen then Some None
      else do {
        m \<leftarrow> mem_read tmp 0 integrlen;
        msg' \<leftarrow> mem_write msg (length msg - integrlen) m;
        Some (Some msg') })"

definition ikev2_msg_integr ::
    "evp \<Rightarrow> bool list \<Rightarrow> iked_sa option \<Rightarrow> byte list \<Rightarrow>
     (byte list option \<times> iked_sa option \<times> bool list) option" where
  "ikev2_msg_integr ev al sao msg =
     (case sao of
        None \<Rightarrow> Some (None, None, al)
      | Some sa \<Rightarrow>
          (case (sa_encr sa, sa_integr sa) of
             (Some encr, Some hash) \<Rightarrow>
               (let (ok, al) = next_ok al in
                if \<not> ok \<or> IKED_MSGBUF_MAX < hash_keylength hash then Some (None, Some sa, al)
                else if \<not> hash_isaead hash then do {
                  (tmp, tmplen, hash, al) \<leftarrow> msg_hmac ev al hash
                    (if sh_initiator sa then sa_key_iauth sa else sa_key_rauth sa) msg;
                  let sa = sa\<lparr>sa_integr := Some hash\<rparr>;
                  if tmplen \<noteq> hash_length hash then Some (None, Some sa, al)
                  else do {
                    r \<leftarrow> put_checksum msg tmp (hash_length hash);
                    Some (r, Some sa, al) } }
                else do {
                  t \<leftarrow> cipher_gettag ev encr (hash_keylength hash);
                  (case t of
                     None \<Rightarrow> Some (None, Some sa, al)
                   | Some tmp \<Rightarrow> do {
                       r \<leftarrow> put_checksum msg tmp (hash_length hash);
                       Some (r, Some sa, al) }) })
           | _ \<Rightarrow> Some (None, Some sa, al)))"

subsection \<open>Decryption\<close>

text \<open>The comparison of the checksum; \<open>src\<close> is the body of the encrypted payload of \<open>msg\<close>.\<close>

definition decrypt_verify ::
    "evp \<Rightarrow> nat \<Rightarrow> bool list \<Rightarrow> iked_hash \<Rightarrow> byte list option \<Rightarrow> byte list \<Rightarrow> byte list \<Rightarrow>
     (bool \<times> iked_hash \<times> bool list) option" where
  "decrypt_verify ev v al hash integr msg src =
     (let (ok, al) = next_ok al in
      if \<not> ok \<or> IKED_MSGBUF_MAX < hash_keylength hash then Some (False, hash, al)
      else do {
        (tmp, tmplen, hash, al) \<leftarrow> msg_hmac ev al hash integr msg;
        integrdata \<leftarrow> mem_read src (length src - hash_length hash) (hash_length hash);
        m \<leftarrow> mem_read tmp 0 (hash_length hash);
        if m \<noteq> integrdata then Some (False, hash, al)
        else do {
          print_hex v tmp 0 tmplen;
          Some (True, hash, al) } })"

text \<open>The removal of the padding: \<^verbatim>\<open>ibuf_setsize\<close> refuses a size above that of the buffer.\<close>

definition strip_padding :: "byte list \<Rightarrow> nat \<Rightarrow> byte \<Rightarrow> byte list option" where
  "strip_padding out outlen pad =
     (let n = usub outlen (unat pad + 1) in if length out < n then None else Some (take n out))"

text \<open>The decryption of \<open>ct\<close> into a buffer of \<open>cap\<close> bytes, in an initialised context.\<close>

definition decrypt_finish ::
    "evp \<Rightarrow> iked_cipher \<Rightarrow> byte list \<Rightarrow> nat \<Rightarrow> (byte list option \<times> iked_cipher) option" where
  "decrypt_finish ev encr ct cap =
     (if cap = 0 then do {
        fin \<leftarrow> cipher_final ev encr;
        Some (if fin then strip_padding [] 0 0 else None, encr) }
      else do {
        u \<leftarrow> cipher_update ev encr ct cap;
        (case u of
           Inl _ \<Rightarrow> Some (None, encr)
         | Inr (out, outlen, encr) \<Rightarrow> do {
             p \<leftarrow> (if outlen = 0 then None else mem_read out (outlen - 1) 1);
             fin \<leftarrow> cipher_final ev encr;
             Some (if fin then strip_padding out outlen (hd p) else None, encr) }) })"

definition decrypt_payload ::
    "evp \<Rightarrow> (nat \<Rightarrow> byte) \<Rightarrow> nat \<Rightarrow> bool list \<Rightarrow> iked_cipher \<Rightarrow> byte list option \<Rightarrow> iked_hash \<Rightarrow> byte list \<Rightarrow> byte list \<Rightarrow>
     (byte list option \<times> iked_cipher \<times> bool list) option" where
  "decrypt_payload ev rnd v al encr enckey integr msg src =
     (let ivlen = cipher_ivlength encr; integrlen = hash_length integr;
          encrlen = length src - integrlen - ivlen in
      if cipher_length encr = 0 then None
      else if encrlen mod cipher_length encr \<noteq> 0 then Some (None, encr, al)
      else do {
        key \<leftarrow> enckey;
        let (ok, al) = next_ok al;
        let encr = cipher_setkey ok encr key;
        let (ok, al) = next_ok al;
        let encr = cipher_setiv ok rnd encr (mem_read src 0 ivlen);
        let (ok, al) = next_ok al;
        r \<leftarrow> cipher_init_decrypt ev ok encr;
        (case r of
           None \<Rightarrow> Some (None, encr, al)
         | Some encr \<Rightarrow> do {
             encr \<leftarrow> (if hash_isaead integr
                     then Option.bind (mem_read src (length src - integrlen) integrlen) (cipher_settag encr)
                     else Some encr);
             let (ok, al) = next_ok al;
             let cap = cipher_outlength encr encrlen;
             if \<not> ok \<or> IKED_MSGBUF_MAX < cap then Some (None, encr, al)
             else do {
               encr \<leftarrow> (if hash_isaead integr
                       then Option.bind (mem_read msg 0 (usub (length msg) (length src))) (cipher_aad encr)
                       else Some encr);
               ct \<leftarrow> mem_read src ivlen encrlen;
               (r, encr) \<leftarrow> decrypt_finish ev encr ct cap;
               Some (r, encr, al) } }) })"

definition ikev2_msg_decrypt ::
    "evp \<Rightarrow> (nat \<Rightarrow> byte) \<Rightarrow> nat \<Rightarrow> bool list \<Rightarrow> iked_sa option \<Rightarrow> byte list \<Rightarrow> byte list \<Rightarrow>
     (byte list option \<times> iked_sa option \<times> bool list) option" where
  "ikev2_msg_decrypt ev rnd v al sao msg src =
     (case sao of
        None \<Rightarrow> Some (None, None, al)
      | Some sa \<Rightarrow>
          (case (sa_encr sa, sa_integr sa) of
             (Some encr, Some hash) \<Rightarrow>
               (let enckey = (if \<not> sh_initiator sa then sa_key_iencr sa else sa_key_rencr sa);
                    integr = (if \<not> sh_initiator sa then sa_key_iauth sa else sa_key_rauth sa);
                    ivlen = cipher_ivlength encr; integrlen = hash_length hash in
                if length src < integrlen + ivlen then Some (None, Some sa, al)
                else do {
                  print_hex v src 0 ivlen;
                  print_hex v src ivlen (length src - integrlen - ivlen);
                  print_hex v src (length src - integrlen) integrlen;
                  (verified, hash, al) \<leftarrow>
                    (if hash_isaead hash then Some (True, hash, al)
                     else decrypt_verify ev v al hash integr msg src);
                  let sa = sa\<lparr>sa_integr := Some hash\<rparr>;
                  if \<not> verified then Some (None, Some sa, al)
                  else do {
                    (r, encr, al) \<leftarrow> decrypt_payload ev rnd v al encr enckey hash msg src;
                    Some (r, Some (sa\<lparr>sa_encr := Some encr\<rparr>), al) } })
           | _ \<Rightarrow> Some (None, Some sa, al)))"

subsection \<open>Direction of a message\<close>

definition ikev2_msg_frompeer :: "iked_sa option \<Rightarrow> byte list \<Rightarrow> bool" where
  "ikev2_msg_frompeer sao msg_data =
     (case sao of
        None \<Rightarrow> False
      | Some sa \<Rightarrow>
          (case mem_read msg_data 0 IKE_HDR_SIZE of
             None \<Rightarrow> False
           | Some hdr \<Rightarrow>
               (let i = (hdr ! 19 AND IKEV2_FLAG_INITIATOR \<noteq> 0) in
                \<not> sh_initiator sa \<and> i \<or> sh_initiator sa \<and> \<not> i)))"

text \<open>The room for the payload of a fragment, and whether a payload needs to be fragmented.\<close>

definition frag_maxlen :: "iked_sa \<Rightarrow> nat" where
  "frag_maxlen sa = (if sa_family (addr (sa_local sa)) = AF_INET then IKEV2_MAXLEN_IPV4_FRAG else IKEV2_MAXLEN_IPV6_FRAG)"

definition ikev2_check_frag_oversize :: "iked_sa option \<Rightarrow> nat \<Rightarrow> bool" where
  "ikev2_check_frag_oversize sao len =
     (case sao of
        None \<Rightarrow> True
      | Some sa \<Rightarrow>
          (case (sa_encr sa, sa_integr sa) of
             (Some encr, Some hash) \<Rightarrow>
               frag_maxlen sa \<le> len + cipher_ivlength encr + cipher_length encr + hash_length hash \<and> sa_frag sa
           | _ \<Rightarrow> True))"

subsection \<open>SAs with working keys\<close>

definition key_ok :: "nat \<Rightarrow> byte list option \<Rightarrow> bool" where
  "key_ok n k \<longleftrightarrow> (case k of None \<Rightarrow> False | Some key \<Rightarrow> n \<le> length key \<and> length key \<le> IKED_MSGBUF_MAX)"

definition sa_crypto_ok :: "evp \<Rightarrow> iked_sa \<Rightarrow> bool" where
  "sa_crypto_ok ev sa \<longleftrightarrow>
     (case (sa_encr sa, sa_integr sa) of
        (Some encr, Some hash) \<Rightarrow>
          cipher_wf ev encr \<and> hash_wf hash \<and> hash_isaead hash = is_gcm (encr_priv encr) \<and>
          key_ok (encr_fixedkey encr) (sa_key_iencr sa) \<and> key_ok (encr_fixedkey encr) (sa_key_rencr sa) \<and>
          (hash_isaead hash \<or> key_ok 0 (sa_key_iauth sa) \<and> key_ok 0 (sa_key_rauth sa))
      | _ \<Rightarrow> False)"

text \<open>The two ends of an SA agree on the algorithms and the keys and have opposite roles.\<close>

definition same_cipher :: "iked_cipher \<Rightarrow> iked_cipher \<Rightarrow> bool" where
  "same_cipher e e' \<longleftrightarrow> encr_id e = encr_id e' \<and> encr_priv e = encr_priv e'"

definition same_hash :: "iked_hash \<Rightarrow> iked_hash \<Rightarrow> bool" where
  "same_hash h h' \<longleftrightarrow> hash_priv h = hash_priv h' \<and> hash_length_of h = hash_length_of h' \<and>
     hash_trunc h = hash_trunc h' \<and> hash_isaead h = hash_isaead h'"

definition sa_peers :: "iked_sa \<Rightarrow> iked_sa \<Rightarrow> bool" where
  "sa_peers sa sa' \<longleftrightarrow>
     rel_option same_cipher (sa_encr sa) (sa_encr sa') \<and> rel_option same_hash (sa_integr sa) (sa_integr sa') \<and>
     sa_key_iencr sa = sa_key_iencr sa' \<and> sa_key_rencr sa = sa_key_rencr sa' \<and>
     sa_key_iauth sa = sa_key_iauth sa' \<and> sa_key_rauth sa = sa_key_rauth sa' \<and>
     sh_initiator sa' = (\<not> sh_initiator sa)"

definition fresh_iv :: "(nat \<Rightarrow> byte) \<Rightarrow> iked_cipher \<Rightarrow> byte list" where
  "fresh_iv rnd encr =
     (if encr_id encr = 20 \<or> encr_id encr = 19 then le_bytes 8 (unat (encr_civ encr))
      else map rnd [0..<encr_ivlength encr])"

text \<open>The context in which the payload of an SA is encrypted.\<close>

definition payload_ctx :: "evp \<Rightarrow> iked_cipher \<Rightarrow> byte list \<Rightarrow> byte list \<Rightarrow> iked_hash \<Rightarrow> byte list \<Rightarrow> evp_ctx" where
  "payload_ctx ev encr key iv hash aad =
     (crypt_ctx ev encr key iv True)\<lparr>cx_aad := (if hash_isaead hash then aad else [])\<rparr>"

lemma payload_ctx_simps [simp]:
  "cx_enc (payload_ctx ev encr key iv hash aad)" "cx_in (payload_ctx ev encr key iv hash aad) = []"
  "cx_cipher (payload_ctx ev encr key iv hash aad) = encr_priv encr"
  by (auto simp: payload_ctx_def crypt_ctx_def)

lemma length_fresh_iv: "cipher_wf ev encr \<Longrightarrow> length (fresh_iv rnd encr) = encr_ivlength encr"
  by (auto simp: fresh_iv_def cipher_wf_def split: if_splits)

definition next_civ :: "iked_cipher \<Rightarrow> u64" where
  "next_civ encr = (if encr_id encr = 20 \<or> encr_id encr = 19 then encr_civ encr + 1 else encr_civ encr)"

lemma cipher_wf_update [simp]:
  "cipher_wf ev (e\<lparr>encr_key := k\<rparr>) = cipher_wf ev e" "cipher_wf ev (e\<lparr>encr_iv := i\<rparr>) = cipher_wf ev e"
  "cipher_wf ev (e\<lparr>encr_civ := c\<rparr>) = cipher_wf ev e" "cipher_wf ev (e\<lparr>encr_ctx := x\<rparr>) = cipher_wf ev e"
  by (simp_all add: cipher_wf_def)

lemma cipher_setiv_fresh:
  assumes "cipher_wf ev encr"
  shows "cipher_setiv True rnd encr None = encr\<lparr>encr_iv := Some (fresh_iv rnd encr), encr_civ := next_civ encr\<rparr>"
proof (cases "is_gcm (encr_priv encr)")
  case True
  then have "encr_id encr = 20 \<or> encr_id encr = 19" "encr_ivlength encr = 8"
    using assms by (auto simp: cipher_wf_def)
  then show ?thesis
    by (simp add: cipher_setiv_def fresh_iv_def next_civ_def buf_new_eq)
next
  case False
  then have "encr_id encr \<noteq> 20" "encr_id encr \<noteq> 19"
    using assms by (auto simp: cipher_wf_def)
  then show ?thesis
    by (simp add: cipher_setiv_def fresh_iv_def next_civ_def)
qed

lemma mem_write_whole: "length r \<le> cap \<Longrightarrow>
    mem_write (replicate cap 0) 0 r = Some (r @ replicate (cap - length r) 0)"
  by (simp add: mem_write_def)

lemma encrypt_padded_ok:
  fixes rnd :: "nat \<Rightarrow> byte"
  assumes ev: "evp_ok ev" and wf: "cipher_wf ev encr" "hash_wf hash" and key: "encr_fixedkey encr \<le> length key"
    "length key \<le> IKED_MSGBUF_MAX" and src: "length src mod encr_length encr = 0" "src \<noteq> []"
    "length src + 80 \<le> IKED_MSGBUF_MAX"
  defines "iv \<equiv> fresh_iv rnd encr"
  obtains ct encr' where
    "encrypt_padded ev rnd [] encr (Some key) hash src aad =
       Some (Some (iv @ ct @ replicate (hash_length hash) 0), encr', [])"
    "EVP_CipherUpdate ev (payload_ctx ev encr key iv hash aad) src = Some ct"
    "length ct = length src"
    "encr_ctx encr' = Some ((payload_ctx ev encr key iv hash aad)\<lparr>cx_in := src\<rparr>)"
proof -
  let ?ctx = "payload_ctx ev encr key iv hash aad"
  have sz: "evp_sizes ev"
    using ev by (simp add: evp_ok_def)
  have wb: "whole_blocks ev ?ctx src"
    using src(1) wf(1) by (simp add: whole_blocks_def cipher_wf_def)
  obtain ct where ct: "EVP_CipherUpdate ev ?ctx src = Some ct" "length ct = length src"
      "EVP_CipherFinal_ok ev (?ctx\<lparr>cx_in := src\<rparr>)"
    by (rule evp_encrypt[OF ev _ _ wb]) auto
  define c where "c = next_civ encr"
  have c: "cipher_setiv True rnd (encr\<lparr>encr_key := Some key\<rparr>) None =
      encr\<lparr>encr_key := Some key, encr_iv := Some iv, encr_civ := c\<rparr>"
    using cipher_setiv_fresh[of ev "encr\<lparr>encr_key := Some key\<rparr>" rnd] wf(1)
    by (simp add: c_def iv_def fresh_iv_def next_civ_def)
  define e1 where "e1 = encr\<lparr>encr_key := Some key, encr_iv := Some iv, encr_civ := c\<rparr>"
  have ivlen: "length iv = encr_ivlength encr" "length iv \<le> 16"
    using length_fresh_iv[OF wf(1)] cipher_ivlength_bounds[OF sz wf(1)] by (auto simp: iv_def cipher_ivlength_def)
  have ctx1: "crypt_ctx ev e1 key iv True = crypt_ctx ev encr key iv True"
    by (simp add: crypt_ctx_def cipher_nonce_def e1_def)
  define e1c where "e1c = e1\<lparr>encr_ctx := Some (crypt_ctx ev encr key iv True)\<rparr>"
  have init: "cipher_init ev True e1 True = Some (Some e1c)"
    using cipher_init_ok[OF sz, of e1 key iv True] wf(1) key ivlen ctx1 by (simp add: e1_def e1c_def)
  define e2 where "e2 = e1\<lparr>encr_ctx := Some ?ctx\<rparr>"
  have aad: "(if hash_isaead hash then cipher_aad e1c aad else Some e1c) = Some e2"
    by (auto simp: e1c_def e2_def cipher_aad_def payload_ctx_def crypt_ctx_def)
  have iv1: "encr_iv e1c = Some iv" "buf_new True iv = Some iv"
    using ivlen(2) by (simp_all add: e1c_def e1_def buf_new_eq)
  have out: "cipher_outlength e1c (length src) = length src"
    using roundup_id[of "encr_length encr" "length src"] src(1) cipher_length_pos[OF sz wf(1)]
    by (simp add: cipher_outlength_def e1c_def e1_def cipher_length_def)
  have upd: "cipher_update ev e2 src (length src) =
      Some (Inr (ct, length ct, e2\<lparr>encr_ctx := Some (?ctx\<lparr>cx_in := src\<rparr>)\<rparr>))"
    using ct(1,2) by (simp add: cipher_update_def e2_def mem_write_whole)
  have hl: "hash_length hash \<le> 64"
    using hash_length_bounds[OF wf(2)] by linarith
  have "encrypt_padded ev rnd [] encr (Some key) hash src aad =
      Some (Some (iv @ ct @ replicate (hash_length hash) 0), e2\<lparr>encr_ctx := Some (?ctx\<lparr>cx_in := src\<rparr>)\<rparr>, [])"
    unfolding encrypt_padded_def cipher_setkey_def
    using key(2) c init out upd ct(2,3) src ivlen hl
    by (simp add: buf_new_eq[of True key] e1_def[symmetric] cipher_init_encrypt_def aad iv1
        cipher_final_def mem_read_def buf_add_def Let_def del: if_split)
  then show ?thesis
    using ct that by simp
qed

text \<open>What a context derived from the other end's cipher has in common with ours.\<close>

lemma crypt_ctx_same:
  assumes "cipher_wf ev e" "cipher_wf ev e'" "same_cipher e e'"
  shows "crypt_ctx ev e' key iv enc = crypt_ctx ev e key iv enc"
    "encr_ivlength e' = encr_ivlength e" "encr_length e' = encr_length e" "encr_fixedkey e' = encr_fixedkey e"
    "encr_saltlength e' = encr_saltlength e"
  using assms by (auto simp: crypt_ctx_def cipher_nonce_def same_cipher_def cipher_wf_def split: if_splits)

lemma same_hash_length: "same_hash h h' \<Longrightarrow> hash_length h' = hash_length h \<and> hash_keylength h' = hash_keylength h"
  by (simp add: same_hash_def hash_length_def hash_keylength_def)

lemma decrypt_finish_ok:
  assumes ev: "evp_ok ev" and ctx: "cx_enc ctx" "cx_in ctx = []" "whole_blocks ev ctx pl"
    and ct: "EVP_CipherUpdate ev ctx pl = Some ct" and pl: "pl \<noteq> []"
    and e: "encr_ctx e = Some (ctx\<lparr>cx_enc := False, cx_tag := tag\<rparr>)"
    and tag: "is_gcm (cx_cipher ctx) \<Longrightarrow>
      \<exists>t. tag = Some t \<and> EVP_gcm_tag ev (ctx\<lparr>cx_in := pl\<rparr>) (length t) = Some t"
  shows "\<exists>e'. decrypt_finish ev e ct (length pl) = Some (strip_padding pl (length pl) (last pl), e')"
proof -
  define ctx' where "ctx' = ctx\<lparr>cx_enc := False, cx_in := ct, cx_tag := tag\<rparr>"
  define e' where "e' = e\<lparr>encr_ctx := Some ctx'\<rparr>"
  have "EVP_CipherUpdate ev (ctx\<lparr>cx_enc := False, cx_tag := tag\<rparr>) ct = Some pl"
    using evp_encrypt[OF ev ctx] ct by (metis option.inject)
  moreover have "ctx\<lparr>cx_enc := False, cx_tag := tag, cx_in := ct\<rparr> = ctx'"
    by (cases ctx) (simp add: ctx'_def)
  ultimately have upd: "cipher_update ev e ct (length pl) = Some (Inr (pl, length pl, e'))"
    using ctx(2) by (simp add: cipher_update_def e mem_write_whole e'_def)
  have fin: "cipher_final ev e' = Some True"
    using evp_decrypt_final[OF ev ctx(1,2) ct ctx(3) tag] by (simp add: cipher_final_def e'_def ctx'_def)
  have lst: "mem_read pl (length pl - 1) 1 = Some [last pl]"
    using pl by (cases pl rule: rev_cases) (auto simp: mem_read_def)
  show ?thesis
    using upd fin lst pl by (simp add: decrypt_finish_def)
qed

lemma decrypt_payload_ok:
  assumes ev: "evp_ok ev" and wf: "cipher_wf ev encr" "hash_wf hash" "hash_isaead hash = is_gcm (encr_priv encr)"
    and key: "encr_fixedkey encr \<le> length key" "length key \<le> IKED_MSGBUF_MAX"
    and pl: "length pl mod encr_length encr = 0" "pl \<noteq> []" "length pl \<le> IKED_MSGBUF_MAX"
    and iv: "length iv = encr_ivlength encr"
    and ct: "EVP_CipherUpdate ev (payload_ctx ev encr key iv hash aad) pl = Some ct"
    and mac: "length mac = hash_length hash"
      "hash_isaead hash \<Longrightarrow> EVP_gcm_tag ev ((payload_ctx ev encr key iv hash aad)\<lparr>cx_in := pl\<rparr>) (length mac) = Some mac"
  shows "\<exists>encr'. decrypt_payload ev rnd v [] encr (Some key) hash (aad @ iv @ ct @ mac) (iv @ ct @ mac) =
    Some (strip_padding pl (length pl) (last pl), encr', [])"
proof -
  let ?src = "iv @ ct @ mac" and ?ctx = "payload_ctx ev encr key iv hash aad"
  have sz: "evp_sizes ev"
    using ev by (simp add: evp_ok_def)
  have wb: "whole_blocks ev ?ctx pl"
    using pl(1) wf(1) by (simp add: whole_blocks_def cipher_wf_def)
  have len: "length ct = length pl" "length ?src - hash_length hash - cipher_ivlength encr = length pl"
    using sz ct iv mac(1) by (auto simp: evp_sizes_def cipher_ivlength_def)
  define tag where "tag = (if hash_isaead hash then Some mac else None)"
  define e1 where "e1 = encr\<lparr>encr_key := Some key, encr_iv := Some iv\<rparr>"
  define e2 where "e2 = e1\<lparr>encr_ctx := Some (crypt_ctx ev encr key iv False)\<rparr>"
  define e3 where "e3 = e1\<lparr>encr_ctx := Some (?ctx\<lparr>cx_enc := False, cx_aad := [], cx_tag := tag\<rparr>)\<rparr>"
  define e4 where "e4 = e1\<lparr>encr_ctx := Some (?ctx\<lparr>cx_enc := False, cx_tag := tag\<rparr>)\<rparr>"
  have iv16: "length iv \<le> 16"
    using cipher_ivlength_bounds[OF sz wf(1)] iv by (simp add: cipher_ivlength_def)
  have setiv: "cipher_setiv True rnd (encr\<lparr>encr_key := Some key\<rparr>) (mem_read ?src 0 (cipher_ivlength encr)) = e1"
    using iv iv16 by (simp add: cipher_setiv_def mem_read_def cipher_ivlength_def e1_def buf_new_eq)
  have init: "cipher_init ev True e1 False = Some (Some e2)"
    using cipher_init_ok[OF sz, of e1 key iv False] wf(1) key iv
    by (simp add: e1_def e2_def crypt_ctx_def cipher_nonce_def)
  have tg: "(if hash_isaead hash
      then Option.bind (mem_read ?src (length ?src - hash_length hash) (hash_length hash)) (cipher_settag e2)
      else Some e2) = Some e3"
    using mac(1) by (auto simp: mem_read_def cipher_settag_def e2_def e3_def payload_ctx_def crypt_ctx_def tag_def)
  have ad: "(if hash_isaead hash
      then Option.bind (mem_read (aad @ ?src) 0 (usub (length (aad @ ?src)) (length ?src))) (cipher_aad e3)
      else Some e3) = Some e4"
    by (auto simp: mem_read_def cipher_aad_def e3_def e4_def payload_ctx_def crypt_ctx_def)
  have out: "cipher_outlength e3 (length pl) = length pl"
    using roundup_id[of "encr_length encr" "length pl"] pl(1) cipher_length_pos[OF sz wf(1)]
    by (simp add: cipher_outlength_def e3_def e1_def cipher_length_def)
  obtain e5 where fin: "decrypt_finish ev e4 ct (length pl) = Some (strip_padding pl (length pl) (last pl), e5)"
    using decrypt_finish_ok[OF ev _ _ wb ct pl(2), of e4 tag] wf(3) mac(2) by (auto simp: e4_def tag_def)
  have rd: "mem_read ?src (cipher_ivlength encr) (length pl) = Some ct"
    using iv len(1) by (simp add: mem_read_def cipher_ivlength_def)
  show ?thesis
    unfolding decrypt_payload_def cipher_setkey_def cipher_init_decrypt_def
    using pl key(2) setiv init out fin rd len cipher_length_pos[OF sz wf(1)]
    by (simp add: buf_new_eq[of True key] tg ad Let_def cipher_length_def del: if_split)
qed

lemma msg_hmac_ok:
  assumes "evp_sizes ev" "hash_wf hash" "\<not> hash_isaead hash" "hash_priv hash = Some md"
    "length key \<le> IKED_MSGBUF_MAX" "hash_length hash \<le> length msg"
  shows "\<exists>ctx. msg_hmac ev [] hash (Some key) msg =
    Some (HMAC_bytes ev md key (take (length msg - hash_length hash) msg), hash_length hash,
      hash\<lparr>hash_key := Some key, hash_ctx := ctx\<rparr>, [])"
proof -
  have len: "length (HMAC_bytes ev md key d) = hash_length_of hash" "hash_trunc hash \<le> hash_length_of hash" for d
    using assms by (auto simp: evp_sizes_def hash_wf_def)
  have "mem_read msg 0 (usub (length msg) (hash_length hash)) = Some (take (length msg - hash_length hash) msg)"
    using assms(6) by (simp add: mem_read_def)
  then show ?thesis
    using assms(4,5) len
    by (simp add: msg_hmac_def hash_setkey_def buf_new_eq hash_init_def hash_update_def hash_final_def
        mem_write_whole hash_keylength_def Let_def)
      (auto simp: hash_length_def hash_keylength_def mem_write_def)
qed

lemma strip_padding_pad:
  assumes "length ps < 256"
  shows "strip_padding (d @ ps @ [of_nat (length ps)]) (length (d @ ps @ [of_nat (length ps) :: byte]))
    (last (d @ ps @ [of_nat (length ps)])) = Some d"
proof -
  have "unat (of_nat (length ps) :: byte) = length ps"
    using assms by (simp add: unat_of_nat)
  then show ?thesis
    by (simp add: strip_padding_def)
qed

text \<open>The padded payload of \<^verbatim>\<open>ikev2_msg_encrypt\<close>.\<close>

definition pad_payload :: "(nat \<Rightarrow> byte) \<Rightarrow> nat \<Rightarrow> byte list \<Rightarrow> byte list" where
  "pad_payload rnd blocklen d =
     (let pad = roundup (length d + 1) blocklen - (length d + 1) in d @ map rnd [0..<pad] @ [of_nat pad])"

lemma pad_payload_length:
  assumes "0 < blocklen"
  shows "length (pad_payload rnd blocklen d) = roundup (length d + 1) blocklen"
  using roundup_ge[OF assms, of "length d + 1"] by (simp add: pad_payload_def Let_def)

lemma pad_payload_strip:
  assumes "0 < blocklen" "blocklen \<le> 16"
  shows "strip_padding (pad_payload rnd blocklen d) (length (pad_payload rnd blocklen d))
    (last (pad_payload rnd blocklen d)) = Some d"
proof -
  have "roundup (length d + 1) blocklen - (length d + 1) < 256"
    using roundup_less[OF assms(1), of "length d + 1"] assms(2) by linarith
  then show ?thesis
    using strip_padding_pad[of "map rnd [0..<roundup (length d + 1) blocklen - (length d + 1)]" d]
    by (simp add: pad_payload_def Let_def)
qed

lemma encrypt_pads:
  assumes "0 < blocklen" "blocklen \<le> 16" "length d + 16 \<le> IKED_MSGBUF_MAX"
  shows "encrypt_pad rnd [] blocklen d = (Some (pad_payload rnd blocklen d), [])"
proof -
  define pad where "pad = roundup (length d + 1) blocklen - (length d + 1)"
  have "pad < 16"
    using roundup_less[OF assms(1), of "length d + 1"] assms(2) unfolding pad_def by linarith
  then show ?thesis
    using assms(3) unfolding encrypt_pad_def pad_payload_def pad_def[symmetric]
    by (simp add: buf_add_def Let_def)
qed

lemma ikev2_msg_encrypt_ok:
  fixes rnd :: "nat \<Rightarrow> nat \<Rightarrow> byte"
  assumes ev: "evp_ok ev" and sa: "sa_crypto_ok ev sa" "sa_encr sa = Some encr" "sa_integr sa = Some hash"
    and key: "(if sh_initiator sa then sa_key_iencr sa else sa_key_rencr sa) = Some key"
    and d: "length d + 96 \<le> IKED_MSGBUF_MAX"
  defines "iv \<equiv> fresh_iv (rnd 1) encr" and "pl \<equiv> pad_payload (rnd 0) (encr_length encr) d"
  obtains ct encr' where
    "ikev2_msg_encrypt ev rnd [] (Some sa) d aad =
       Some (Some (iv @ ct @ replicate (hash_length hash) 0), Some (sa\<lparr>sa_encr := Some encr'\<rparr>), [])"
    "EVP_CipherUpdate ev (payload_ctx ev encr key iv hash aad) pl = Some ct" "length ct = length pl"
    "encr_ctx encr' = Some ((payload_ctx ev encr key iv hash aad)\<lparr>cx_in := pl\<rparr>)"
proof -
  have wf: "cipher_wf ev encr" "hash_wf hash" "encr_fixedkey encr \<le> length key" "length key \<le> IKED_MSGBUF_MAX"
    using sa key by (auto simp: sa_crypto_ok_def key_ok_def split: if_splits)
  have bl: "0 < encr_length encr" "encr_length encr \<le> 16"
    using cipher_length_pos[of ev encr] ev wf(1) by (auto simp: evp_ok_def cipher_length_def)
  have pl: "length pl = roundup (length d + 1) (encr_length encr)" "length pl < length d + 17"
    using pad_payload_length[OF bl(1), of "rnd 0" d] roundup_less[OF bl(1), of "length d + 1"] bl(2)
    by (auto simp: pl_def)
  have ne: "pl \<noteq> []"
    by (simp add: pl_def pad_payload_def Let_def)
  have "length pl mod encr_length encr = 0" "length pl + 80 \<le> IKED_MSGBUF_MAX"
    using pl d by simp_all
  from encrypt_padded_ok[OF ev wf this(1) ne this(2), of "rnd 1" aad] obtain ct encr' where
    e: "encrypt_padded ev (rnd 1) [] encr (Some key) hash pl aad =
          Some (Some (iv @ ct @ replicate (hash_length hash) 0), encr', [])"
       "EVP_CipherUpdate ev (payload_ctx ev encr key iv hash aad) pl = Some ct" "length ct = length pl"
       "encr_ctx encr' = Some ((payload_ctx ev encr key iv hash aad)\<lparr>cx_in := pl\<rparr>)"
    unfolding iv_def by blast
  have "length d + 16 \<le> IKED_MSGBUF_MAX"
    using d by linarith
  note pads = encrypt_pads[OF bl this, of "rnd 0", folded pl_def]
  have "ikev2_msg_encrypt ev rnd [] (Some sa) d aad =
      Some (Some (iv @ ct @ replicate (hash_length hash) 0), Some (sa\<lparr>sa_encr := Some encr'\<rparr>), [])"
    using sa(2,3) bl e(1) pl(1) key pads
    by (simp add: ikev2_msg_encrypt_def cipher_length_def Let_def mem_read_def pl_def[symmetric])
  then show ?thesis
    using that e by blast
qed

text \<open>The checksum an SA with hash \<open>hash\<close> puts behind the message \<open>m\<close>; \<open>ctx\<close> is its cipher's context.\<close>

definition checksum :: "evp \<Rightarrow> iked_hash \<Rightarrow> byte list \<Rightarrow> evp_ctx \<Rightarrow> byte list \<Rightarrow> byte list option" where
  "checksum ev hash key ctx m =
     (if hash_isaead hash then EVP_gcm_tag ev ctx (hash_length hash)
      else map_option (\<lambda>md. take (hash_length hash) (HMAC_bytes ev md key m)) (hash_priv hash))"

lemma put_checksum_ok:
  "length tmp \<ge> n \<Longrightarrow> put_checksum (m @ replicate n 0) tmp n = Some (Some (m @ take n tmp))"
  by (simp add: put_checksum_def mem_read_def mem_write_def)

lemma checksum_ok:
  assumes "evp_ok ev" "hash_wf hash" "cx_enc ctx" "hash_isaead hash = is_gcm (cx_cipher ctx)"
  obtains mac where "checksum ev hash key ctx m = Some mac" "length mac = hash_length hash"
proof (cases "hash_isaead hash")
  case True
  then have "hash_length hash \<le> 16"
    using assms(2) by (auto simp: hash_wf_def hash_length_def)
  then obtain t where "EVP_gcm_tag ev ctx (hash_length hash) = Some t" "length t = hash_length hash"
    using assms True unfolding evp_ok_def evp_final_def by blast
  then show ?thesis
    using True that by (simp add: checksum_def)
next
  case False
  then obtain md where "hash_priv hash = Some md" "hash_length hash \<le> md_length md"
    using assms(2) by (auto simp: hash_wf_def hash_length_def)
  then show ?thesis
    using assms(1) False that by (auto simp: checksum_def evp_ok_def evp_sizes_def)
qed

lemma ikev2_msg_integr_ok:
  assumes ev: "evp_ok ev" and sa: "sa_encr sa = Some encr" "sa_integr sa = Some hash" "hash_wf hash"
    and ctx: "encr_ctx encr = Some ctx" "cx_enc ctx" "hash_isaead hash = is_gcm (cx_cipher ctx)"
    and key: "\<not> hash_isaead hash \<Longrightarrow> (if sh_initiator sa then sa_key_iauth sa else sa_key_rauth sa) = Some key"
      "length key \<le> IKED_MSGBUF_MAX"
    and mac: "checksum ev hash key ctx m = Some mac"
  shows "\<exists>sa'. ikev2_msg_integr ev [] (Some sa) (m @ replicate (hash_length hash) 0) =
    Some (Some (m @ mac), Some sa', [])"
proof (cases "hash_isaead hash")
  case True
  have "hash_length hash \<le> 16" "hash_keylength hash = hash_length hash"
    using sa(3) True by (auto simp: hash_wf_def hash_length_def hash_keylength_def)
  moreover have "length mac = hash_length hash"
    using checksum_ok[OF ev sa(3) ctx(2,3), of key m] mac by (metis option.inject)
  ultimately show ?thesis
    using sa True mac put_checksum_ok[of "hash_length hash" mac m]
    by (simp add: ikev2_msg_integr_def cipher_gettag_def ctx(1) checksum_def)
next
  case False
  obtain md where md: "hash_priv hash = Some md"
    using sa(3) False by (auto simp: hash_wf_def)
  have sz: "evp_sizes ev"
    using ev by (simp add: evp_ok_def)
  let ?m = "m @ replicate (hash_length hash) 0"
  have len: "hash_length hash \<le> length (HMAC_bytes ev md key m)" "hash_keylength hash \<le> 64"
    using sz sa(3) False md hash_length_bounds[OF sa(3)] by (auto simp: evp_sizes_def hash_wf_def hash_keylength_def)
  obtain c where c: "msg_hmac ev [] hash (Some key) ?m =
      Some (HMAC_bytes ev md key m, hash_length hash, hash\<lparr>hash_key := Some key, hash_ctx := c\<rparr>, [])"
    using msg_hmac_ok[OF sz sa(3) False md key(2), of ?m] by auto
  have "hash_length (hash\<lparr>hash_key := Some key, hash_ctx := c\<rparr>) = hash_length hash"
    by (simp add: hash_length_def)
  then show ?thesis
    using sa(1,2) False key(1)[OF False] md mac len c put_checksum_ok[OF len(1), of m]
    by (simp add: ikev2_msg_integr_def checksum_def)
qed

lemma decrypt_verify_ok:
  assumes ev: "evp_sizes ev" and hash: "hash_wf hash" "\<not> hash_isaead hash" and key: "length key \<le> IKED_MSGBUF_MAX"
    and mac: "checksum ev hash key ctx m = Some mac" "src = s @ mac"
  shows "\<exists>c. decrypt_verify ev v [] hash (Some key) (m @ mac) src =
    Some (True, hash\<lparr>hash_key := Some key, hash_ctx := c\<rparr>, [])"
proof -
  obtain md where md: "hash_priv hash = Some md"
    using hash by (auto simp: hash_wf_def)
  have mc: "mac = take (hash_length hash) (HMAC_bytes ev md key m)"
    using mac(1) md hash(2) by (simp add: checksum_def)
  have len: "hash_length hash \<le> length (HMAC_bytes ev md key m)" "hash_keylength hash \<le> 64"
    using ev hash md hash_length_bounds[OF hash(1)] by (auto simp: evp_sizes_def hash_wf_def hash_keylength_def)
  then have lm: "length mac = hash_length hash"
    by (simp add: mc)
  obtain c where c: "msg_hmac ev [] hash (Some key) (m @ mac) =
      Some (HMAC_bytes ev md key m, hash_length hash, hash\<lparr>hash_key := Some key, hash_ctx := c\<rparr>, [])"
    using msg_hmac_ok[OF ev hash md key, of "m @ mac"] lm by auto
  have hl: "hash_length (hash\<lparr>hash_key := Some key, hash_ctx := c\<rparr>) = hash_length hash"
    by (simp add: hash_length_def)
  show ?thesis
    using c hl len mac(2) lm mc
    by (intro exI[of _ c]) (simp add: decrypt_verify_def mem_read_def print_hex_def)
qed

subsection \<open>Round trip\<close>

lemma ikev2_msg_decrypt_ok:
  assumes ev: "evp_ok ev" and sa: "sa_encr sa = Some encr" "sa_integr sa = Some hash"
    and wf: "cipher_wf ev encr" "hash_wf hash" "hash_isaead hash = is_gcm (encr_priv encr)"
    and ekey: "(if \<not> sh_initiator sa then sa_key_iencr sa else sa_key_rencr sa) = Some ekey"
      "encr_fixedkey encr \<le> length ekey" "length ekey \<le> IKED_MSGBUF_MAX"
    and ikey: "\<not> hash_isaead hash \<Longrightarrow> (if \<not> sh_initiator sa then sa_key_iauth sa else sa_key_rauth sa) = Some ikey"
      "length ikey \<le> IKED_MSGBUF_MAX"
    and pl: "pl = pad_payload rnd (encr_length encr) d" "length pl \<le> IKED_MSGBUF_MAX"
    and iv: "length iv = encr_ivlength encr"
    and ct: "EVP_CipherUpdate ev (payload_ctx ev encr ekey iv hash aad) pl = Some ct"
    and mac: "checksum ev hash ikey ((payload_ctx ev encr ekey iv hash aad)\<lparr>cx_in := pl\<rparr>) (aad @ iv @ ct) = Some mac"
      "length mac = hash_length hash"
  shows "\<exists>sa'. ikev2_msg_decrypt ev rnd' v [] (Some sa) (aad @ iv @ ct @ mac) (iv @ ct @ mac) =
    Some (Some d, Some sa', [])"
proof -
  have sz: "evp_sizes ev"
    using ev by (simp add: evp_ok_def)
  have bl: "0 < encr_length encr" "encr_length encr \<le> 16"
    using cipher_length_pos[OF sz wf(1)] by (auto simp: cipher_length_def)
  have plm: "length pl mod encr_length encr = 0" "pl \<noteq> []"
    using pad_payload_length[OF bl(1)] by (auto simp: pl(1) pad_payload_def Let_def)
  obtain hash' where v: "(if hash_isaead hash then Some (True, hash, [])
      else decrypt_verify ev v [] hash (if \<not> sh_initiator sa then sa_key_iauth sa else sa_key_rauth sa)
        (aad @ iv @ ct @ mac) (iv @ ct @ mac)) = Some (True, hash', [])"
    and hash': "hash_isaead hash' = hash_isaead hash" "hash_length hash' = hash_length hash" "hash_wf hash'"
  proof (cases "hash_isaead hash")
    case True
    then show ?thesis using wf(2) that by simp
  next
    case False
    obtain c where "decrypt_verify ev v [] hash (Some ikey) ((aad @ iv @ ct) @ mac) ((iv @ ct) @ mac) =
        Some (True, hash\<lparr>hash_key := Some ikey, hash_ctx := c\<rparr>, [])"
      using decrypt_verify_ok[OF sz wf(2) False ikey(2) mac(1)] by blast
    then show ?thesis
      using False wf(2) that[of "hash\<lparr>hash_key := Some ikey, hash_ctx := c\<rparr>"] unfolding ikey(1)[OF False]
      by (simp add: hash_wf_def hash_length_def)
  qed
  have ctx: "payload_ctx ev encr ekey iv hash' aad = payload_ctx ev encr ekey iv hash aad"
    by (simp add: payload_ctx_def hash'(1))
  have "hash_isaead hash' = is_gcm (encr_priv encr)" "length mac = hash_length hash'"
    "hash_isaead hash' \<Longrightarrow> EVP_gcm_tag ev ((payload_ctx ev encr ekey iv hash' aad)\<lparr>cx_in := pl\<rparr>) (length mac) = Some mac"
    using wf(3) hash' mac ctx by (auto simp: checksum_def)
  from decrypt_payload_ok[OF ev wf(1) hash'(3) this(1) ekey(2,3) plm pl(2) iv ct[folded ctx] this(2,3),
      of rnd' v] obtain encr' where
    "decrypt_payload ev rnd' v [] encr (Some ekey) hash' (aad @ iv @ ct @ mac) (iv @ ct @ mac) = Some (Some d, encr', [])"
    using pad_payload_strip[OF bl, of rnd d] pl(1) by auto
  then show ?thesis
    using sa ekey(1) v iv mac(2)
    by (simp add: ikev2_msg_decrypt_def print_hex_def mem_read_def cipher_ivlength_def Let_def)
qed

text \<open>
  What these functions leave alone: they change the key, the vector, the counter and the context of
  the cipher, and the key and the context of the hash.
\<close>

definition cipher_static :: "iked_cipher \<Rightarrow> iked_cipher \<Rightarrow> bool" where
  "cipher_static e e' \<longleftrightarrow> (\<exists>k i c x. e' = e\<lparr>encr_key := k, encr_iv := i, encr_civ := c, encr_ctx := x\<rparr>)"

definition hash_static :: "iked_hash \<Rightarrow> iked_hash \<Rightarrow> bool" where
  "hash_static h h' \<longleftrightarrow> (\<exists>k x. h' = h\<lparr>hash_key := k, hash_ctx := x\<rparr>)"

definition sa_static :: "iked_sa \<Rightarrow> iked_sa \<Rightarrow> bool" where
  "sa_static sa sa' \<longleftrightarrow>
     sa' = sa\<lparr>sa_encr := sa_encr sa', sa_integr := sa_integr sa'\<rparr> \<and>
     rel_option cipher_static (sa_encr sa) (sa_encr sa') \<and> rel_option hash_static (sa_integr sa) (sa_integr sa')"

lemma cipher_static_fields:
  assumes "cipher_static e e'"
  shows "encr_id e' = encr_id e" "encr_priv e' = encr_priv e" "encr_fixedkey e' = encr_fixedkey e"
    "encr_ivlength e' = encr_ivlength e" "encr_length e' = encr_length e"
    "encr_saltlength e' = encr_saltlength e" "cipher_wf ev e' = cipher_wf ev e"
  using assms by (auto simp: cipher_static_def cipher_wf_def)

lemma cipher_static_refl [simp, intro]: "cipher_static e e"
  unfolding cipher_static_def by (intro exI[of _ "encr_key e"] exI[of _ "encr_iv e"] exI[of _ "encr_civ e"]
      exI[of _ "encr_ctx e"]) simp

lemma cipher_static_update:
  "cipher_static e e' \<Longrightarrow> cipher_static e (e'\<lparr>encr_key := k\<rparr>)"
  "cipher_static e e' \<Longrightarrow> cipher_static e (e'\<lparr>encr_iv := i\<rparr>)"
  "cipher_static e e' \<Longrightarrow> cipher_static e (e'\<lparr>encr_civ := c\<rparr>)"
  "cipher_static e e' \<Longrightarrow> cipher_static e (e'\<lparr>encr_ctx := x\<rparr>)"
  unfolding cipher_static_def by (cases e; fastforce)+

lemma cipher_static_trans: "cipher_static e e' \<Longrightarrow> cipher_static e' e'' \<Longrightarrow> cipher_static e e''"
  unfolding cipher_static_def by (cases e) fastforce

lemma hash_static_fields:
  assumes "hash_static h h'"
  shows "hash_priv h' = hash_priv h" "hash_length_of h' = hash_length_of h" "hash_trunc h' = hash_trunc h"
    "hash_isaead h' = hash_isaead h" "hash_wf h' = hash_wf h" "hash_length h' = hash_length h"
    "hash_keylength h' = hash_keylength h"
  using assms by (auto simp: hash_static_def hash_wf_def hash_length_def hash_keylength_def)

lemma hash_static_refl [simp, intro]: "hash_static h h"
  unfolding hash_static_def by (intro exI[of _ "hash_key h"] exI[of _ "hash_ctx h"]) simp

lemma hash_static_update:
  "hash_static h h' \<Longrightarrow> hash_static h (h'\<lparr>hash_key := k\<rparr>)"
  "hash_static h h' \<Longrightarrow> hash_static h (h'\<lparr>hash_ctx := x\<rparr>)"
  unfolding hash_static_def by (cases h; fastforce)+

lemma cipher_op_static:
  "cipher_static e (cipher_setkey ok e key)"
  "cipher_static e (cipher_setiv ok rnd e iv)"
  "cipher_init ev ok e enc = Some (Some e') \<Longrightarrow> cipher_static e e'"
  "cipher_settag e d = Some e' \<Longrightarrow> cipher_static e e'"
  "cipher_aad e d = Some e' \<Longrightarrow> cipher_static e e'"
  "cipher_update ev e d cap = Some (Inr (out, n, e')) \<Longrightarrow> cipher_static e e'"
  by (auto simp: cipher_setkey_def cipher_setiv_def cipher_init_def cipher_settag_def cipher_aad_def
      cipher_update_def Let_def bind_Some_iff cipher_static_update split: if_splits option.splits)

lemma msg_hmac_static: "wlp (msg_hmac ev al h integr msg) (\<lambda>(tmp, n, h', al'). hash_static h h')"
  unfolding msg_hmac_def
  by (intro wlp_any wlp_intros)
    (auto simp: hash_setkey_def hash_init_def hash_update_def bind_Some_iff hash_static_update)

lemma cipher_step_static:
  assumes "cipher_static e x"
  shows "wlp (cipher_init_decrypt ev ok x) (\<lambda>r. \<forall>y. r = Some y \<longrightarrow> cipher_static e y)"
    and "wlp (cipher_init_encrypt ev ok x) (\<lambda>r. \<forall>y. r = Some y \<longrightarrow> cipher_static e y)"
    and "wlp (if b then Option.bind m (cipher_settag x) else Some x) (cipher_static e)"
    and "wlp (if b then Option.bind m (cipher_aad x) else Some x) (cipher_static e)"
    and "wlp (if b then cipher_aad x d else Some x) (cipher_static e)"
    and "wlp (cipher_update ev x d cap) (\<lambda>r. \<forall>out n y. r = Inr (out, n, y) \<longrightarrow> cipher_static e y)"
  using assms cipher_op_static cipher_static_trans
  by (auto intro!: wlpI simp: bind_Some_iff cipher_init_decrypt_def cipher_init_encrypt_def split: if_splits; blast)+

lemma cipher_key_static: "cipher_static e (cipher_setiv ok' rnd (cipher_setkey ok e k) iv)"
  using cipher_op_static(1,2) cipher_static_trans by blast

lemma decrypt_finish_static:
  assumes "cipher_static e x"
  shows "wlp (decrypt_finish ev x ct cap) (\<lambda>(r, y). cipher_static e y)"
  unfolding decrypt_finish_def
  by (intro wlp_intros wlp_bind[OF cipher_step_static(6)[OF assms]]; (intro wlp_any)?) (use assms in auto)

lemma decrypt_payload_static:
  "wlp (decrypt_payload ev rnd v al e key h msg src) (\<lambda>(r, e', al'). cipher_static e e')"
  unfolding decrypt_payload_def
  by (intro wlp_intros wlp_bind[OF cipher_step_static(1)[OF cipher_key_static]] wlp_bind[OF cipher_step_static(3)]
      wlp_bind[OF cipher_step_static(4)] wlp_bind[OF decrypt_finish_static] wlp_any[of "mem_read _ _ _"]
      wlp_any[of key] | simp add: cipher_key_static; fail)+

lemma encrypt_padded_static:
  "wlp (encrypt_padded ev rnd al e key h src aad) (\<lambda>(r, e', al'). cipher_static e e')"
  unfolding encrypt_padded_def
  by (intro wlp_intros wlp_bind[OF cipher_step_static(2)[OF cipher_key_static]] wlp_bind[OF cipher_step_static(5)]
      wlp_bind[OF cipher_step_static(6)] wlp_any[of "cipher_final _ _"] wlp_any[of "mem_read _ _ _"]
      wlp_any[of key] | simp add: cipher_key_static; fail)+

lemma sa_static_refl [simp]: "sa_static sa sa"
  by (cases sa) (auto simp: sa_static_def option.rel_refl)

lemma sa_static_cipher:
  "sa_encr sa = Some e \<Longrightarrow> cipher_static e e' \<Longrightarrow> sa_static sa (sa\<lparr>sa_encr := Some e'\<rparr>)"
  by (cases sa) (auto simp: sa_static_def option.rel_refl)

lemma sa_static_hash:
  "sa_integr sa = Some h \<Longrightarrow> hash_static h h' \<Longrightarrow> sa_static sa (sa\<lparr>sa_integr := Some h'\<rparr>)"
  by (cases sa) (auto simp: sa_static_def option.rel_refl)

lemma sa_static_both:
  "sa_encr sa = Some e \<Longrightarrow> cipher_static e e' \<Longrightarrow> sa_integr sa = Some h \<Longrightarrow> hash_static h h' \<Longrightarrow>
   sa_static sa (sa\<lparr>sa_integr := Some h', sa_encr := Some e'\<rparr>)"
  by (cases sa) (auto simp: sa_static_def)

text \<open>The SA a message function returns.\<close>

definition static_result :: "iked_sa \<Rightarrow> byte list option \<times> iked_sa option \<times> bool list \<Rightarrow> bool" where
  "static_result sa res \<longleftrightarrow> (\<exists>sa'. fst (snd res) = Some sa' \<and> sa_static sa sa')"

lemma ikev2_msg_encrypt_static: "wlp (ikev2_msg_encrypt ev rnd al (Some sa) d aad) (static_result sa)"
  unfolding ikev2_msg_encrypt_def option.case
  by (intro wlp_intros wlp_bind[OF encrypt_padded_static] wlp_any[of "mem_read _ _ _"]
      | auto simp: static_result_def intro: sa_static_cipher; fail)+

lemma ikev2_msg_integr_static: "wlp (ikev2_msg_integr ev al (Some sa) msg) (static_result sa)"
  unfolding ikev2_msg_integr_def option.case
  by (intro wlp_intros wlp_bind[OF msg_hmac_static] wlp_any[of "put_checksum _ _ _"] wlp_any[of "cipher_gettag _ _ _"]
      | auto simp: static_result_def intro: sa_static_hash; fail)+

lemma decrypt_verify_static: "wlp (decrypt_verify ev v al h integr msg src) (\<lambda>(b, h', al'). hash_static h h')"
  unfolding decrypt_verify_def
  by (intro wlp_intros wlp_bind[OF msg_hmac_static] wlp_any[of "mem_read _ _ _"] wlp_any[of "print_hex _ _ _ _"]
      | simp; fail)+

lemma ikev2_msg_decrypt_static: "wlp (ikev2_msg_decrypt ev rnd v al (Some sa) msg src) (static_result sa)"
proof -
  have verify: "wlp (if b then Some (True, h, al) else decrypt_verify ev v al h integr msg src)
      (\<lambda>(b, h', al'). hash_static h h')" for b h integr
    using decrypt_verify_static by auto
  show ?thesis
    unfolding ikev2_msg_decrypt_def option.case
    by (intro wlp_intros wlp_bind[OF verify] wlp_bind[OF decrypt_payload_static] wlp_any[of "print_hex _ _ _ _"]
      | auto simp: static_result_def intro: sa_static_hash sa_static_both; fail)+
qed

lemma sa_static_crypto:
  assumes "sa_static sa sa'"
  shows "sa_crypto_ok ev sa' = sa_crypto_ok ev sa" "sa_peers sa' x = sa_peers sa x" "sa_peers x sa' = sa_peers x sa"
    "sh_initiator sa' = sh_initiator sa" "sa_fragments sa' = sa_fragments sa"
proof -
  obtain eo ho where sa': "sa' = sa\<lparr>sa_encr := eo, sa_integr := ho\<rparr>"
    and rel: "rel_option cipher_static (sa_encr sa) eo" "rel_option hash_static (sa_integr sa) ho"
    using assms by (auto simp: sa_static_def)
  show "sa_crypto_ok ev sa' = sa_crypto_ok ev sa" "sa_peers sa' x = sa_peers sa x" "sa_peers x sa' = sa_peers x sa"
    using rel unfolding sa'
    by (auto simp: sa_crypto_ok_def sa_peers_def cipher_static_fields hash_static_fields option_rel_Some1
        option_rel_Some2 same_cipher_def same_hash_def rel_option_iff split: option.splits)
  show "sh_initiator sa' = sh_initiator sa" "sa_fragments sa' = sa_fragments sa"
    by (simp_all add: sa')
qed

lemma sa_crypto_okE:
  assumes "sa_crypto_ok ev sa"
  obtains encr hash where "sa_encr sa = Some encr" "sa_integr sa = Some hash"
    "cipher_wf ev encr" "hash_wf hash" "hash_isaead hash = is_gcm (encr_priv encr)"
    "\<And>b. \<exists>k. (if b then sa_key_iencr sa else sa_key_rencr sa) = Some k \<and>
        encr_fixedkey encr \<le> length k \<and> length k \<le> IKED_MSGBUF_MAX"
    "\<And>b. \<exists>k. (\<not> hash_isaead hash \<longrightarrow> (if b then sa_key_iauth sa else sa_key_rauth sa) = Some k) \<and>
        length k \<le> IKED_MSGBUF_MAX"
proof -
  obtain encr hash where sa: "sa_encr sa = Some encr" "sa_integr sa = Some hash"
    "cipher_wf ev encr" "hash_wf hash" "hash_isaead hash = is_gcm (encr_priv encr)"
    "key_ok (encr_fixedkey encr) (sa_key_iencr sa)" "key_ok (encr_fixedkey encr) (sa_key_rencr sa)"
    "hash_isaead hash \<or> key_ok 0 (sa_key_iauth sa) \<and> key_ok 0 (sa_key_rauth sa)"
    using assms by (auto simp: sa_crypto_ok_def split: option.splits)
  have ik: "\<exists>k. (\<not> hash_isaead hash \<longrightarrow> (if b then sa_key_iauth sa else sa_key_rauth sa) = Some k) \<and>
      length k \<le> IKED_MSGBUF_MAX" for b
    using sa(8) by (cases "hash_isaead hash") (auto simp: key_ok_def intro: exI[of _ "[]"] split: option.splits)
  show ?thesis
    by (rule that[OF sa(1-5) _ ik]) (use sa(6,7) in \<open>auto simp: key_ok_def split: option.splits\<close>)
qed

text \<open>The other end recovers what was protected with our keys.\<close>

lemma peer_decrypts:
  assumes ev: "evp_ok ev" and sa: "sa_crypto_ok ev sa'" "sa_peers sa sa'"
    and sae: "sa_encr sa = Some encr" "sa_integr sa = Some hash" "cipher_wf ev encr"
    and ekey: "(if sh_initiator sa then sa_key_iencr sa else sa_key_rencr sa) = Some ekey"
    and ikey: "\<not> hash_isaead hash \<Longrightarrow> (if sh_initiator sa then sa_key_iauth sa else sa_key_rauth sa) = Some ikey"
      "length ikey \<le> IKED_MSGBUF_MAX"
    and pl: "pl = pad_payload rnd (encr_length encr) d" "length pl \<le> IKED_MSGBUF_MAX"
    and iv: "length iv = encr_ivlength encr"
    and ct: "EVP_CipherUpdate ev (payload_ctx ev encr ekey iv hash aad) pl = Some ct"
    and mac: "checksum ev hash ikey ((payload_ctx ev encr ekey iv hash aad)\<lparr>cx_in := pl\<rparr>) (aad @ iv @ ct) = Some mac"
      "length mac = hash_length hash"
  shows "\<exists>sa''. ikev2_msg_decrypt ev rnd' v [] (Some sa') (aad @ iv @ ct @ mac) (iv @ ct @ mac) =
    Some (Some d, Some sa'', [])"
proof (rule sa_crypto_okE[OF sa(1)])
  fix encr' hash' assume sa': "sa_encr sa' = Some encr'" "sa_integr sa' = Some hash'"
    and wf: "cipher_wf ev encr'" "hash_wf hash'" "hash_isaead hash' = is_gcm (encr_priv encr')"
    and ek: "\<And>b. \<exists>k. (if b then sa_key_iencr sa' else sa_key_rencr sa') = Some k \<and>
        encr_fixedkey encr' \<le> length k \<and> length k \<le> IKED_MSGBUF_MAX"
    and ik: "\<And>b. \<exists>k. (\<not> hash_isaead hash' \<longrightarrow> (if b then sa_key_iauth sa' else sa_key_rauth sa') = Some k) \<and>
        length k \<le> IKED_MSGBUF_MAX"
  have same: "same_cipher encr encr'" "same_hash hash hash'"
    using sa(2) sae sa' by (auto simp: sa_peers_def)
  have ekey': "(if \<not> sh_initiator sa' then sa_key_iencr sa' else sa_key_rencr sa') = Some ekey"
    and ikey': "\<not> hash_isaead hash' \<Longrightarrow> (if \<not> sh_initiator sa' then sa_key_iauth sa' else sa_key_rauth sa') = Some ikey"
    using sa(2) ekey ikey(1) same(2) by (auto simp: sa_peers_def same_hash_def split: if_splits)
  have "encr_fixedkey encr' \<le> length ekey" "length ekey \<le> IKED_MSGBUF_MAX"
    using ek[of "\<not> sh_initiator sa'"] ekey' by auto
  note keys = ekey' this ikey' ikey(2)
  note cs = crypt_ctx_same[OF sae(3) wf(1) same(1)]
  have ctx: "payload_ctx ev encr' ekey iv hash' aad = payload_ctx ev encr ekey iv hash aad"
    using same(2) by (simp add: payload_ctx_def cs same_hash_def)
  have mac': "checksum ev hash' ikey ((payload_ctx ev encr' ekey iv hash' aad)\<lparr>cx_in := pl\<rparr>) (aad @ iv @ ct) = Some mac"
    "length mac = hash_length hash'"
    using mac same_hash_length[OF same(2)] same(2) by (auto simp: ctx checksum_def same_hash_def)
  show ?thesis
    using ikev2_msg_decrypt_ok[OF ev sa' wf keys _ pl(2) _ ct[folded ctx] mac', of rnd d] pl(1) iv by (simp add: cs)
qed

lemma msg_roundtrip:
  fixes rnd :: "nat \<Rightarrow> nat \<Rightarrow> byte"
  assumes ev: "evp_ok ev" and sa: "sa_crypto_ok ev sa" "sa_crypto_ok ev sa'" "sa_peers sa sa'"
    and d: "length d + 96 \<le> IKED_MSGBUF_MAX"
  obtains e sa1 body sa2 where
    "ikev2_msg_encrypt ev rnd [] (Some sa) d aad = Some (Some e, Some sa1, [])" "sa_static sa sa1"
    "ikev2_msg_integr ev [] (Some sa1) (aad @ e) = Some (Some (aad @ body), Some sa2, [])" "sa_static sa1 sa2"
    "length body = length e"
    "\<And>encr hash. sa_encr sa = Some encr \<Longrightarrow> sa_integr sa = Some hash \<Longrightarrow>
       length e = cipher_ivlength encr + roundup (length d + 1) (cipher_length encr) + hash_length hash"
    "\<And>rnd' v. \<exists>sa''. ikev2_msg_decrypt ev rnd' v [] (Some sa') (aad @ body) body = Some (Some d, Some sa'', []) \<and>
       sa_static sa' sa''"
proof (rule sa_crypto_okE[OF sa(1)])
  fix encr hash assume sae: "sa_encr sa = Some encr" "sa_integr sa = Some hash"
    and wf: "cipher_wf ev encr" "hash_wf hash" "hash_isaead hash = is_gcm (encr_priv encr)"
    and ek: "\<And>b. \<exists>k. (if b then sa_key_iencr sa else sa_key_rencr sa) = Some k \<and>
        encr_fixedkey encr \<le> length k \<and> length k \<le> IKED_MSGBUF_MAX"
    and ik: "\<And>b. \<exists>k. (\<not> hash_isaead hash \<longrightarrow> (if b then sa_key_iauth sa else sa_key_rauth sa) = Some k) \<and>
        length k \<le> IKED_MSGBUF_MAX"
  obtain ekey where ekey: "(if sh_initiator sa then sa_key_iencr sa else sa_key_rencr sa) = Some ekey"
    using ek by blast
  obtain ikey where ikey: "\<not> hash_isaead hash \<Longrightarrow> (if sh_initiator sa then sa_key_iauth sa else sa_key_rauth sa) = Some ikey"
      "length ikey \<le> IKED_MSGBUF_MAX"
    using ik by blast
  define iv where "iv = fresh_iv (rnd 1) encr"
  define pl where "pl = pad_payload (rnd 0) (encr_length encr) d"
  define ctx where "ctx = (payload_ctx ev encr ekey iv hash aad)\<lparr>cx_in := pl\<rparr>"
  obtain ct e' where enc: "ikev2_msg_encrypt ev rnd [] (Some sa) d aad =
        Some (Some (iv @ ct @ replicate (hash_length hash) 0), Some (sa\<lparr>sa_encr := Some e'\<rparr>), [])"
    and ct: "EVP_CipherUpdate ev (payload_ctx ev encr ekey iv hash aad) pl = Some ct" "length ct = length pl"
    and ctx': "encr_ctx e' = Some ctx"
    using ikev2_msg_encrypt_ok[OF ev sa(1) sae ekey d, of rnd aad] unfolding iv_def pl_def ctx_def by blast
  have ctx_enc: "cx_enc ctx" "hash_isaead hash = is_gcm (cx_cipher ctx)"
    using wf(3) by (auto simp: ctx_def)
  obtain mac where mac: "checksum ev hash ikey ctx (aad @ iv @ ct) = Some mac" "length mac = hash_length hash"
    by (rule checksum_ok[OF ev wf(2) ctx_enc])
  have ikey': "\<not> hash_isaead hash \<Longrightarrow> (if sh_initiator (sa\<lparr>sa_encr := Some e'\<rparr>) then sa_key_iauth (sa\<lparr>sa_encr := Some e'\<rparr>)
      else sa_key_rauth (sa\<lparr>sa_encr := Some e'\<rparr>)) = Some ikey"
    using ikey(1) by (cases "sh_initiator sa") simp_all
  obtain sa2 where int: "ikev2_msg_integr ev [] (Some (sa\<lparr>sa_encr := Some e'\<rparr>))
      ((aad @ iv @ ct) @ replicate (hash_length hash) 0) = Some (Some ((aad @ iv @ ct) @ mac), Some sa2, [])"
    using ikev2_msg_integr_ok[OF ev _ _ wf(2) ctx' ctx_enc ikey' ikey(2) mac(1)] sae by auto
  have bl: "0 < encr_length encr" "encr_length encr \<le> 16"
    using cipher_length_pos[of ev encr] ev wf(1) by (auto simp: evp_ok_def cipher_length_def)
  have "length pl \<le> IKED_MSGBUF_MAX"
    using pad_payload_length[OF bl(1), of "rnd 0" d] roundup_less[OF bl(1), of "length d + 1"] bl(2) d
    unfolding pl_def by linarith
  from peer_decrypts[OF ev sa(2,3) sae wf(1) ekey ikey pl_def this _ ct(1) mac[unfolded ctx_def]]
  have "\<exists>sa''. ikev2_msg_decrypt ev rnd' v [] (Some sa') (aad @ iv @ ct @ mac) (iv @ ct @ mac) =
      Some (Some d, Some sa'', [])" for rnd' v
    using length_fresh_iv[OF wf(1), of "rnd 1"] by (simp add: iv_def)
  then have dec: "\<exists>sa''. ikev2_msg_decrypt ev rnd' v [] (Some sa') (aad @ iv @ ct @ mac) (iv @ ct @ mac) =
      Some (Some d, Some sa'', []) \<and> sa_static sa' sa''" for rnd' v
    using wlpD[OF ikev2_msg_decrypt_static] by (fastforce simp: static_result_def)
  have len: "length (iv @ ct @ replicate (hash_length hash) 0) =
      cipher_ivlength encr + roundup (length d + 1) (cipher_length encr) + hash_length hash"
    using ct(2) length_fresh_iv[OF wf(1), of "rnd 1"] pad_payload_length[OF bl(1), of "rnd 0" d]
    by (simp add: iv_def pl_def cipher_ivlength_def cipher_length_def)
  show ?thesis
    by (rule that[OF enc _ _ _ _ _ dec])
      (use int mac(2) len sae wlpD[OF ikev2_msg_encrypt_static enc] wlpD[OF ikev2_msg_integr_static int]
        in \<open>simp_all add: static_result_def\<close>)
qed

subsection \<open>Authenticity\<close>

text \<open>The checksum at the end of \<open>src\<close> is that of the message without its last bytes.\<close>

definition mac_matches :: "evp \<Rightarrow> iked_hash \<Rightarrow> byte list \<Rightarrow> byte list \<Rightarrow> byte list \<Rightarrow> bool" where
  "mac_matches ev hash key msg src \<longleftrightarrow>
     (\<exists>md. hash_priv hash = Some md \<and>
        drop (length src - hash_length hash) src =
          take (hash_length hash) (HMAC_bytes ev md key (take (length msg - hash_length hash) msg)))"

text \<open>
  The library accepts the tag at the end of \<open>src\<close> for the ciphertext before it, the nonce made of the
  salt and the transmitted vector, and the part of the message before \<open>src\<close> as associated data.
\<close>

definition gcm_accepts :: "evp \<Rightarrow> iked_cipher \<Rightarrow> iked_hash \<Rightarrow> byte list \<Rightarrow> byte list \<Rightarrow> byte list \<Rightarrow> bool" where
  "gcm_accepts ev encr hash key msg src \<longleftrightarrow>
     EVP_CipherFinal_ok ev
       \<lparr>cx_cipher = encr_priv encr, cx_enc = False,
        cx_key = take (EVP_CIPHER_key_length ev (encr_priv encr)) key,
        cx_iv = cipher_nonce ev encr key (take (encr_ivlength encr) src),
        cx_aad = take (length msg - length src) msg,
        cx_in = take (length src - hash_length hash - encr_ivlength encr) (drop (encr_ivlength encr) src),
        cx_tag = Some (drop (length src - hash_length hash) src)\<rparr>"

lemma msg_hmac_result:
  assumes "evp_sizes ev" "hash_wf hash" "\<not> hash_isaead hash" "hash_priv hash = Some md"
  shows "wlp (msg_hmac ev al hash (Some key) msg) (\<lambda>(tmp, n, h', al').
    tmp = HMAC_bytes ev md key (take (usub (length msg) (hash_length hash)) msg) \<and>
    usub (length msg) (hash_length hash) \<le> length msg \<and> hash_length h' = hash_length hash)"
proof -
  have len: "length (HMAC_bytes ev md k d) = hash_length_of hash" for k d
    using assms by (auto simp: evp_sizes_def hash_wf_def)
  show ?thesis
    using assms(4) len unfolding msg_hmac_def
    by (intro wlp_any wlp_intros)
      (auto simp: hash_setkey_def hash_init_def hash_update_def hash_final_def bind_Some_iff buf_new_eq
        mem_read_def mem_write_whole hash_keylength_def hash_length_def Let_def split: if_splits,
        metis list.size(3))
qed

lemma decrypt_verify_authentic:
  assumes "evp_sizes ev" "hash_wf hash" "\<not> hash_isaead hash" "length src \<le> length msg"
    "hash_length hash \<le> length src"
  shows "wlp (decrypt_verify ev v al hash (Some key) msg src) (\<lambda>(b, h', al'). b \<longrightarrow> mac_matches ev hash key msg src)"
proof -
  obtain md where md: "hash_priv hash = Some md"
    using assms(2,3) by (auto simp: hash_wf_def)
  have us: "usub (length msg) (hash_length hash) = length msg - hash_length hash"
    using assms(4,5) by simp
  show ?thesis
    unfolding decrypt_verify_def
    by (intro wlp_intros wlp_bind[OF msg_hmac_result[OF assms(1-3) md]] wlp_any[of "mem_read _ _ _"]
        wlp_any[of "print_hex _ _ _ _"])
      (use md us in \<open>auto simp: mac_matches_def mem_read_def split: if_splits\<close>)
qed
lemma cipher_init_result:
  assumes "cipher_wf ev e" "encr_key e = Some key" "encr_fixedkey e \<le> length key" "encr_iv e = Some iv"
  shows "wlp (cipher_init ev ok e enc) (\<lambda>r. \<forall>y. r = Some y \<longrightarrow> y = e\<lparr>encr_ctx := Some (crypt_ctx ev e key iv enc)\<rparr>)"
proof -
  have "encr_saltlength e \<le> length key"
    using assms(1,3) by (simp add: cipher_wf_def)
  then show ?thesis
    using assms(2,4)
    by (auto simp: cipher_init_def wlp_def bind_Some_iff Let_def mem_read_def crypt_ctx_def cipher_nonce_def
        split: if_splits)
qed

lemma cipher_update_result:
  "wlp (cipher_update ev e d cap) (\<lambda>r. \<forall>out n y. r = Inr (out, n, y) \<longrightarrow>
     (\<exists>ctx. encr_ctx e = Some ctx \<and> encr_ctx y = Some (ctx\<lparr>cx_in := cx_in ctx @ d\<rparr>)))"
  by (auto simp: cipher_update_def wlp_def bind_Some_iff split: option.splits)

lemma cipher_final_result:
  "wlp (cipher_final ev y) (\<lambda>b. b \<longrightarrow> (\<exists>ctx. encr_ctx y = Some ctx \<and> EVP_CipherFinal_ok ev ctx))"
  by (auto simp: cipher_final_def wlp_def bind_Some_iff)

lemma decrypt_finish_result:
  "wlp (decrypt_finish ev e ct cap) (\<lambda>(r, e'). r \<noteq> None \<longrightarrow>
     (\<exists>ctx. encr_ctx e = Some ctx \<and> EVP_CipherFinal_ok ev (ctx\<lparr>cx_in := cx_in ctx @ ct\<rparr>)))"
proof -
  have "strip_padding [] 0 0 = None"
    by (simp add: strip_padding_def usub_def)
  then show ?thesis
    unfolding decrypt_finish_def
    by (intro wlp_intros wlp_bind[OF cipher_update_result] wlp_bind[OF cipher_final_result]
        wlp_any[of "if _ then None else _"]) auto
qed

lemma decrypt_init_result:
  assumes "cipher_wf ev encr" "encr_fixedkey encr \<le> length key" "encr_ivlength encr \<le> length src"
  shows "wlp (cipher_init_decrypt ev ok (cipher_setiv ok' rnd (cipher_setkey ok'' encr key)
      (mem_read src 0 (cipher_ivlength encr))))
    (\<lambda>r. \<forall>y. r = Some y \<longrightarrow> encr_ctx y = Some (crypt_ctx ev encr key (take (encr_ivlength encr) src) False))"
proof (cases "buf_new ok'' key = None \<or> buf_new ok' (take (encr_ivlength encr) src) = None")
  case True
  then show ?thesis
    using assms(3)
    by (auto simp: cipher_init_decrypt_def cipher_init_def cipher_setiv_def cipher_setkey_def mem_read_def
        cipher_ivlength_def wlp_def bind_Some_iff Let_def split: if_splits)
next
  case False
  define e where "e = encr\<lparr>encr_key := Some key, encr_iv := Some (take (encr_ivlength encr) src)\<rparr>"
  have e: "cipher_setiv ok' rnd (cipher_setkey ok'' encr key) (mem_read src 0 (cipher_ivlength encr)) = e"
    using False assms(3) by (auto simp: e_def cipher_setiv_def cipher_setkey_def mem_read_def cipher_ivlength_def
        buf_new_eq split: if_splits)
  have "crypt_ctx ev e key iv False = crypt_ctx ev encr key iv False" for iv
    by (simp add: e_def crypt_ctx_def cipher_nonce_def)
  then show ?thesis
    unfolding cipher_init_decrypt_def e
    using cipher_init_result[of ev e key "take (encr_ivlength encr) src" ok False] assms(1,2)
    by (auto simp: e_def wlp_def)
qed

lemma decrypt_payload_authentic:
  assumes wf: "cipher_wf ev encr" "hash_isaead hash" and key: "encr_fixedkey encr \<le> length key"
    and len: "length src \<le> length msg" "hash_length hash + encr_ivlength encr \<le> length src"
  shows "wlp (decrypt_payload ev rnd v al encr (Some key) hash msg src)
    (\<lambda>(r, e', al'). r \<noteq> None \<longrightarrow> gcm_accepts ev encr hash key msg src)"
proof -
  let ?ctx = "crypt_ctx ev encr key (take (encr_ivlength encr) src) False"
  let ?tag = "Some (drop (length src - hash_length hash) src)"
  have iv: "encr_ivlength encr \<le> length src"
    using len(2) by linarith
  have tag: "wlp (if hash_isaead hash then Option.bind (mem_read src (length src - hash_length hash) (hash_length hash))
      (cipher_settag x) else Some x) (\<lambda>y. encr_ctx y = Some (?ctx\<lparr>cx_tag := ?tag\<rparr>))"
    if "encr_ctx x = Some ?ctx" for x
    using that wf(2) len(2) by (auto simp: wlp_def bind_Some_iff cipher_settag_def mem_read_def)
  have aad: "wlp (if hash_isaead hash then Option.bind (mem_read msg 0 (usub (length msg) (length src)))
      (cipher_aad x) else Some x)
      (\<lambda>y. encr_ctx y = Some (?ctx\<lparr>cx_tag := ?tag, cx_aad := take (length msg - length src) msg\<rparr>))"
    if "encr_ctx x = Some (?ctx\<lparr>cx_tag := ?tag\<rparr>)" for x
    using that wf(2) len(1) by (auto simp: wlp_def bind_Some_iff cipher_aad_def mem_read_def crypt_ctx_def)
  show ?thesis
    unfolding decrypt_payload_def Option.bind.simps
    by (intro wlp_intros wlp_bind[OF decrypt_init_result[OF wf(1) key iv]] wlp_bind[OF tag] wlp_bind[OF aad]
        wlp_bind[OF decrypt_finish_result] wlp_any[of "mem_read _ _ _"]
      | (simp add: gcm_accepts_def crypt_ctx_def cipher_ivlength_def mem_read_def split: if_splits; fail))+
qed
definition msg_authentic :: "evp \<Rightarrow> iked_sa \<Rightarrow> byte list \<Rightarrow> byte list \<Rightarrow> bool" where
  "msg_authentic ev sa msg src \<longleftrightarrow>
     (\<exists>encr hash ekey. sa_encr sa = Some encr \<and> sa_integr sa = Some hash \<and>
        (if \<not> sh_initiator sa then sa_key_iencr sa else sa_key_rencr sa) = Some ekey \<and>
        (if hash_isaead hash then gcm_accepts ev encr hash ekey msg src
         else \<exists>ikey. (if \<not> sh_initiator sa then sa_key_iauth sa else sa_key_rauth sa) = Some ikey \<and>
           mac_matches ev hash ikey msg src))"

lemma ikev2_msg_decrypt_authentic:
  assumes ev: "evp_sizes ev" and sa: "sa_crypto_ok ev sa" and len: "length src \<le> length msg"
  shows "wlp (ikev2_msg_decrypt ev rnd v al (Some sa) msg src) (\<lambda>(r, sa', al'). r \<noteq> None \<longrightarrow> msg_authentic ev sa msg src)"
proof (rule sa_crypto_okE[OF sa])
  fix encr hash assume sae: "sa_encr sa = Some encr" "sa_integr sa = Some hash"
    and wf: "cipher_wf ev encr" "hash_wf hash" "hash_isaead hash = is_gcm (encr_priv encr)"
    and ek: "\<And>b. \<exists>k. (if b then sa_key_iencr sa else sa_key_rencr sa) = Some k \<and>
        encr_fixedkey encr \<le> length k \<and> length k \<le> IKED_MSGBUF_MAX"
    and ik: "\<And>b. \<exists>k. (\<not> hash_isaead hash \<longrightarrow> (if b then sa_key_iauth sa else sa_key_rauth sa) = Some k) \<and>
        length k \<le> IKED_MSGBUF_MAX"
  obtain ekey where ekey: "(if \<not> sh_initiator sa then sa_key_iencr sa else sa_key_rencr sa) = Some ekey"
      "encr_fixedkey encr \<le> length ekey"
    using ek by blast
  let ?ik = "if \<not> sh_initiator sa then sa_key_iauth sa else sa_key_rauth sa"
  obtain ikey where ikey: "\<not> hash_isaead hash \<Longrightarrow> ?ik = Some ikey"
    using ik by blast
  have goal: "msg_authentic ev sa msg src" if "hash_isaead hash \<Longrightarrow> gcm_accepts ev encr hash ekey msg src"
      "\<not> hash_isaead hash \<Longrightarrow> mac_matches ev hash ikey msg src"
    using that sae ekey(1) ikey by (auto simp: msg_authentic_def)
  have verify: "wlp (if hash_isaead hash then Some (True, hash, al) else decrypt_verify ev v al hash ?ik msg src)
      (\<lambda>(b, h', al'). hash_static hash h' \<and> (b \<and> \<not> hash_isaead hash \<longrightarrow> mac_matches ev hash ikey msg src))"
    if "hash_length hash \<le> length src"
    using decrypt_verify_authentic[OF ev wf(2) _ len that, of v al ikey]
      decrypt_verify_static[of ev v al hash "Some ikey" msg src]
    by (cases "hash_isaead hash") (auto simp: ikey wlp_def)
  have payload: "wlp (decrypt_payload ev rnd v al' encr (Some ekey) h' msg src)
      (\<lambda>(r, e', al'). r \<noteq> None \<and> hash_isaead hash \<longrightarrow> gcm_accepts ev encr hash ekey msg src)"
    if "hash_static hash h'" "hash_length hash + encr_ivlength encr \<le> length src" for h' al'
    using decrypt_payload_authentic[OF wf(1) _ ekey(2) len, of h' rnd v al'] that hash_static_fields[OF that(1)]
    by (auto simp: wlp_def gcm_accepts_def)
  show ?thesis
    unfolding ikev2_msg_decrypt_def option.case sae prod.case ekey(1) Let_def
    by (intro wlp_intros wlp_bind[OF verify] wlp_bind[OF payload] wlp_any[of "print_hex _ _ _ _"])
      (auto simp: cipher_ivlength_def intro: goal)
qed

subsection \<open>A cryptographic library for examples\<close>

text \<open>A library that satisfies its contract: the ciphers invert every bit and the checksums are sums.\<close>

definition toy_sum :: "nat \<Rightarrow> byte list \<Rightarrow> byte list" where
  "toy_sum n d = replicate n (sum_list d)"

definition toy_evp :: evp where
  "toy_evp =
     \<lparr>EVP_CIPHER_block_size = (\<lambda>c. fst (cipher_sizes c)),
      EVP_CIPHER_key_length = (\<lambda>c. fst (snd (cipher_sizes c))),
      EVP_CIPHER_iv_length = (\<lambda>c. snd (snd (cipher_sizes c))),
      HMAC_bytes = (\<lambda>md key d. toy_sum (md_length md) (key @ d)),
      EVP_CipherUpdate = (\<lambda>ctx d. Some (map not d)),
      EVP_CipherFinal_ok = (\<lambda>ctx. cx_enc ctx \<or> \<not> is_gcm (cx_cipher ctx) \<or>
        (\<exists>t\<in>set_option (cx_tag ctx). t = toy_sum (length t) (cx_key ctx @ cx_aad ctx @ map not (cx_in ctx)))),
      EVP_gcm_tag = (\<lambda>ctx n. Some (toy_sum n (cx_key ctx @ cx_aad ctx @ cx_in ctx)))\<rparr>"

lemma toy_evp_ok: "evp_ok toy_evp"
proof -
  have "map not (map not d) = d" for d :: "byte list"
    by (simp add: comp_def)
  then show ?thesis
    by (auto simp: evp_ok_def evp_sizes_def evp_inverse_def evp_final_def toy_evp_def toy_sum_def)
qed

definition toy_key :: "byte list" where
  "toy_key = map of_nat [1..<41]"

text \<open>The two ends of an SA with AES-CBC-256 and HMAC-SHA2-256-128.\<close>

definition toy_sa :: "bool \<Rightarrow> iked_sa" where
  "toy_sa initiator = new_sa\<lparr>sh_initiator := initiator,
     sa_encr := cipher_new toy_evp True IKEV2_XFORMTYPE_ENCR 12 256,
     sa_integr := hash_new True IKEV2_XFORMTYPE_INTEGR 12,
     sa_key_iencr := Some toy_key, sa_key_rencr := Some (rev toy_key),
     sa_key_iauth := Some toy_key, sa_key_rauth := Some (rev toy_key)\<rparr>"

lemma toy_sa_ok: "sa_crypto_ok toy_evp (toy_sa i)" "sa_peers (toy_sa i) (toy_sa (\<not> i))"
proof -
  obtain e where e: "cipher_new toy_evp True IKEV2_XFORMTYPE_ENCR 12 256 = Some e"
    and fk: "encr_fixedkey e = 32" "encr_priv e = EVP_aes_256_cbc"
    by (simp add: cipher_new_def cipher_alg_def Let_def toy_evp_def)
  obtain h where h: "hash_new True IKEV2_XFORMTYPE_INTEGR 12 = Some h" and ah: "\<not> hash_isaead h"
    by (simp add: hash_new_def hash_alg_def)
  have "cipher_wf toy_evp e" "hash_wf h"
    using cipher_new_wf[OF _ e] hash_new_wf[OF h] toy_evp_ok by (auto simp: evp_ok_def)
  then show "sa_crypto_ok toy_evp (toy_sa i)"
    using fk ah by (simp add: sa_crypto_ok_def toy_sa_def e h key_ok_def toy_key_def)
  show "sa_peers (toy_sa i) (toy_sa (\<not> i))"
    by (simp add: sa_peers_def toy_sa_def e h same_cipher_def same_hash_def)
qed
subsection \<open>Properties\<close>





end
