(* ===== verification/Pld.thy ===== *)
theory Pld
  imports Ikemsg
begin

section \<open>The payload parser: iked/ikev2_pld.c, iked/eap.c\<close>

text \<open>
  The parser of received (and, for logging, of sent) messages.  The buffer being parsed is a list of
  bytes and every read of it goes through \<open>mem_read\<close>, whose failure is the outer \<open>None\<close>: a definition
  that returns \<open>Some\<close> has read inside the buffer only.  \<open>pstate\<close> is the message \<^verbatim>\<open>msg->msg_parent\<close> the
  payloads are collected in, with the SA it belongs to, the statistics the parser counts and the
  outcomes of the allocations.  The decrypted message \<^verbatim>\<open>emsg\<close> is a copy of its parent with other data
  and \<^verbatim>\<open>msg_e\<close> set, so the sub-parsers take the data and the flag \<open>e\<close> as arguments.  They return what the C
  functions return.  No message has \<^verbatim>\<open>msg_error\<close> set while it is parsed, so the call of
  \<^verbatim>\<open>ikev2_send_informational\<close> after a failing payload returns at once.
\<close>

record eap_msg =
  eam_identity :: "byte list option"
  eam_user :: "byte list option"
  eam_type :: byte
  eam_id :: byte
  eam_msrid :: byte
  eam_success :: bool
  eam_found :: bool
  eam_response :: bool
  eam_challenge :: "byte list"
  eam_ntresponse :: "byte list"
  eam_state :: nat

text \<open>A pointer to a buffer whose owner may have freed it.\<close>

datatype ibufp = NullBuf | LiveBuf "byte list" | FreedBuf

record iked_message =
  msg_data :: "byte list"
  msg_local :: sockaddr
  msg_peer :: sockaddr
  msg_response :: bool
  msg_natt_rcvd :: bool
  msg_nat_detected :: u32
  msg_policy :: "iked_policy option"
  msg_sa :: "iked_sa option"
  msg_proposals :: "iked_proposal list"
  msg_certreqs :: "(byte \<times> byte list) list"
  msg_rekey :: iked_spi
  msg_nonce :: "byte list option"
  msg_dhgroup :: u16
  msg_ke :: "byte list option"
  msg_auth :: iked_id
  msg_peerid :: iked_id
  msg_localid :: iked_id
  msg_cert :: iked_id
  msg_scert :: "iked_id list"
  msg_cookie :: "byte list option"
  msg_group :: u16
  msg_cpi :: u16
  msg_transform :: byte
  msg_flags :: u16
  msg_eap :: eap_msg
  msg_del_spisize :: nat
  msg_del_cnt :: nat
  msg_del_buf :: "byte list option"
  msg_del_protoid :: byte
  msg_cp :: byte
  msg_cp_addr :: "sockaddr option"
  msg_cp_addr6 :: "sockaddr option"
  msg_cp_dns :: "sockaddr option"
  msg_frag_num :: u16
  msg_update_sa_addresses :: bool
  msg_cookie2 :: ibufp
  msg_prop :: "nat option"

record pstate = iked_message +
  ps_alloc :: "bool list"
  ikes_frag_rcvd :: u64
  ikes_frag_rcvd_drop :: u64
  ikes_frag_reass_ok :: u64
  ikes_frag_reass_drop :: u64

text \<open>
  The level of verbosity, the library, and the results of the functions that make names for log
  messages: the generated table of identity types, \<^verbatim>\<open>getnameinfo\<close> and the ASN.1 printer of the library.
\<close>

record pcfg =
  pc_verbose :: nat
  pc_evp :: evp
  pc_rnd :: "nat \<Rightarrow> byte"
  pc_sha1 :: "byte list \<Rightarrow> byte list"
  pc_natt_force :: bool
  pc_natrnd :: "byte list"
  pc_id_name :: "byte \<Rightarrow> byte list"
  pc_addr_name :: "sockaddr \<Rightarrow> byte list"
  pc_asn1_name :: "byte list \<Rightarrow> byte list option"

definition frompeer :: "pstate \<Rightarrow> bool" where
  "frompeer s = ikev2_msg_frompeer (msg_sa s) (msg_data s)"

definition alloc_ok :: "pstate \<Rightarrow> bool \<times> pstate" where
  "alloc_ok s = (let (ok, al) = next_ok (ps_alloc s) in (ok, s\<lparr>ps_alloc := al\<rparr>))"

definition new_buf :: "byte list \<Rightarrow> pstate \<Rightarrow> byte list option \<times> pstate" where
  "new_buf d s = (let (ok, s) = alloc_ok s in (buf_new ok d, s))"

definition set_flag :: "u16 \<Rightarrow> pstate \<Rightarrow> pstate" where
  "set_flag f s = s\<lparr>msg_flags := msg_flags s OR f\<rparr>"

abbreviation (input) be16_at :: "byte list \<Rightarrow> nat \<Rightarrow> nat" where
  "be16_at h i \<equiv> be_val (take 2 (drop i h))"

subsection \<open>Headers\<close>

text \<open>The inner \<open>None\<close> is the return value \<open>-1\<close> of a \<^verbatim>\<open>validate\<close> function.\<close>

definition ikev2_validate_pld ::
    "byte list \<Rightarrow> nat \<Rightarrow> nat \<Rightarrow> (byte \<times> byte \<times> nat) option option" where
  "ikev2_validate_pld data off left =
     (if left < 4 then Some None
      else do {
        h \<leftarrow> mem_read data off 4;
        let len = be16_at h 2;
        Some (if left < len \<or> len < 4 then None else Some (h ! 0, h ! 1, len)) })"

text \<open>The fields more, length, number, protocol, size of the SPI and number of transforms.\<close>

definition ikev2_validate_sa ::
    "byte list \<Rightarrow> nat \<Rightarrow> nat \<Rightarrow> (byte \<times> nat \<times> byte \<times> byte \<times> byte \<times> byte) option option" where
  "ikev2_validate_sa data off left =
     (if left < 8 then Some None
      else do {
        h \<leftarrow> mem_read data off 8;
        let len = be16_at h 2;
        Some (if len < 8 \<or> left < len \<or> h ! 0 = 0 \<and> left \<noteq> len \<or> h ! 0 \<noteq> 0 \<and> left \<le> len then None
              else Some (h ! 0, len, h ! 4, h ! 5, h ! 6, h ! 7)) })"

definition ikev2_validate_xform ::
    "byte list \<Rightarrow> nat \<Rightarrow> nat \<Rightarrow> (byte \<times> nat \<times> byte \<times> u16) option option" where
  "ikev2_validate_xform data off tot =
     (if tot < 8 then Some None
      else do {
        h \<leftarrow> mem_read data off 8;
        let len = be16_at h 2;
        Some (if len < 8 \<or> tot < len then None
              else Some (h ! 0, len, h ! 4, of_nat (be16_at h 6))) })"

definition ikev2_validate_attr :: "byte list \<Rightarrow> nat \<Rightarrow> nat \<Rightarrow> (u16 \<times> u16) option option" where
  "ikev2_validate_attr data off tot =
     (if tot < 4 then Some None
      else do {
        h \<leftarrow> mem_read data off 4;
        Some (Some (of_nat (be16_at h 0), of_nat (be16_at h 2))) })"

text \<open>
  The headers of \<^verbatim>\<open>ikev2_validate_ke\<close>, \<^verbatim>\<open>_id\<close>, \<^verbatim>\<open>_cert\<close>, \<^verbatim>\<open>_certreq\<close>, \<^verbatim>\<open>_auth\<close>, \<^verbatim>\<open>_notify\<close>, \<^verbatim>\<open>_delete\<close>, \<^verbatim>\<open>_tss\<close>,
  \<^verbatim>\<open>_ef\<close>, \<^verbatim>\<open>_cp\<close> and \<^verbatim>\<open>_eap\<close> are copied when they fit; some of these functions refuse a zero in the first
  byte.
\<close>

definition ikev2_validate_hdr :: "nat \<Rightarrow> bool \<Rightarrow> byte list \<Rightarrow> nat \<Rightarrow> nat \<Rightarrow> byte list option option" where
  "ikev2_validate_hdr n nonzero data off left =
     (if left < n then Some None
      else do {
        h \<leftarrow> mem_read data off n;
        Some (if nonzero \<and> h ! 0 = 0 then None else Some h) })"

definition ikev2_validate_ke where "ikev2_validate_ke = ikev2_validate_hdr 4 False"

definition ikev2_validate_id where "ikev2_validate_id = ikev2_validate_hdr 4 True"

definition ikev2_validate_cert where "ikev2_validate_cert = ikev2_validate_hdr 1 True"

definition ikev2_validate_certreq where "ikev2_validate_certreq = ikev2_validate_hdr 1 False"

definition ikev2_validate_auth where "ikev2_validate_auth = ikev2_validate_hdr 4 True"

definition ikev2_validate_notify where "ikev2_validate_notify = ikev2_validate_hdr 4 False"

definition ikev2_validate_delete where "ikev2_validate_delete = ikev2_validate_hdr 4 True"

definition ikev2_validate_tss where "ikev2_validate_tss = ikev2_validate_hdr 4 False"

definition ikev2_validate_ef where "ikev2_validate_ef = ikev2_validate_hdr 4 False"

definition ikev2_validate_cp where "ikev2_validate_cp = ikev2_validate_hdr 4 False"

definition ikev2_validate_eap where "ikev2_validate_eap = ikev2_validate_hdr 4 False"

definition ikev2_validate_ts :: "byte list \<Rightarrow> nat \<Rightarrow> nat \<Rightarrow> (byte \<times> nat) option option" where
  "ikev2_validate_ts data off left =
     (if left < 8 then Some None
      else do {
        h \<leftarrow> mem_read data off 8;
        let len = be16_at h 2;
        Some (if len < 8 \<or> left < len then None else Some (h ! 0, len)) })"

subsection \<open>The SA payload\<close>

text \<open>The result is the key length attribute; the inner \<open>None\<close> is \<open>-1\<close>.\<close>

function ikev2_pld_attr :: "nat \<Rightarrow> byte list \<Rightarrow> nat \<Rightarrow> nat \<Rightarrow> u16 \<Rightarrow> u16 option option" where
  "ikev2_pld_attr v data off tot attrlength = do {
     a \<leftarrow> ikev2_validate_attr data off tot;
     (case a of
        None \<Rightarrow> Some None
      | Some (attr_type, attr_length) \<Rightarrow>
          (let type = attr_type AND 0x7fff in
           if attr_type AND 0x8000 \<noteq> 0 then
             (let attrlength = (if type = 14 then attr_length else attrlength) in
              if 0 < tot - 4 then ikev2_pld_attr v data (off + 4) (tot - 4) attrlength
              else Some (Some attrlength))
           else if unat attr_length < 4 \<or> tot < unat attr_length then Some None
           else do {
             print_hex v data (off + 4) (unat attr_length - 4);
             if 0 < tot - unat attr_length
             then ikev2_pld_attr v data (off + unat attr_length) (tot - unat attr_length) attrlength
             else Some (Some attrlength) })) }"
  by pat_completeness auto
termination
  by (relation "measure (\<lambda>(v, data, off, tot, a). tot)") auto

text \<open>\<^verbatim>\<open>config_add_transform\<close> on the proposal of the peer that is being parsed.\<close>

definition add_peer_transform :: "byte \<Rightarrow> u16 \<Rightarrow> u16 \<Rightarrow> pstate \<Rightarrow> (int \<times> pstate) option" where
  "add_peer_transform type xid attrlength s =
     (if \<not> frompeer s then Some (0, s)
      else do {
        i \<leftarrow> msg_prop s;
        if length (msg_proposals s) \<le> i then None
        else
          (let (ok, s) = alloc_ok s;
               (r, prop) = config_add_transform ok (msg_proposals s ! i) type xid attrlength attrlength
           in Some (r, s\<lparr>msg_proposals := (msg_proposals s)[i := prop]\<rparr>)) })"

function ikev2_pld_xform :: "nat \<Rightarrow> byte list \<Rightarrow> nat \<Rightarrow> nat \<Rightarrow> pstate \<Rightarrow> (int \<times> pstate) option" where
  "ikev2_pld_xform v data off tot s = do {
     x \<leftarrow> ikev2_validate_xform data off tot;
     (case x of
        None \<Rightarrow> Some (- 1, s)
      | Some (cont, len, type, xid) \<Rightarrow> do {
          a \<leftarrow> (if 8 < len then ikev2_pld_attr v data (off + 8) (len - 8) 0 else Some (Some 0));
          (case a of
             None \<Rightarrow> Some (- 1, s)
           | Some attrlength \<Rightarrow> do {
               (r, s) \<leftarrow> add_peer_transform type xid attrlength s;
               if r \<noteq> 0 then Some (r, s)
               else if cont = 3 then ikev2_pld_xform v data (off + len) (tot - len) s
               else Some (if tot - len \<noteq> 0 then - 1 else 0, s) }) }) }"
  by pat_completeness auto
termination
  by (relation "measure (\<lambda>(v, data, off, tot, s). tot)")
    (auto simp: ikev2_validate_xform_def Let_def bind_Some_iff split: if_splits)

text \<open>The proposal with its SPIs; \<open>False\<close> when \<^verbatim>\<open>config_add_proposal\<close> fails.\<close>

definition add_peer_proposal :: "byte \<Rightarrow> byte \<Rightarrow> u64 \<Rightarrow> byte \<Rightarrow> pstate \<Rightarrow> bool \<times> pstate" where
  "add_peer_proposal nr proto sv spisize s =
     (if \<not> frompeer s then (True, s)
      else
        (let (ok, s) = alloc_ok s in
         case config_add_proposal ok (msg_proposals s) nr proto of
           None \<Rightarrow> (False, s\<lparr>msg_prop := None\<rparr>)
         | Some (i, props) \<Rightarrow>
             (let prop = (props ! i)\<lparr>prop_peerspi := \<lparr>spi = sv, spi_size = spisize, spi_protoid = proto\<rparr>,
                prop_localspi := (prop_localspi (props ! i))\<lparr>spi_size := spisize, spi_protoid := proto\<rparr>\<rparr>
              in (True, s\<lparr>msg_proposals := props[i := prop], msg_prop := Some i\<rparr>))))"

text \<open>
  The transforms of a proposal: an unknown transform of the peer removes the proposal, any other
  failure ends the payload.
\<close>

definition sa_transforms :: "nat \<Rightarrow> byte list \<Rightarrow> byte \<Rightarrow> nat \<Rightarrow> nat \<Rightarrow> pstate \<Rightarrow> (int \<times> pstate) option" where
  "sa_transforms v data transforms off tot s =
     (if transforms = 0 then Some (0, s)
      else do {
        (r, s) \<leftarrow> ikev2_pld_xform v data off tot s;
        if r = - 2 \<and> frompeer s then do {
          i \<leftarrow> msg_prop s;
          Some (0, s\<lparr>msg_proposals := config_free_proposal (msg_proposals s) i, msg_prop := None\<rparr>) }
        else Some (if r \<noteq> 0 then - 1 else 0, s) })"

text \<open>The variable \<^verbatim>\<open>spi\<close> keeps its value from one proposal to the next.\<close>

function ikev2_pld_sa :: "nat \<Rightarrow> byte list \<Rightarrow> nat \<Rightarrow> nat \<Rightarrow> u64 \<Rightarrow> pstate \<Rightarrow> (int \<times> pstate) option" where
  "ikev2_pld_sa v data off left sv s = do {
     h \<leftarrow> ikev2_validate_sa data off left;
     (case h of
        None \<Rightarrow> Some (- 1, s)
      | Some (cont, len, nr, proto, spisize, transforms) \<Rightarrow>
          (let n = unat spisize; tot = len - 8 - n; left' = left - 8 - n in
           if n \<noteq> 0 \<and> (left - 8 < n \<or> len - 8 < n \<or> n \<noteq> 4 \<and> n \<noteq> 8) then Some (- 1, s)
           else do {
             d \<leftarrow> mem_read data (off + 8) n;
             let sv = (if n = 0 then sv else of_nat (be_val d));
             if left' < tot then Some (- 1, s)
             else
               (case add_peer_proposal nr proto sv spisize s of
                  (False, s) \<Rightarrow> Some (- 1, s)
                | (True, s) \<Rightarrow> do {
                    (r, s) \<leftarrow> sa_transforms v data transforms (off + 8 + n) tot s;
                    if r \<noteq> 0 then Some (- 1, s)
                    else if cont \<noteq> 0 then ikev2_pld_sa v data (off + 8 + n + tot) (left' - tot) sv s
                    else Some (0, s) }) })) }"
  by pat_completeness auto
termination
  by (relation "measure (\<lambda>(v, data, off, left, sv, s). left)")
    (auto simp: ikev2_validate_sa_def Let_def bind_Some_iff split: if_splits)

subsection \<open>Key exchange, identities, certificates, authentication data and nonces\<close>

definition ikev2_pld_ke :: "pcfg \<Rightarrow> byte list \<Rightarrow> nat \<Rightarrow> nat \<Rightarrow> pstate \<Rightarrow> (int \<times> pstate) option" where
  "ikev2_pld_ke cf data off left s = do {
     h \<leftarrow> ikev2_validate_ke data off left;
     (case h of
        None \<Rightarrow> Some (- 1, s)
      | Some kex \<Rightarrow>
          (let len = left - 4 in
           if len = 0 then Some (- 1, s)
           else do {
             print_hex (pc_verbose cf) data (off + 4) len;
             if \<not> frompeer s then Some (0, s)
             else if msg_ke s \<noteq> None then Some (- 1, s)
             else do {
               d \<leftarrow> mem_read data (off + 4) len;
               (case new_buf d s of
                  (None, s) \<Rightarrow> Some (- 1, s)
                | (Some b, s) \<Rightarrow> Some (0, s\<lparr>msg_ke := Some b, msg_dhgroup := of_nat (be16_at kex 0)\<rparr>)) } })) }"

text \<open>The text for identities of other types: as many hexadecimal digits as fit.\<close>

definition hex_digit :: "nat \<Rightarrow> byte" where
  "hex_digit n = of_nat (if n < 10 then 48 + n else 87 + n)"

fun print_hex_id :: "nat \<Rightarrow> byte list \<Rightarrow> byte list \<Rightarrow> byte list" where
  "print_hex_id len str [] = str"
| "print_hex_id len str (b # bs) =
     (let hex = [hex_digit (unat b div 16), hex_digit (unat b mod 16)] in
      case strlcat_fits len str hex of
        None \<Rightarrow> take (len - 1) (str @ hex)
      | Some str' \<Rightarrow> print_hex_id len str' bs)"

text \<open>The printed identity, or \<open>None\<close> for \<open>-1\<close>; \<open>ok\<close> is the outcome of the allocation in \<^verbatim>\<open>get_string\<close>.\<close>

definition ikev2_print_id :: "pcfg \<Rightarrow> bool \<Rightarrow> byte \<Rightarrow> nat \<Rightarrow> byte list option \<Rightarrow> nat \<Rightarrow> byte list option" where
  "ikev2_print_id cf ok idtype idoff idbuf idstrlen =
     (case idbuf of
        None \<Rightarrow> None
      | Some buf \<Rightarrow>
          if length buf \<le> idoff then None
          else
            (let ptr = drop idoff buf in
             Option.bind (Option.bind (strlcat_fits idstrlen [] (pc_id_name cf idtype))
                 (\<lambda>str. strlcat_fits idstrlen str [0x2f]))
               (\<lambda>str.
                  if idtype = 1 then
                    (if length ptr \<noteq> 4 then None
                     else strlcat_fits idstrlen str (pc_addr_name cf (Sin ptr 0)))
                  else if idtype = 2 \<or> idtype = 3 then
                    Option.bind (get_string ok ptr) (strlcat_fits idstrlen str)
                  else if idtype = 5 then
                    (if length ptr \<noteq> 16 then None
                     else strlcat_fits idstrlen str (pc_addr_name cf (Sin6 ptr 0 0)))
                  else if idtype = 9 then
                    Option.bind (pc_asn1_name cf ptr) (strlcat_fits idstrlen str)
                  else Some (print_hex_id idstrlen str ptr))))"

definition ikev2_pld_id ::
    "pcfg \<Rightarrow> byte list \<Rightarrow> nat \<Rightarrow> nat \<Rightarrow> byte \<Rightarrow> pstate \<Rightarrow> (int \<times> pstate) option" where
  "ikev2_pld_id cf data off left payload s = do {
     h \<leftarrow> ikev2_validate_id data off left;
     (case h of
        None \<Rightarrow> Some (- 1, s)
      | Some hdr \<Rightarrow> do {
          d \<leftarrow> mem_read data off left;
          (case new_buf d s of
             (None, s) \<Rightarrow> Some (- 1, s)
           | (Some buf, s) \<Rightarrow>
               (let (ok, s) = alloc_ok s;
                    idb = \<lparr>id_type = hdr ! 0, id_offset = 4, id_buf = Some buf\<rparr> in
                case ikev2_print_id cf ok (hdr ! 0) 4 (Some buf) 1024 of
                  None \<Rightarrow> Some (- 1, s)
                | Some idstr \<Rightarrow>
                    if \<not> frompeer s then Some (0, s)
                    else do {
                      sa \<leftarrow> msg_sa s;
                      if sh_initiator sa \<and> payload = 36 \<or> \<not> sh_initiator sa \<and> payload = 35 then
                        Some (if id_type (msg_peerid s) \<noteq> 0 then (- 1, s) else (0, s\<lparr>msg_peerid := idb\<rparr>))
                      else if \<not> sh_initiator sa \<and> payload = 36 then
                        Some (if id_type (msg_localid s) \<noteq> 0 then (- 1, s) else (0, s\<lparr>msg_localid := idb\<rparr>))
                      else Some (0, s) })) }) }"

text \<open>The slot for a certificate: the certificate itself or the first free supplemental one.\<close>

definition free_scert :: "iked_id list \<Rightarrow> nat option" where
  "free_scert scert = find (\<lambda>i. id_type (scert ! i) = 0) [0..<length scert]"

definition ikev2_pld_cert :: "pcfg \<Rightarrow> byte list \<Rightarrow> nat \<Rightarrow> nat \<Rightarrow> pstate \<Rightarrow> (int \<times> pstate) option" where
  "ikev2_pld_cert cf data off left s = do {
     h \<leftarrow> ikev2_validate_cert data off left;
     (case h of
        None \<Rightarrow> Some (- 1, s)
      | Some cert \<Rightarrow>
          (let len = left - 1 in do {
             print_hex (pc_verbose cf) data (off + 1) len;
             if \<not> frompeer s \<or> cert ! 0 = 254 then Some (0, s)
             else do {
               d \<leftarrow> mem_read data (off + 1) len;
               if id_type (msg_cert s) = 0 then
                 (case new_buf d s of
                    (None, s) \<Rightarrow> Some (- 1, s\<lparr>msg_cert := (msg_cert s)\<lparr>id_buf := None\<rparr>\<rparr>)
                  | (Some b, s) \<Rightarrow>
                      Some (0, s\<lparr>msg_cert := \<lparr>id_type = cert ! 0, id_offset = 0, id_buf = Some b\<rparr>\<rparr>))
               else
                 (case free_scert (msg_scert s) of
                    None \<Rightarrow> Some (0, s)
                  | Some i \<Rightarrow>
                      (case new_buf d s of
                         (None, s) \<Rightarrow>
                           Some (- 1, s\<lparr>msg_scert := (msg_scert s)[i := (msg_scert s ! i)\<lparr>id_buf := None\<rparr>]\<rparr>)
                       | (Some b, s) \<Rightarrow>
                           Some (0, s\<lparr>msg_scert :=
                             (msg_scert s)[i := \<lparr>id_type = cert ! 0, id_offset = 0, id_buf = Some b\<rparr>]\<rparr>))) } })) }"

definition ikev2_pld_certreq :: "pcfg \<Rightarrow> byte list \<Rightarrow> nat \<Rightarrow> nat \<Rightarrow> pstate \<Rightarrow> (int \<times> pstate) option" where
  "ikev2_pld_certreq cf data off left s = do {
     h \<leftarrow> ikev2_validate_certreq data off left;
     (case h of
        None \<Rightarrow> Some (- 1, s)
      | Some cert \<Rightarrow>
          (let len = left - 1 in do {
             print_hex (pc_verbose cf) data (off + 1) len;
             if \<not> frompeer s then Some (0, s)
             else if cert ! 0 = 4 \<and> len = 0 then Some (0, s)
             else if cert ! 0 = 4 \<and> len mod 20 \<noteq> 0 then Some (- 1, s)
             else do {
               d \<leftarrow> mem_read data (off + 1) len;
               (case alloc_ok s of
                  (False, s) \<Rightarrow> Some (- 1, s)
                | (True, s) \<Rightarrow>
                    (case new_buf d s of
                       (None, s) \<Rightarrow> Some (- 1, s)
                     | (Some b, s) \<Rightarrow> Some (0, s\<lparr>msg_certreqs := msg_certreqs s @ [(cert ! 0, b)]\<rparr>))) } })) }"
definition ikev2_pld_auth :: "pcfg \<Rightarrow> byte list \<Rightarrow> nat \<Rightarrow> nat \<Rightarrow> pstate \<Rightarrow> (int \<times> pstate) option" where
  "ikev2_pld_auth cf data off left s = do {
     h \<leftarrow> ikev2_validate_auth data off left;
     (case h of
        None \<Rightarrow> Some (- 1, s)
      | Some auth \<Rightarrow>
          (let len = left - 4 in do {
             print_hex (pc_verbose cf) data (off + 4) len;
             if \<not> frompeer s then Some (0, s)
             else if id_type (msg_auth s) \<noteq> 0 then Some (- 1, s)
             else do {
               d \<leftarrow> mem_read data (off + 4) len;
               let (b, s) = new_buf d s;
               Some (if b = None then - 1 else 0,
                     s\<lparr>msg_auth := \<lparr>id_type = auth ! 0, id_offset = 0, id_buf = b\<rparr>\<rparr>) } })) }"

definition ikev2_pld_nonce :: "pcfg \<Rightarrow> byte list \<Rightarrow> nat \<Rightarrow> nat \<Rightarrow> pstate \<Rightarrow> (int \<times> pstate) option" where
  "ikev2_pld_nonce cf data off left s =
     (if left = 0 then Some (- 1, s)
      else do {
        print_hex (pc_verbose cf) data off left;
        if \<not> frompeer s then Some (0, s)
        else if msg_nonce s \<noteq> None then Some (- 1, s)
        else do {
          d \<leftarrow> mem_read data off left;
          (case new_buf d s of
             (None, s) \<Rightarrow> Some (- 1, s)
           | (Some b, s) \<Rightarrow> Some (0, s\<lparr>msg_nonce := Some b\<rparr>)) } })"

subsection \<open>Notifications\<close>

abbreviation (input) IKED_POLICY_NATT_FORCE :: u32 where "IKED_POLICY_NATT_FORCE \<equiv> 0x100"

text \<open>
  The digest \<^verbatim>\<open>ikev2_nat_detection\<close> expects of a message of the peer: the SPIs of the message's header and
  an address, with random bytes added when NAT traversal is enforced.
\<close>

definition nat_address :: "sockaddr \<Rightarrow> byte list option" where
  "nat_address ss =
     (case ss of
        Sin a port \<Rightarrow> Some (a @ le_bytes 2 (unat port))
      | Sin6 a port _ \<Rightarrow> Some (a @ le_bytes 2 (unat port))
      | _ \<Rightarrow> None)"

definition ikev2_nat_detection :: "pcfg \<Rightarrow> bool \<Rightarrow> pstate \<Rightarrow> byte list option \<times> pstate" where
  "ikev2_nat_detection cf source s =
     (case mem_read (msg_data s) 0 IKE_HDR_SIZE of
        None \<Rightarrow> (None, s)
      | Some hdr \<Rightarrow>
          (let (ok, s) = alloc_ok s in
           if \<not> ok then (None, s)
           else
             (case nat_address (if source then msg_peer s else msg_local s) of
                None \<Rightarrow> (None, s)
              | Some a \<Rightarrow>
                  (let natt_force = (pc_natt_force cf \<or>
                         (case msg_policy s of None \<Rightarrow> False
                          | Some pol \<Rightarrow> has_flag pol IKED_POLICY_NATT_FORCE))
                   in (Some (pc_sha1 cf (take 16 hdr @ a @ (if natt_force then pc_natrnd cf else []))), s)))))"

definition notify_nat :: "pcfg \<Rightarrow> bool \<Rightarrow> byte list \<Rightarrow> pstate \<Rightarrow> int \<times> pstate" where
  "notify_nat cf source buf s =
     (if length buf \<noteq> 20 then (- 1, s)
      else
        (case ikev2_nat_detection cf source s of
           (None, s) \<Rightarrow> (- 1, s)
         | (Some md, s) \<Rightarrow>
             (let s = (if buf \<noteq> md
                       then s\<lparr>msg_nat_detected := msg_nat_detected s OR (if source then 1 else 2)\<rparr> else s)
              in (0, s\<lparr>msg_natt_rcvd := True\<rparr>))))"

definition notify_auth_failed :: "pstate \<Rightarrow> iked_sa \<Rightarrow> int \<times> pstate" where
  "notify_auth_failed s sa =
     (if sh_initiator sa = sa_stateok sa IKEV2_STATE_VALID then (- 1, s) else (0, set_flag 0x20 s))"

definition notify_rekey :: "byte \<Rightarrow> byte \<Rightarrow> byte list \<Rightarrow> pstate \<Rightarrow> int \<times> pstate" where
  "notify_rekey protoid spisize buf s =
     (if length buf \<noteq> unat spisize \<or> spi (msg_rekey s) \<noteq> 0 \<or> unat spisize \<noteq> 4 \<and> unat spisize \<noteq> 8 then (- 1, s)
      else (0, s\<lparr>msg_rekey := \<lparr>spi = of_nat (be_val buf), spi_size = spisize, spi_protoid = protoid\<rparr>\<rparr>))"

definition notify_ipcomp :: "byte list \<Rightarrow> pstate \<Rightarrow> int \<times> pstate" where
  "notify_ipcomp buf s =
     (if length buf < 3 then (0, s)
      else (0, set_flag 0x80 (s\<lparr>msg_cpi := of_nat (le_val (take 2 buf)), msg_transform := buf ! 2\<rparr>)))"

text \<open>
  The old cookie is freed before the new one is allocated; when that fails, the copy \<^verbatim>\<open>emsg\<close> loses its
  pointer but the parent keeps the one to the freed buffer.
\<close>

definition notify_cookie2 :: "byte list \<Rightarrow> pstate \<Rightarrow> iked_sa \<Rightarrow> int \<times> pstate" where
  "notify_cookie2 buf s sa =
     (if \<not> sa_mobike sa \<or> length buf < 8 \<or> 64 < length buf then (0, s)
      else
        (case new_buf buf s of
           (None, s) \<Rightarrow> (- 1, case msg_cookie2 s of NullBuf \<Rightarrow> s | _ \<Rightarrow> s\<lparr>msg_cookie2 := FreedBuf\<rparr>)
         | (Some b, s) \<Rightarrow> (0, s\<lparr>msg_cookie2 := LiveBuf b\<rparr>)))"

definition notify_cookie :: "byte list \<Rightarrow> pstate \<Rightarrow> int \<times> pstate" where
  "notify_cookie buf s =
     (if length buf < 1 \<or> 64 < length buf then (0, s)
      else
        (case new_buf buf s of
           (None, s) \<Rightarrow> (- 1, s\<lparr>msg_cookie := None\<rparr>)
         | (Some b, s) \<Rightarrow> (0, s\<lparr>msg_cookie := Some b\<rparr>)))"

text \<open>The loop over the announced signature hashes.\<close>

fun has_sha2_256 :: "byte list \<Rightarrow> bool" where
  "has_sha2_256 (a # b # bs) = (be_val [a, b] = 2 \<or> has_sha2_256 bs)"
| "has_sha2_256 _ = False"

definition notify_sighash :: "byte list \<Rightarrow> pstate \<Rightarrow> iked_sa \<Rightarrow> int \<times> pstate" where
  "notify_sighash buf s sa =
     (if sa_sigsha2 sa \<or> length buf < 2 \<or> length buf mod 2 \<noteq> 0 then (0, s)
      else (0, if has_sha2_256 buf then set_flag 0x4 s else s))"

definition notify_transport :: "byte list \<Rightarrow> pstate \<Rightarrow> (int \<times> pstate) option" where
  "notify_transport buf s =
     (if buf \<noteq> [] then Some (0, s)
      else if msg_response s then do {
        pol \<leftarrow> msg_policy s;
        Some (0, if has_flag pol IKED_POLICY_TRANSPORT then set_flag 0x100 s else s) }
      else Some (0, set_flag 0x100 s))"

text \<open>The notifications that are only accepted when they were encrypted.\<close>

definition encrypted_notify :: "nat \<Rightarrow> bool" where
  "encrypted_notify type \<longleftrightarrow> type \<in> {24, 35, 16393, 43, 16387, 44, 16396, 16391, 16400, 16401}"
definition notify_encrypted ::
    "nat \<Rightarrow> byte list \<Rightarrow> byte list \<Rightarrow> pstate \<Rightarrow> iked_sa \<Rightarrow> (int \<times> pstate) option" where
  "notify_encrypted type n buf s sa =
     (if type = 24 then Some (notify_auth_failed s sa)
      else if type = 35 then Some (0, set_flag 0x10 s)
      else if type = 16393 then Some (notify_rekey (n ! 0) (n ! 1) buf s)
      else if type = 43 then Some (0, set_flag 0x200 s)
      else if type = 16387 then Some (notify_ipcomp buf s)
      else if type = 44 then Some (0, set_flag 0x8 s)
      else if type = 16396 then Some (0, if buf \<noteq> [] then s else set_flag 0x2 s)
      else if type = 16391 then notify_transport buf s
      else if type = 16400 then
        Some (0, if \<not> sa_mobike sa \<or> buf \<noteq> [] then s else s\<lparr>msg_update_sa_addresses := True\<rparr>)
      else Some (notify_cookie2 buf s sa))"

definition ikev2_pld_notify ::
    "pcfg \<Rightarrow> bool \<Rightarrow> byte list \<Rightarrow> nat \<Rightarrow> nat \<Rightarrow> pstate \<Rightarrow> (int \<times> pstate) option" where
  "ikev2_pld_notify cf e data off left s = do {
     h \<leftarrow> ikev2_validate_notify data off left;
     (case h of
        None \<Rightarrow> Some (- 1, s)
      | Some n \<Rightarrow>
          (let type = be16_at n 2 in
           case mem_read data (off + 4) (left - 4) of
             None \<Rightarrow> Some (- 1, s)
           | Some buf \<Rightarrow> do {
               print_hex (pc_verbose cf) buf 0 (left - 4);
               if \<not> frompeer s then Some (0, s)
               else do {
                 sa \<leftarrow> msg_sa s;
                 if type = 16388 \<or> type = 16389 then Some (notify_nat cf (type = 16388) buf s)
                 else if encrypted_notify type then
                   (if \<not> e then Some (- 1, s) else notify_encrypted type n buf s sa)
                 else if type = 17 then
                   Some (if sa_stateok sa IKEV2_STATE_VALID \<and> \<not> e \<or> length buf \<noteq> 2 then (- 1, s)
                         else (0, set_flag 0x40 (s\<lparr>msg_group := of_nat (le_val buf)\<rparr>)))
                 else if type = 14 then Some (0, set_flag 0x400 s)
                 else if type = 16390 then Some (if e then (- 1, s) else notify_cookie buf s)
                 else if type = 16430 then
                   Some (if e then (- 1, s) else (0, if buf \<noteq> [] then s else set_flag 0x1 s))
                 else if type = 16431 then Some (if e then (- 1, s) else notify_sighash buf s sa)
                 else Some (0, s) } })) }"

subsection \<open>Deletes and traffic selectors\<close>

definition ikev2_pld_delete :: "pcfg \<Rightarrow> byte list \<Rightarrow> nat \<Rightarrow> nat \<Rightarrow> pstate \<Rightarrow> (int \<times> pstate) option" where
  "ikev2_pld_delete cf data off left s = do {
     h \<leftarrow> ikev2_validate_delete data off left;
     (case h of
        None \<Rightarrow> Some (- 1, s)
      | Some del \<Rightarrow>
          (let cnt = be16_at del 2; sz = unat (del ! 1); len = left - 4 in
           if frompeer s \<and> msg_response s \<or> msg_del_protoid s \<noteq> 0 then Some (0, s)
           else
             (let s = s\<lparr>msg_del_protoid := del ! 0, msg_del_cnt := cnt, msg_del_spisize := sz\<rparr> in
              if len = 0 \<or> sz = 0 \<or> cnt = 0 then Some (0, s)
              else if len div sz \<noteq> cnt then Some (- 1, s)
              else do {
                print_hex (pc_verbose cf) data (off + 4) len;
                d \<leftarrow> mem_read data (off + 4) len;
                let (b, s) = new_buf d s;
                Some (0, s\<lparr>msg_del_buf := b\<rparr>) }))) }"

text \<open>The addresses of a selector are read for the log only.\<close>

definition ikev2_pld_ts :: "byte list \<Rightarrow> nat \<Rightarrow> nat \<Rightarrow> byte \<Rightarrow> int option" where
  "ikev2_pld_ts data off left type =
     (if type = 7 then
        (if left < 2 * 4 then Some (- 1)
         else do {
           start4 \<leftarrow> mem_read data off 4;
           end4 \<leftarrow> mem_read data (off + 4) 4;
           Some (if 0 < left - 4 - 4 then - 1 else 0) })
      else if type = 8 then
        (if left < 2 * 16 then Some (- 1)
         else do {
           start6 \<leftarrow> mem_read data off 16;
           end6 \<leftarrow> mem_read data (off + 16) 16;
           Some (if 0 < left - 16 - 16 then - 1 else 0) })
      else Some 0)"

fun ts_loop :: "nat \<Rightarrow> byte list \<Rightarrow> nat \<Rightarrow> nat \<Rightarrow> int option" where
  "ts_loop 0 data off left = Some 0"
| "ts_loop (Suc i) data off left = do {
     t \<leftarrow> ikev2_validate_ts data off left;
     (case t of
        None \<Rightarrow> Some (- 1)
      | Some (type, len) \<Rightarrow> do {
          r \<leftarrow> ikev2_pld_ts data (off + 8) (len - 8) type;
          if r \<noteq> 0 then Some (- 1)
          else ts_loop i data (off + 8 + (len - 8)) (left - 8 - (len - 8)) }) }"

definition ikev2_pld_tss :: "byte list \<Rightarrow> nat \<Rightarrow> nat \<Rightarrow> pstate \<Rightarrow> (int \<times> pstate) option" where
  "ikev2_pld_tss data off left s = do {
     h \<leftarrow> ikev2_validate_tss data off left;
     (case h of
        None \<Rightarrow> Some (- 1, s)
      | Some tsp \<Rightarrow> do {
          r \<leftarrow> ts_loop (unat (tsp ! 0)) data (off + 4) (left - 4);
          Some (r, s) }) }"

subsection \<open>Configuration\<close>

text \<open>
  One address attribute of a configuration payload: its address family's length, whether the field it
  is meant for is free, and the update of that field.  The result \<open>False\<close> is the return value \<open>-1\<close>.
\<close>

definition cp_address ::
    "nat \<Rightarrow> byte list \<Rightarrow> nat \<Rightarrow> nat \<Rightarrow> bool \<Rightarrow> (byte list \<Rightarrow> pstate \<Rightarrow> pstate) \<Rightarrow> pstate \<Rightarrow> (bool \<times> pstate) option" where
  "cp_address alen data ptr cfg_length unset put s =
     (if \<not> frompeer s \<or> cfg_length = 0 then Some (True, s)
      else if cfg_length < alen then Some (False, s)
      else if \<not> unset then Some (True, s)
      else
        (let (ok, s) = alloc_ok s in
         if \<not> ok then Some (True, s)
         else do {
           a \<leftarrow> mem_read data ptr alen;
           Some (True, put a s) }))"

definition cp_attribute :: "byte list \<Rightarrow> nat \<Rightarrow> nat \<Rightarrow> nat \<Rightarrow> pstate \<Rightarrow> (bool \<times> pstate) option" where
  "cp_attribute data ptr cfg_type cfg_length s =
     (if cfg_type = 1 then
        cp_address 4 data ptr cfg_length (msg_cp_addr s = None) (\<lambda>a s. s\<lparr>msg_cp_addr := Some (Sin a 0)\<rparr>) s
      else if cfg_type = 3 then
        cp_address 4 data ptr cfg_length (msg_cp_dns s = None) (\<lambda>a s. s\<lparr>msg_cp_dns := Some (Sin a 0)\<rparr>) s
      else if cfg_type = 8 then
        cp_address 16 data ptr cfg_length (msg_cp_addr6 s = None) (\<lambda>a s. s\<lparr>msg_cp_addr6 := Some (Sin6 a 0 0)\<rparr>) s
      else if cfg_type = 10 then
        cp_address 16 data ptr cfg_length (msg_cp_dns s = None) (\<lambda>a s. s\<lparr>msg_cp_dns := Some (Sin6 a 0 0)\<rparr>) s
      else Some (True, s))"

text \<open>
  The pointer \<^verbatim>\<open>ptr\<close> has already passed the attribute's header when \<^verbatim>\<open>print_hex\<close> is called with the size of
  the header as its offset.
\<close>

function cp_loop :: "nat \<Rightarrow> byte list \<Rightarrow> nat \<Rightarrow> nat \<Rightarrow> pstate \<Rightarrow> (bool \<times> pstate) option" where
  "cp_loop v data ptr len s =
     (if len = 0 then Some (True, s)
      else if len < 4 then Some (False, s)
      else do {
        cfg \<leftarrow> mem_read data ptr 4;
        let cfg_length = be16_at cfg 2;
        if len - 4 < cfg_length then Some (False, s)
        else do {
          print_hex v data (ptr + 4 + 4) cfg_length;
          (r, s) \<leftarrow> cp_attribute data (ptr + 4) (be16_at cfg 0) cfg_length s;
          if \<not> r then Some (False, s)
          else cp_loop v data (ptr + 4 + cfg_length) (len - 4 - cfg_length) s } })"
  by pat_completeness auto
termination
  by (relation "measure (\<lambda>(v, data, ptr, len, s). len)") auto

definition ikev2_pld_cp :: "pcfg \<Rightarrow> byte list \<Rightarrow> nat \<Rightarrow> nat \<Rightarrow> pstate \<Rightarrow> (int \<times> pstate) option" where
  "ikev2_pld_cp cf data off left s = do {
     h \<leftarrow> ikev2_validate_cp data off left;
     (case h of
        None \<Rightarrow> Some (- 1, s)
      | Some cp \<Rightarrow> do {
          print_hex (pc_verbose cf) data (off + 4) (left - 4);
          (r, s) \<leftarrow> cp_loop (pc_verbose cf) data (off + 4) (left - 4) s;
          Some (if \<not> r then (- 1, s) else if \<not> frompeer s then (0, s) else (0, s\<lparr>msg_cp := cp ! 0\<rparr>)) }) }"

subsection \<open>EAP\<close>

abbreviation (input) IKEV2_STATE_EAP :: nat where "IKEV2_STATE_EAP \<equiv> 3"

text \<open>A string the parser makes, prints and frees again; \<open>False\<close> when \<^verbatim>\<open>get_string\<close> fails.\<close>

definition eap_string :: "byte list \<Rightarrow> pstate \<Rightarrow> byte list option \<times> pstate" where
  "eap_string ptr s = (let (ok, s) = alloc_ok s in (get_string ok ptr, s))"

text \<open>The message \<open>eap\<close> has the length of its header field, at least that of its header.\<close>

definition eap_validate_id_response :: "byte list \<Rightarrow> pstate \<Rightarrow> byte list option \<times> pstate" where
  "eap_validate_id_response eap s =
     (if length eap - 5 = 0 then (let (ok, s) = alloc_ok s in (if ok then Some [] else None, s))
      else eap_string (drop 5 eap) s)"

definition put_eap :: "(eap_msg \<Rightarrow> eap_msg) \<Rightarrow> pstate \<Rightarrow> pstate" where
  "put_eap f s = s\<lparr>msg_eap := f (msg_eap s)\<rparr>"

definition eap_mschap :: "byte list \<Rightarrow> pstate \<Rightarrow> iked_sa \<Rightarrow> int \<times> pstate" where
  "eap_mschap eap s sa =
     (if \<not> sa_stateok sa IKEV2_STATE_EAP then (0, s)
      else if sh_initiator sa \<or> eap ! 4 \<noteq> 26 \<or> length eap < 5 + 1 then (- 1, s)
      else if eap ! 5 = 2 then
        (if length eap < 5 + 54 then (- 1, s)
         else
           (let (user, s) = (if length eap - 5 - 54 \<noteq> 0 then eap_string (drop (5 + 54) eap) s
                             else (eam_user (msg_eap s), s))
            in (0, put_eap (\<lambda>m. m\<lparr>eam_user := user, eam_msrid := eap ! 6,
                     eam_challenge := take 16 (drop (5 + 5) eap),
                     eam_ntresponse := take 24 (drop (5 + 5 + 24) eap), eam_state := 2\<rparr>) s)))
      else if eap ! 5 = 3 then (0, put_eap (\<lambda>m. m\<lparr>eam_state := 3\<rparr>) s)
      else (- 1, s))"
text \<open>The structures of the operations and whether the switch of \<^verbatim>\<open>eap_parse\<close> is left by a \<^verbatim>\<open>return\<close>.\<close>

definition eap_operation :: "byte list \<Rightarrow> bool \<Rightarrow> pstate \<Rightarrow> int option \<times> pstate" where
  "eap_operation eap response s =
     (let len = length eap - 5; named = (\<lambda>n. if len < n then (Some (- 1), s)
            else (case eap_string (drop (5 + n) eap) s of
                    (None, s) \<Rightarrow> (Some (- 1), s)
                  | (Some str, s) \<Rightarrow> (None, s))) in
      if len < 1 then (Some (- 1), s)
      else if eap ! 5 = 1 then named 21
      else if eap ! 5 = 2 then named 54
      else if eap ! 5 = 3 then
        (if eap ! 0 = 1 then named 4
         else if response then (None, s)
         else (Some 0, put_eap (\<lambda>m. m\<lparr>eam_success := True, eam_state := 4\<rparr>) s))
      else if eap ! 5 = 4 then named 4
      else (Some (- 1), s))"

definition eap_parse :: "byte list \<Rightarrow> bool \<Rightarrow> pstate \<Rightarrow> (int \<times> pstate) option" where
  "eap_parse eap response s = do {
     sa \<leftarrow> msg_sa s;
     Some
       (if length eap < 5 then (- 1, s)
        else if eap ! 0 = 3 then (0, s)
        else if eap ! 0 = 4 then (if response then 0 else - 1, s)
        else if eap ! 0 \<noteq> 1 \<and> eap ! 0 \<noteq> 2 then (- 1, s)
        else
          (let s = put_eap (\<lambda>m. m\<lparr>eam_id := eap ! 1, eam_type := eap ! 4\<rparr>) s in
           if eap ! 4 = 1 then
             (if eap ! 0 = 1 then (0, s)
              else
                (case eap_validate_id_response eap s of
                   (None, s) \<Rightarrow> (- 1, s)
                 | (Some str, s) \<Rightarrow>
                     (0, if response \<or> sa_eapid sa \<noteq> None then s
                         else put_eap (\<lambda>m. m\<lparr>eam_response := True, eam_identity := Some str, eam_state := 1\<rparr>) s)))
           else if eap ! 4 = 26 then
             (case eap_operation eap response s of
                (Some r, s) \<Rightarrow> (r, s)
              | (None, s) \<Rightarrow> if response then (0, s) else eap_mschap eap s sa)
           else (- 1, s))) }"

definition ikev2_pld_eap :: "byte list \<Rightarrow> nat \<Rightarrow> nat \<Rightarrow> pstate \<Rightarrow> (int \<times> pstate) option" where
  "ikev2_pld_eap data off left s = do {
     h \<leftarrow> ikev2_validate_eap data off left;
     (case h of
        None \<Rightarrow> Some (- 1, s)
      | Some hdr \<Rightarrow>
          (let eap_len = be16_at hdr 2 in
           if left \<noteq> eap_len then Some (- 1, s)
           else if eap_len < 5 then Some (0, s)
           else
             (case mem_read data off eap_len of
                None \<Rightarrow> Some (- 1, s)
              | Some eap \<Rightarrow> do {
                  (r, s) \<leftarrow> eap_parse eap (msg_response s) s;
                  Some (if r = - 1 then (- 1, s) else (0, put_eap (\<lambda>m. m\<lparr>eam_found := True\<rparr>) s)) }))) }"

subsection \<open>The sequence of payloads\<close>

abbreviation (input) IKEV2_PAYLOAD_SK :: byte where "IKEV2_PAYLOAD_SK \<equiv> 46"

abbreviation (input) IKEV2_PAYLOAD_SKF :: byte where "IKEV2_PAYLOAD_SKF \<equiv> 53"

text \<open>
  A payload of the given type; \<open>sk\<close> and \<open>skf\<close> are what is done with the two kinds of encrypted payloads,
  which are only known outside of an encrypted message.  An unknown payload is printed.
\<close>

type_synonym payload_parser = "byte \<Rightarrow> nat \<Rightarrow> nat \<Rightarrow> pstate \<Rightarrow> (int \<times> pstate) option"

definition ikev2_pld_payload ::
    "pcfg \<Rightarrow> bool \<Rightarrow> byte list \<Rightarrow> payload_parser \<Rightarrow> payload_parser \<Rightarrow> byte \<Rightarrow> payload_parser" where
  "ikev2_pld_payload cf e data sk skf payload np off left s =
     (if payload = 33 then ikev2_pld_sa (pc_verbose cf) data off left 0 s
      else if payload = 34 then ikev2_pld_ke cf data off left s
      else if (payload = 35 \<or> payload = 36) \<and> e then ikev2_pld_id cf data off left payload s
      else if payload = 37 \<and> e then ikev2_pld_cert cf data off left s
      else if payload = 38 then ikev2_pld_certreq cf data off left s
      else if payload = 39 \<and> e then ikev2_pld_auth cf data off left s
      else if payload = 40 then ikev2_pld_nonce cf data off left s
      else if payload = 41 then ikev2_pld_notify cf e data off left s
      else if payload = 42 \<and> e then ikev2_pld_delete cf data off left s
      else if (payload = 44 \<or> payload = 45) \<and> e then ikev2_pld_tss data off left s
      else if payload = IKEV2_PAYLOAD_SK \<and> \<not> e then sk np off left s
      else if payload = IKEV2_PAYLOAD_SKF \<and> \<not> e then skf np off left s
      else if payload = 47 \<and> e then ikev2_pld_cp cf data off left s
      else if payload = 48 \<and> e then ikev2_pld_eap data off left s
      else do {
        print_hex (pc_verbose cf) data off left;
        Some (0, s) })"

function ikev2_pld_loop ::
    "(byte \<Rightarrow> payload_parser) \<Rightarrow> byte list \<Rightarrow> nat \<Rightarrow> nat \<Rightarrow> nat \<Rightarrow> byte \<Rightarrow> pstate \<Rightarrow> (int \<times> pstate) option" where
  "ikev2_pld_loop disp data len off tot payload s =
     (if payload = 0 \<or> len \<le> off then Some (0, s)
      else do {
        h \<leftarrow> ikev2_validate_pld data off tot;
        (case h of
           None \<Rightarrow> Some (- 1, s)
         | Some (np, reserved, pl) \<Rightarrow> do {
             (ret, s) \<leftarrow> disp payload np (off + 4) (pl - 4) s;
             if ret \<noteq> 0 \<and> frompeer s then Some (- 1, s)
             else if payload = IKEV2_PAYLOAD_SK \<or> payload = IKEV2_PAYLOAD_SKF then Some (0, s)
             else ikev2_pld_loop disp data len (off + 4 + (pl - 4)) (tot - 4 - (pl - 4)) np s }) })"
  by pat_completeness auto
termination
  by (relation "measure (\<lambda>(disp, data, len, off, tot, payload, s). tot)")
    (auto simp: ikev2_validate_pld_def Let_def bind_Some_iff split: if_splits)

text \<open>\<^verbatim>\<open>ikev2_pld_payloads\<close> on a decrypted message, where the encrypted payloads are unknown.\<close>

definition no_payload :: payload_parser where
  "no_payload np off left s = Some (0, s)"

definition ikev2_pld_payloads_e :: "pcfg \<Rightarrow> byte list \<Rightarrow> byte \<Rightarrow> pstate \<Rightarrow> (int \<times> pstate) option" where
  "ikev2_pld_payloads_e cf data payload s =
     ikev2_pld_loop (ikev2_pld_payload cf True data no_payload no_payload) data (length data) 0 (length data)
       payload s"

subsection \<open>Encrypted payloads and fragments\<close>

abbreviation (input) IKED_FRAG_TOTAL_MAX :: nat where "IKED_FRAG_TOTAL_MAX \<equiv> 111"

definition config_free_fragments :: "iked_frag \<Rightarrow> iked_frag" where
  "config_free_fragments frag = (if frag_arr frag = None then frag else no_frags)"

definition put_frags :: "iked_frag \<Rightarrow> pstate \<Rightarrow> pstate" where
  "put_frags frag s = s\<lparr>msg_sa := map_option (\<lambda>sa. sa\<lparr>sa_fragments := frag\<rparr>) (msg_sa s)\<rparr>"

definition pld_decrypt :: "pcfg \<Rightarrow> byte list \<Rightarrow> pstate \<Rightarrow> (byte list option \<times> pstate) option" where
  "pld_decrypt cf src s = do {
     (r, sa, al) \<leftarrow> ikev2_msg_decrypt (pc_evp cf) (pc_rnd cf) (pc_verbose cf) (ps_alloc s) (msg_sa s) (msg_data s) src;
     Some (r, s\<lparr>msg_sa := sa, ps_alloc := al\<rparr>) }"

definition swap_initiator :: "pstate \<Rightarrow> pstate" where
  "swap_initiator s = s\<lparr>msg_sa := map_option (\<lambda>sa. sa\<lparr>sh_initiator := \<not> sh_initiator sa\<rparr>) (msg_sa s)\<rparr>"

definition ikev2_pld_e :: "pcfg \<Rightarrow> byte list \<Rightarrow> payload_parser" where
  "ikev2_pld_e cf data np off left s = do {
     sa \<leftarrow> msg_sa s;
     if frag_arr (sa_fragments sa) \<noteq> None then
       Some (- 1, put_frags (config_free_fragments (sa_fragments sa)) s)
     else do {
       d \<leftarrow> mem_read data off left;
       (case new_buf d s of
          (None, s) \<Rightarrow> Some (- 1, s)
        | (Some src, s) \<Rightarrow> do {
            (r, s) \<leftarrow>
              (if frompeer s then pld_decrypt cf src s
               else map_option (apsnd swap_initiator) (pld_decrypt cf src (swap_initiator s)));
            (case r of
               None \<Rightarrow> Some (- 1, s)
             | Some e \<Rightarrow> ikev2_pld_payloads_e cf e np s) }) } }"
text \<open>The copy of the fragments into the buffer \<open>e\<close>; the inner \<open>None\<close> is the failure of \<^verbatim>\<open>ibuf_seek\<close>.\<close>

fun frags_copy :: "iked_frag_entry option list \<Rightarrow> byte list \<Rightarrow> nat \<Rightarrow> byte list option option" where
  "frags_copy [] e off = Some (Some e)"
| "frags_copy (None # arr) e off = None"
| "frags_copy (Some el # arr) e off =
     (if length e < off + frag_size el then Some None
      else do {
        d \<leftarrow> (case frag_data el of None \<Rightarrow> (if frag_size el = 0 then Some [] else None)
              | Some fd \<Rightarrow> mem_read fd 0 (frag_size el));
        e \<leftarrow> mem_write e off d;
        frags_copy arr e (off + frag_size el) })"

definition flush_requests :: "pstate \<Rightarrow> pstate" where
  "flush_requests s = s\<lparr>msg_sa := map_option (\<lambda>sa. sa\<lparr>sa_requests := []\<rparr>) (msg_sa s)\<rparr>"

definition reass_drop :: "iked_frag \<Rightarrow> pstate \<Rightarrow> int \<times> pstate" where
  "reass_drop frag s =
     (- 1, put_frags (config_free_fragments frag)
             (s\<lparr>ikes_frag_reass_drop := ikes_frag_reass_drop s + of_nat (frag_total frag)\<rparr>))"

definition reass_ok :: "iked_frag \<Rightarrow> int \<times> pstate \<Rightarrow> int \<times> pstate" where
  "reass_ok frag rs =
     (fst rs, put_frags (config_free_fragments frag)
        ((snd rs)\<lparr>ikes_frag_reass_ok := ikes_frag_reass_ok (snd rs) + of_nat (frag_total frag)\<rparr>))"

definition ikev2_frags_reassemble :: "pcfg \<Rightarrow> pstate \<Rightarrow> (int \<times> pstate) option" where
  "ikev2_frags_reassemble cf s = do {
     sa \<leftarrow> msg_sa s;
     let frag = sa_fragments sa;
     (case new_buf (replicate (frag_total_size frag) 0) s of
        (None, s) \<Rightarrow> Some (reass_drop frag s)
      | (Some e, s) \<Rightarrow> do {
          arr \<leftarrow> frag_arr frag;
          c \<leftarrow> (if length arr < frag_total frag then None else frags_copy (take (frag_total frag) arr) e 0);
          (case c of
             None \<Rightarrow> Some (reass_drop frag s)
           | Some e \<Rightarrow>
               (let s = (if msg_response s then flush_requests s else s) in
                map_option (reass_ok frag) (ikev2_pld_payloads_e cf e (frag_nextpayload frag) s))) }) }"

text \<open>The two ways a fragment is dropped: alone, or with all that were stored.\<close>

definition frag_drop :: "pstate \<Rightarrow> int \<times> pstate" where
  "frag_drop s = (- 1, s\<lparr>ikes_frag_rcvd_drop := ikes_frag_rcvd_drop s + 1\<rparr>)"

definition frag_dropall :: "iked_frag \<Rightarrow> pstate \<Rightarrow> int \<times> pstate" where
  "frag_dropall frag s =
     (- 1, put_frags (config_free_fragments frag)
             (s\<lparr>ikes_frag_rcvd_drop := ikes_frag_rcvd_drop s + of_nat (frag_count frag + 1)\<rparr>))"

text \<open>The store of a decrypted fragment whose slot is free.\<close>

definition frag_store ::
    "pcfg \<Rightarrow> byte \<Rightarrow> nat \<Rightarrow> iked_frag \<Rightarrow> iked_frag_entry option list \<Rightarrow> byte list \<Rightarrow> pstate \<Rightarrow> (int \<times> pstate) option" where
  "frag_store cf np num frag arr e s =
     (let frag = (if num = 1 then frag\<lparr>frag_nextpayload := np\<rparr> else frag);
          (ok, s) = alloc_ok s in
      if \<not> ok then Some (frag_drop (put_frags frag s))
      else if length arr < num then None
      else
        (let (ok, s) = alloc_ok s;
             el = \<lparr>frag_data = (if ok then Some e else None), frag_size = length e\<rparr>;
             frag = frag\<lparr>frag_arr := Some (arr[num - 1 := Some el])\<rparr> in
         if \<not> ok then Some (frag_drop (put_frags frag s))
         else
           (let frag = frag\<lparr>frag_total_size := frag_total_size frag + length e, frag_count := frag_count frag + 1\<rparr>;
                s = put_frags frag s in
            if frag_count frag = frag_total frag then ikev2_frags_reassemble cf s else Some (0, s))))"

text \<open>The array for the fragments of a new message, or the one that is being filled.\<close>

definition frag_insert ::
    "pcfg \<Rightarrow> byte \<Rightarrow> nat \<Rightarrow> nat \<Rightarrow> byte list \<Rightarrow> pstate \<Rightarrow> (int \<times> pstate) option" where
  "frag_insert cf np num tot e s = do {
     sa \<leftarrow> msg_sa s;
     let frag = sa_fragments sa;
     (case frag_arr frag of
        None \<Rightarrow>
          (let (ok, s) = alloc_ok s in
           if \<not> ok then Some (frag_drop s)
           else
             (let arr = replicate tot None in
              frag_store cf np num (frag\<lparr>frag_arr := Some arr, frag_total := tot\<rparr>) arr e s))
      | Some arr \<Rightarrow>
          if tot \<noteq> frag_total frag then Some (frag_dropall frag s)
          else if length arr < num then None
          else if arr ! (num - 1) \<noteq> None then Some (frag_drop s)
          else frag_store cf np num frag arr e s) }"

definition ikev2_pld_ef :: "pcfg \<Rightarrow> byte list \<Rightarrow> payload_parser" where
  "ikev2_pld_ef cf data np off left s = do {
     h \<leftarrow> ikev2_validate_ef data off left;
     (case h of
        None \<Rightarrow> Some (- 1, s)
      | Some fh \<Rightarrow> do {
          let num = be16_at fh 0;
          let tot = be16_at fh 2;
          let s = s\<lparr>ikes_frag_rcvd := ikes_frag_rcvd s + 1\<rparr>;
          if IKED_FRAG_TOTAL_MAX < tot then map_option (\<lambda>sa. frag_dropall (sa_fragments sa) s) (msg_sa s)
          else if num = 0 \<or> tot = 0 \<or> tot < num then Some (frag_drop s)
          else do {
            d \<leftarrow> mem_read data (off + 4) (left - 4);
            (case new_buf d s of
               (None, s) \<Rightarrow> Some (frag_drop s)
             | (Some src, s) \<Rightarrow> do {
                 (r, s) \<leftarrow> pld_decrypt cf src s;
                 (case r of
                    None \<Rightarrow> Some (frag_drop s)
                  | Some e \<Rightarrow> frag_insert cf np num tot e s) }) } }) }"
subsection \<open>Messages\<close>

definition ikev2_pld_payloads ::
    "pcfg \<Rightarrow> nat \<Rightarrow> nat \<Rightarrow> byte \<Rightarrow> pstate \<Rightarrow> (int \<times> pstate) option" where
  "ikev2_pld_payloads cf off len payload s =
     (let data = msg_data s in
      ikev2_pld_loop (ikev2_pld_payload cf False data (ikev2_pld_e cf data) (ikev2_pld_ef cf data)) data len off
        (usub len off) payload s)"

text \<open>The header is the one at \<open>off\<close>; only its length and its first payload matter here.\<close>

definition ikev2_pld_parse :: "pcfg \<Rightarrow> nat \<Rightarrow> pstate \<Rightarrow> (int \<times> pstate) option" where
  "ikev2_pld_parse cf off s = do {
     hdr \<leftarrow> mem_read (msg_data s) off IKE_HDR_SIZE;
     let len = be_val (drop 24 hdr);
     if length (msg_data s) < len then Some (- 1, s)
     else ikev2_pld_payloads cf (off + IKE_HDR_SIZE) len (hdr ! 16) s }"

text \<open>The parser that only looks for the number of a fragment.\<close>

function quick_loop :: "byte list \<Rightarrow> nat \<Rightarrow> nat \<Rightarrow> nat \<Rightarrow> byte \<Rightarrow> u16 \<Rightarrow> (int \<times> u16) option" where
  "quick_loop data len off tot payload num =
     (if payload = 0 \<or> len \<le> off then Some (0, num)
      else do {
        h \<leftarrow> ikev2_validate_pld data off tot;
        (case h of
           None \<Rightarrow> Some (- 1, num)
         | Some (np, reserved, pl) \<Rightarrow>
             if payload = IKEV2_PAYLOAD_SKF \<and> pl - 4 < 4 then Some (- 1, num)
             else do {
               num \<leftarrow> (if payload = IKEV2_PAYLOAD_SKF
                      then map_option (\<lambda>h. of_nat (be16_at h 0)) (mem_read data (off + 4) 4)
                      else Some num);
               quick_loop data len (off + 4 + (pl - 4)) (tot - 4 - (pl - 4)) np num }) })"
  by pat_completeness auto
termination
  by (relation "measure (\<lambda>(data, len, off, tot, payload, num). tot)")
    (auto simp: ikev2_validate_pld_def Let_def bind_Some_iff split: if_splits)

definition ikev2_pld_parse_quick :: "nat \<Rightarrow> pstate \<Rightarrow> (int \<times> pstate) option" where
  "ikev2_pld_parse_quick off s = do {
     hdr \<leftarrow> mem_read (msg_data s) off IKE_HDR_SIZE;
     let len = be_val (drop 24 hdr);
     if length (msg_data s) < len then Some (- 1, s)
     else do {
       (r, num) \<leftarrow> quick_loop (msg_data s) len (off + IKE_HDR_SIZE) (usub len (off + IKE_HDR_SIZE)) (hdr ! 16)
                    (msg_frag_num s);
       Some (r, s\<lparr>msg_frag_num := num\<rparr>) } }"

declare ikev2_pld_attr.simps [simp del] ikev2_pld_xform.simps [simp del] ikev2_pld_sa.simps [simp del]
  cp_loop.simps [simp del] ikev2_pld_loop.simps [simp del] quick_loop.simps [simp del]

end
