(* ===== verification/Pld_Safe.thy ===== *)
theory Pld_Safe
  imports Pld
begin

section \<open>Memory safety and termination of the payload parser\<close>

text \<open>
  Every sub-parser reads inside the buffer it is given, whatever the bytes are, and changes nothing
  the others rely on.  The lemmas are weakest preconditions: the parser returns, and the result has
  the stated property.
\<close>

definition frame :: "pstate \<Rightarrow> pstate \<Rightarrow> bool" where
  "frame s s' \<longleftrightarrow> msg_data s' = msg_data s \<and> msg_sa s' = msg_sa s \<and> msg_policy s' = msg_policy s \<and>
     msg_response s' = msg_response s \<and> (ps_alloc s = [] \<longrightarrow> ps_alloc s' = [])"

definition framed :: "pstate \<Rightarrow> 'a \<times> pstate \<Rightarrow> bool" where
  "framed s rs \<longleftrightarrow> frame s (snd rs)"

lemma frame_refl [simp, intro]: "frame s s"
  by (simp add: frame_def)

lemma frame_trans: "frame s s' \<Longrightarrow> frame s' s'' \<Longrightarrow> frame s s''"
  by (simp add: frame_def)

lemma framedI [simp]: "framed s (r, s') = frame s s'"
  by (simp add: framed_def)

lemma frame_frompeer: "frame s s' \<Longrightarrow> frompeer s' = frompeer s"
  by (simp add: frame_def frompeer_def)

lemma frame_alloc: "alloc_ok s = (ok, s') \<Longrightarrow> frame s s'"
  by (auto simp: alloc_ok_def frame_def split: prod.splits)

lemma frame_new_buf: "new_buf d s = (b, s') \<Longrightarrow> frame s s'"
  by (auto simp: new_buf_def dest: frame_alloc split: prod.splits)

lemma alloc_okE:
  assumes "alloc_ok s = (ok, s')"
  obtains al where "s' = s\<lparr>ps_alloc := al\<rparr>" "ps_alloc s = [] \<Longrightarrow> al = []"
  by (rule that[of "snd (next_ok (ps_alloc s))"]) (use assms in \<open>auto simp: alloc_ok_def split: prod.splits\<close>)

lemma new_bufE:
  assumes "new_buf d s = (b, s')"
  obtains al where "s' = s\<lparr>ps_alloc := al\<rparr>" "ps_alloc s = [] \<Longrightarrow> al = []" "b = None \<or> b = Some d"
  using assms by (auto simp: new_buf_def buf_new_eq elim: alloc_okE split: prod.splits if_splits)

subsection \<open>Reads\<close>

lemma wp_read: "off + n \<le> length m \<Longrightarrow>
    wp (mem_read m off n) (\<lambda>d. mem_read m off n = Some d \<and> length d = n)"
  by (simp add: wp_def mem_read_def)

lemma wp_print: "off + n \<le> length m \<or> v < 3 \<Longrightarrow> wp (print_hex v m off n) (\<lambda>_. True)"
  by (auto simp: wp_def print_hex_def mem_read_def)

lemma wp_validate_hdr: "off + left \<le> length data \<Longrightarrow>
    wp (ikev2_validate_hdr n nz data off left) (\<lambda>h. \<forall>x. h = Some x \<longrightarrow> n \<le> left \<and> length x = n)"
  unfolding ikev2_validate_hdr_def
  by (intro wp_intros wp_bind[OF wp_read]) auto

lemmas validate_defs = ikev2_validate_ke_def ikev2_validate_id_def ikev2_validate_cert_def
  ikev2_validate_certreq_def ikev2_validate_auth_def ikev2_validate_notify_def ikev2_validate_delete_def
  ikev2_validate_tss_def ikev2_validate_ef_def ikev2_validate_cp_def ikev2_validate_eap_def

lemma wp_validate_pld: "off + left \<le> length data \<Longrightarrow>
    wp (ikev2_validate_pld data off left)
      (\<lambda>h. \<forall>np r len. h = Some (np, r, len) \<longrightarrow> 4 \<le> len \<and> len \<le> left)"
  unfolding ikev2_validate_pld_def by (intro wp_intros wp_bind[OF wp_read]) auto

lemma wp_validate_sa: "off + left \<le> length data \<Longrightarrow>
    wp (ikev2_validate_sa data off left)
      (\<lambda>h. \<forall>c len nr p sz t. h = Some (c, len, nr, p, sz, t) \<longrightarrow> 8 \<le> len \<and> len \<le> left)"
  unfolding ikev2_validate_sa_def by (intro wp_intros wp_bind[OF wp_read]) auto

lemma wp_validate_xform: "off + left \<le> length data \<Longrightarrow>
    wp (ikev2_validate_xform data off left)
      (\<lambda>h. \<forall>c len t x. h = Some (c, len, t, x) \<longrightarrow> 8 \<le> len \<and> len \<le> left)"
  unfolding ikev2_validate_xform_def by (intro wp_intros wp_bind[OF wp_read]) auto

lemma wp_validate_attr: "off + left \<le> length data \<Longrightarrow>
    wp (ikev2_validate_attr data off left) (\<lambda>h. h \<noteq> None \<longrightarrow> 4 \<le> left)"
  unfolding ikev2_validate_attr_def by (intro wp_intros wp_bind[OF wp_read]) auto

lemma wp_validate_ts: "off + left \<le> length data \<Longrightarrow>
    wp (ikev2_validate_ts data off left) (\<lambda>h. \<forall>t len. h = Some (t, len) \<longrightarrow> 8 \<le> len \<and> len \<le> left)"
  unfolding ikev2_validate_ts_def by (intro wp_intros wp_bind[OF wp_read]) auto

subsection \<open>Sub-parsers\<close>

lemma wp_framed: "wp m (framed s') \<Longrightarrow> frame s s' \<Longrightarrow> wp m (framed s)"
  by (auto simp: wp_def framed_def intro: frame_trans)

lemma attr_safe: "off + tot \<le> length data \<Longrightarrow> wp (ikev2_pld_attr v data off tot a) (\<lambda>_. True)"
proof (induction v data off tot a rule: ikev2_pld_attr.induct)
  case (1 v data off tot a)
  show ?case
    unfolding ikev2_pld_attr.simps[of v data off tot a]
    by (intro wp_intros wp_bind[OF wp_validate_attr] wp_bind[OF wp_print] 1(1) 1(2) | (use 1(3) in force; fail))+
qed

lemma add_peer_transform_safe:
  assumes "frompeer s \<Longrightarrow> \<exists>i. msg_prop s = Some i \<and> i < length (msg_proposals s)"
  shows "wp (add_peer_transform type xid len s) (\<lambda>(r, s'). frame s s' \<and> msg_prop s' = msg_prop s \<and>
    length (msg_proposals s') = length (msg_proposals s))"
proof (cases "frompeer s")
  case True
  obtain i where i: "msg_prop s = Some i" "i < length (msg_proposals s)"
    using assms True by blast
  obtain ok al where "alloc_ok s = (ok, s\<lparr>ps_alloc := al\<rparr>)" "ps_alloc s = [] \<Longrightarrow> al = []"
    by (metis alloc_okE surj_pair)
  then show ?thesis
    using True i by (auto simp: add_peer_transform_def frame_def split: prod.splits)
qed (simp add: add_peer_transform_def)
text \<open>The proposal of the peer that the transforms are added to.\<close>

definition prop_ok :: "pstate \<Rightarrow> bool" where
  "prop_ok s \<longleftrightarrow> (frompeer s \<longrightarrow> (\<exists>i. msg_prop s = Some i \<and> i < length (msg_proposals s)))"

lemma xform_safe:
  assumes "off + tot \<le> length data" "prop_ok s"
  shows "wp (ikev2_pld_xform v data off tot s) (\<lambda>(r, s'). frame s s' \<and> prop_ok s')"
  using assms
proof (induction v data off tot s rule: ikev2_pld_xform.induct)
  case (1 v data off tot s)
  have attr: "wp (if 8 < len then ikev2_pld_attr v data (off + 8) (len - 8) 0 else Some (Some 0)) (\<lambda>_. True)"
    if "8 \<le> len" "len \<le> tot" for len
    using that 1(2) by (auto intro!: attr_safe)
  have add: "wp (add_peer_transform type xid len s) (\<lambda>(r, s'). frame s s' \<and> prop_ok s')" for type xid len
    using 1(3) by (intro wp_mono[OF add_peer_transform_safe]) (auto simp: prop_ok_def dest: frame_frompeer)
  have ih: "wp (ikev2_pld_xform v data (off + len) (tot - len) s') (\<lambda>(r, s''). frame s s'' \<and> prop_ok s'')"
    if "ikev2_validate_xform data off tot = Some (Some (c, len, type, xid))"
      "(if 8 < len then ikev2_pld_attr v data (off + 8) (len - 8) 0 else Some (Some 0)) = Some (Some al)"
      "add_peer_transform type xid al s = Some (0, s')" "c = 3" "len \<le> tot" "frame s s'" "prop_ok s'"
    for c len type xid al s'
    by (rule wp_mono[OF 1(1)[OF that(1) _ refl refl refl that(2) refl that(3) refl]])
      (use that 1(2) in \<open>auto intro: frame_trans\<close>)
  show ?case
    unfolding ikev2_pld_xform.simps[of v data off tot s]
    by (intro wp_intros wp_bind[OF wp_validate_xform] wp_bind[OF attr] wp_bind[OF add] ih
        | (use 1(2,3) in force; fail))+
qed
lemma find_proposal_less: "find_proposal ps pid proto = Some i \<Longrightarrow> i < length ps"
  by (induction ps arbitrary: i) (auto split: if_splits)

lemma add_peer_proposal_safe:
  assumes "add_peer_proposal nr proto sv sz s = (ok, s')"
  shows "frame s s'" "ok \<Longrightarrow> prop_ok s'"
proof -
  obtain ok1 al where al: "alloc_ok s = (ok1, s\<lparr>ps_alloc := al\<rparr>)" "ps_alloc s = [] \<Longrightarrow> al = []"
    by (metis alloc_okE surj_pair)
  have less: "i < length ps" if "config_add_proposal ok1 (msg_proposals s) nr proto = Some (i, ps)" for i ps
    using that by (auto simp: config_add_proposal_def dest: find_proposal_less split: option.splits if_splits)
  show fr: "frame s s'"
    using assms al by (auto simp: add_peer_proposal_def frame_def Let_def split: if_splits option.splits)
  show "prop_ok s'" if ok
    using assms al that less frame_frompeer[OF fr]
    by (auto simp: add_peer_proposal_def prop_ok_def Let_def split: if_splits option.splits)
qed

lemma sa_transforms_safe:
  assumes "off + tot \<le> length data" "prop_ok s"
  shows "wp (sa_transforms v data n off tot s) (framed s)"
  unfolding sa_transforms_def
proof (intro wp_intros wp_bind[OF xform_safe[OF assms]])
  fix r s' rs assume *: "rs = (r, s')" "(case rs of (r, s') \<Rightarrow> frame s s' \<and> prop_ok s')" "r = - 2 \<and> frompeer s'"
  then obtain i where "msg_prop s' = Some i"
    by (auto simp: prop_ok_def)
  then show "wp (Option.bind (msg_prop s') (\<lambda>i. Some (0, s'\<lparr>msg_proposals := config_free_proposal (msg_proposals s') i,
      msg_prop := None\<rparr>))) (framed s)"
    using * by (simp add: frame_def)
qed auto

lemma sa_safe: "off + left \<le> length data \<Longrightarrow> wp (ikev2_pld_sa v data off left sv s) (framed s)"
proof (induction left arbitrary: off sv s rule: less_induct)
  case (less left)
  have ih: "wp (ikev2_pld_sa v data off' left' sv' s'') (framed s)"
    if "frame s s''" "left' < left" "off' + left' \<le> length data" for off' left' sv' s''
    using less(1)[OF that(2,3)] that(1) by (rule wp_framed)
  have tr: "wp (sa_transforms v data n off tot s') (framed s)"
    if "frame s s'" "prop_ok s'" "off + tot \<le> length data" for n off tot s'
    using sa_transforms_safe[OF that(3,2)] that(1) by (rule wp_framed)
  show ?case
    unfolding ikev2_pld_sa.simps[of v data off left sv s]
    by (intro wp_if wp_case_option wp_case_prod wp_let wp_case_bool wp_bind[OF wp_validate_sa[OF less(2)]]
        wp_bind[OF wp_read] wp_bind[OF tr] ih
      | (use less(2) in \<open>auto dest: add_peer_proposal_safe\<close>; fail))+
qed
lemma frame_updates:
  "frame s (s'\<lparr>msg_ke := x1\<rparr>) = frame s s'" "frame s (s'\<lparr>msg_dhgroup := x2\<rparr>) = frame s s'"
  "frame s (s'\<lparr>msg_peerid := x3\<rparr>) = frame s s'" "frame s (s'\<lparr>msg_localid := x4\<rparr>) = frame s s'"
  "frame s (s'\<lparr>msg_cert := x5\<rparr>) = frame s s'" "frame s (s'\<lparr>msg_scert := x6\<rparr>) = frame s s'"
  "frame s (s'\<lparr>msg_certreqs := x7\<rparr>) = frame s s'" "frame s (s'\<lparr>msg_auth := x8\<rparr>) = frame s s'"
  "frame s (s'\<lparr>msg_nonce := x9\<rparr>) = frame s s'" "frame s (s'\<lparr>msg_nat_detected := x10\<rparr>) = frame s s'"
  "frame s (s'\<lparr>msg_natt_rcvd := x11\<rparr>) = frame s s'" "frame s (s'\<lparr>msg_rekey := x12\<rparr>) = frame s s'"
  "frame s (s'\<lparr>msg_cpi := x13\<rparr>) = frame s s'" "frame s (s'\<lparr>msg_transform := x14\<rparr>) = frame s s'"
  "frame s (s'\<lparr>msg_cookie2 := x15\<rparr>) = frame s s'" "frame s (s'\<lparr>msg_cookie := x16\<rparr>) = frame s s'"
  "frame s (s'\<lparr>msg_update_sa_addresses := x17\<rparr>) = frame s s'" "frame s (s'\<lparr>msg_group := x18\<rparr>) = frame s s'"
  "frame s (s'\<lparr>msg_flags := x19\<rparr>) = frame s s'" "frame s (s'\<lparr>msg_del_protoid := x20\<rparr>) = frame s s'"
  "frame s (s'\<lparr>msg_del_cnt := x21\<rparr>) = frame s s'" "frame s (s'\<lparr>msg_del_spisize := x22\<rparr>) = frame s s'"
  "frame s (s'\<lparr>msg_del_buf := x23\<rparr>) = frame s s'" "frame s (s'\<lparr>msg_cp_addr := x24\<rparr>) = frame s s'"
  "frame s (s'\<lparr>msg_cp_addr6 := x25\<rparr>) = frame s s'" "frame s (s'\<lparr>msg_cp_dns := x26\<rparr>) = frame s s'"
  "frame s (s'\<lparr>msg_cp := x27\<rparr>) = frame s s'" "frame s (s'\<lparr>msg_eap := x28\<rparr>) = frame s s'"
  "frame s (s'\<lparr>msg_frag_num := x29\<rparr>) = frame s s'"
  "frame s (s'\<lparr>msg_proposals := x31\<rparr>) = frame s s'" "frame s (s'\<lparr>msg_prop := x32\<rparr>) = frame s s'"
  by (simp_all add: frame_def)

lemma frame_updates_left:
  "frame (s\<lparr>msg_del_protoid := x20\<rparr>) s' = frame s s'" "frame (s\<lparr>msg_del_cnt := x21\<rparr>) s' = frame s s'"
  "frame (s\<lparr>msg_del_spisize := x22\<rparr>) s' = frame s s'" "frame (s\<lparr>msg_eap := x28\<rparr>) s' = frame s s'"
  by (simp_all add: frame_def)

lemmas frame_simps [simp] = frame_updates frame_updates_left

lemma frame_set_flag [simp]: "frame s (set_flag f s') = frame s s'"
  by (simp add: set_flag_def)

lemma frame_put_eap [simp]: "frame s (put_eap f s') = frame s s'"
  by (simp add: put_eap_def)

lemmas wp_hdr = wp_validate_hdr[THEN wp_bind]

lemma wp_sa: "msg_sa s \<noteq> None \<Longrightarrow> wp (msg_sa s) (\<lambda>sa. msg_sa s = Some sa)"
  by (auto simp: wp_def)

lemma frompeer_sa: "frompeer s \<Longrightarrow> msg_sa s \<noteq> None"
  by (auto simp: frompeer_def ikev2_msg_frompeer_def split: option.splits)

lemma ke_safe: "off + left \<le> length data \<Longrightarrow> wp (ikev2_pld_ke cf data off left s) (framed s)"
  unfolding ikev2_pld_ke_def validate_defs
  by (intro wp_intros wp_bind[OF wp_validate_hdr] wp_bind[OF wp_print] wp_bind[OF wp_read]
      | (auto dest: frame_new_buf; fail))+

lemma id_safe: "off + left \<le> length data \<Longrightarrow> wp (ikev2_pld_id cf data off left payload s) (framed s)"
  unfolding ikev2_pld_id_def validate_defs
  by (intro wp_intros wp_bind[OF wp_validate_hdr] wp_bind[OF wp_sa] wp_bind[OF wp_read]
      | (auto dest: frame_new_buf frame_alloc frompeer_sa intro: frame_trans; fail))+

lemma cert_safe: "off + left \<le> length data \<Longrightarrow> wp (ikev2_pld_cert cf data off left s) (framed s)"
  unfolding ikev2_pld_cert_def validate_defs
  by (intro wp_intros wp_bind[OF wp_validate_hdr] wp_bind[OF wp_print] wp_bind[OF wp_read]
      | (auto dest: frame_new_buf; fail))+

lemma certreq_safe: "off + left \<le> length data \<Longrightarrow> wp (ikev2_pld_certreq cf data off left s) (framed s)"
  unfolding ikev2_pld_certreq_def validate_defs
  by (intro wp_intros wp_bind[OF wp_validate_hdr] wp_bind[OF wp_print] wp_bind[OF wp_read]
      | (auto dest: frame_new_buf frame_alloc intro: frame_trans; fail))+

lemma auth_safe: "off + left \<le> length data \<Longrightarrow> wp (ikev2_pld_auth cf data off left s) (framed s)"
  unfolding ikev2_pld_auth_def validate_defs
  by (intro wp_intros wp_bind[OF wp_validate_hdr] wp_bind[OF wp_print] wp_bind[OF wp_read]
      | (auto dest: frame_new_buf; fail))+

lemma nonce_safe: "off + left \<le> length data \<Longrightarrow> wp (ikev2_pld_nonce cf data off left s) (framed s)"
  unfolding ikev2_pld_nonce_def
  by (intro wp_intros wp_bind[OF wp_print] wp_bind[OF wp_read] | (auto dest: frame_new_buf; fail))+

lemma delete_safe: "off + left \<le> length data \<Longrightarrow> wp (ikev2_pld_delete cf data off left s) (framed s)"
  unfolding ikev2_pld_delete_def validate_defs
  by (intro wp_intros wp_bind[OF wp_validate_hdr] wp_bind[OF wp_print] wp_bind[OF wp_read]
      | (auto dest: frame_new_buf; fail))+

lemma frame_nat_detection: "ikev2_nat_detection cf source s = (r, s') \<Longrightarrow> frame s s'"
  by (auto simp: ikev2_nat_detection_def Let_def dest: frame_alloc split: option.splits prod.splits if_splits)

lemma notify_frame:
  "framed s (notify_nat cf source buf s)" "framed s (notify_auth_failed s sa)"
  "framed s (notify_rekey p z buf s)" "framed s (notify_ipcomp buf s)" "framed s (notify_cookie2 buf s sa)"
  "framed s (notify_cookie buf s)" "framed s (notify_sighash buf s sa)"
  by (auto simp: notify_nat_def notify_auth_failed_def notify_rekey_def notify_ipcomp_def notify_cookie2_def
      notify_cookie_def notify_sighash_def Let_def dest: frame_nat_detection frame_new_buf
      split: prod.splits option.splits ibufp.splits)

lemma notify_encrypted_safe:
  assumes "msg_policy s \<noteq> None"
  shows "wp (notify_encrypted type n buf s sa) (framed s)"
  unfolding notify_encrypted_def notify_transport_def
  by (intro wp_intros) (use assms in \<open>auto simp: notify_frame\<close>)

lemma notify_safe:
  assumes "off + left \<le> length data" "msg_policy s \<noteq> None \<or> \<not> frompeer s"
  shows "wp (ikev2_pld_notify cf e data off left s) (framed s)"
  unfolding ikev2_pld_notify_def validate_defs
  by (intro wp_intros wp_bind[OF wp_validate_hdr[OF assms(1)]] wp_bind[OF wp_print] wp_bind[OF wp_sa]
      notify_encrypted_safe
      | (use assms in \<open>auto simp: notify_frame mem_read_def dest: frompeer_sa split: if_splits\<close>; fail))+

lemma ts_safe: "off + left \<le> length data \<Longrightarrow> wp (ikev2_pld_ts data off left type) (\<lambda>_. True)"
  unfolding ikev2_pld_ts_def by (intro wp_intros wp_bind[OF wp_read]) auto

lemma ts_loop_safe: "off + left \<le> length data \<Longrightarrow> wp (ts_loop n data off left) (\<lambda>_. True)"
proof (induction n arbitrary: off left)
  case (Suc n)
  show ?case
    unfolding ts_loop.simps
    by (intro wp_intros wp_bind[OF wp_validate_ts] wp_bind[OF ts_safe] Suc.IH | (use Suc.prems in auto; fail))+
qed simp

lemma tss_safe: "off + left \<le> length data \<Longrightarrow> wp (ikev2_pld_tss data off left s) (framed s)"
  unfolding ikev2_pld_tss_def validate_defs
  by (intro wp_intros wp_bind[OF wp_validate_hdr] wp_bind[OF ts_loop_safe] | (auto; fail))+

lemma cp_address_safe:
  assumes "ptr + len \<le> length data" "\<And>a s'. frame s (put a s') = frame s s'"
  shows "wp (cp_address n data ptr len unset put s) (framed s)"
  unfolding cp_address_def
  by (intro wp_intros wp_bind[OF wp_read]) (use assms in \<open>auto dest: frame_alloc\<close>)

lemma cp_attribute_safe: "ptr + len \<le> length data \<Longrightarrow> wp (cp_attribute data ptr type len s) (framed s)"
  unfolding cp_attribute_def by (intro wp_intros cp_address_safe) auto

lemma cp_loop_safe:
  assumes "v < 3" "ptr + len \<le> length data"
  shows "wp (cp_loop v data ptr len s) (framed s)"
  using assms(2)
proof (induction len arbitrary: ptr s rule: less_induct)
  case (less len)
  have ih: "wp (cp_loop v data ptr' len' s') (framed s)"
    if "frame s s'" "len' < len" "ptr' + len' \<le> length data" for ptr' len' s'
    using less(1)[OF that(2,3)] that(1) by (rule wp_framed)
  show ?case
    unfolding cp_loop.simps[of v data ptr len s]
    by (intro wp_intros wp_bind[OF wp_read] wp_bind[OF wp_print] wp_bind[OF cp_attribute_safe] ih
        | (use less(2) assms(1) in auto; fail))+
qed

lemma cp_safe:
  assumes "pc_verbose cf < 3" "off + left \<le> length data"
  shows "wp (ikev2_pld_cp cf data off left s) (framed s)"
  unfolding ikev2_pld_cp_def validate_defs
  by (intro wp_intros wp_bind[OF wp_validate_hdr] wp_bind[OF wp_print] wp_bind[OF cp_loop_safe]
      | (use assms in auto; fail))+

lemma frame_eap_string: "eap_string d s = (r, s') \<Longrightarrow> frame s s'"
  by (auto simp: eap_string_def dest: frame_alloc split: prod.splits)

lemma frame_eap_operation: "eap_operation eap response s = (r, s') \<Longrightarrow> frame s s'"
  by (auto simp: eap_operation_def Let_def dest: frame_eap_string split: prod.splits option.splits if_splits)

lemma frame_eap_mschap: "frame s s' \<Longrightarrow> framed s (eap_mschap eap s' sa)"
  by (auto simp: eap_mschap_def Let_def dest: frame_eap_string intro: frame_trans split: prod.splits)

lemma frame_eap_identity: "eap_validate_id_response eap s = (r, s') \<Longrightarrow> frame s s'"
  by (auto simp: eap_validate_id_response_def Let_def dest: frame_eap_string frame_alloc
      split: prod.splits if_splits)

lemma eap_parse_safe:
  assumes "msg_sa s \<noteq> None"
  shows "wp (eap_parse eap response s) (framed s)"
proof -
  define s1 where "s1 = put_eap (\<lambda>m. m\<lparr>eam_id := eap ! 1, eam_type := eap ! 4\<rparr>) s"
  have "frame s s' = frame s1 s'" for s'
    by (simp add: s1_def put_eap_def)
  then have f: "frame s s1" "eap_operation eap rsp s1 = (r, s') \<Longrightarrow> frame s s'"
    "eap_validate_id_response eap s1 = (i, s') \<Longrightarrow> frame s s'" for rsp r i s'
    using frame_eap_operation frame_eap_identity by auto
  show ?thesis
    using assms unfolding eap_parse_def s1_def[symmetric]
    by (auto simp: f(1) split: prod.splits option.splits) (use f(2,3) frame_eap_mschap in blast)+
qed

lemma eap_safe:
  assumes "off + left \<le> length data" "msg_sa s \<noteq> None"
  shows "wp (ikev2_pld_eap data off left s) (framed s)"
  unfolding ikev2_pld_eap_def validate_defs
  by (intro wp_intros wp_bind[OF wp_validate_hdr[OF assms(1)]] wp_bind[OF eap_parse_safe[OF assms(2)]]) auto

subsection \<open>Decryption does not fail\<close>

lemma msg_hmac_safe:
  assumes "evp_sizes ev" "hash_wf hash" "\<not> hash_isaead hash" "length key \<le> IKED_MSGBUF_MAX"
    "hash_length hash \<le> length msg"
  shows "wp (msg_hmac ev [] hash (Some key) msg)
    (\<lambda>(tmp, n, h', al). hash_length h' = hash_length hash \<and> hash_length hash \<le> length tmp \<and> n \<le> length tmp \<and> al = [])"
proof -
  obtain md where md: "hash_priv hash = Some md" "hash_length hash \<le> md_length md"
    using assms(2,3) by (auto simp: hash_wf_def hash_length_def)
  have len: "length (HMAC_bytes ev md k d) = md_length md" for k d
    using assms(1) by (simp add: evp_sizes_def)
  have hl: "hash_length (hash\<lparr>hash_key := k, hash_ctx := c\<rparr>) = hash_length hash" for k c
    by (simp add: hash_length_def)
  obtain c where c: "msg_hmac ev [] hash (Some key) msg =
      Some (HMAC_bytes ev md key (take (length msg - hash_length hash) msg), hash_length hash,
        hash\<lparr>hash_key := Some key, hash_ctx := c\<rparr>, [])"
    using msg_hmac_ok[OF assms(1-3) md(1) assms(4,5)] by blast
  show ?thesis
    unfolding c by (simp add: hl len md(2))
qed

lemma decrypt_verify_safe:
  assumes "evp_sizes ev" "hash_wf hash" "\<not> hash_isaead hash" "length key \<le> IKED_MSGBUF_MAX"
    "length src \<le> length msg" "hash_length hash \<le> length src"
  shows "wp (decrypt_verify ev v [] hash (Some key) msg src) (\<lambda>(b, h', al). hash_static hash h' \<and> al = [])"
proof -
  have "wp (decrypt_verify ev v [] hash (Some key) msg src) (\<lambda>(b, h', al). al = [])"
    unfolding decrypt_verify_def next_ok.simps Let_def prod.case
    by (intro wp_intros wp_bind[OF msg_hmac_safe[OF assms(1-4)]] wp_bind[OF wp_read] wp_bind[OF wp_print])
      (use assms(5,6) in auto)
  then show ?thesis
    using decrypt_verify_static by (fastforce simp: wp_def wlp_def)
qed

lemma decrypt_finish_safe:
  assumes "evp_sizes ev" "encr_ctx e \<noteq> None" "length ct = cap"
  shows "wp (decrypt_finish ev e ct cap) (\<lambda>_. True)"
proof -
  obtain ctx where ctx: "encr_ctx e = Some ctx"
    using assms(2) by blast
  have upd: "wp (cipher_update ev e ct cap) (\<lambda>u. \<forall>out n y. u = Inr (out, n, y) \<longrightarrow>
      length out = cap \<and> n = cap \<and> encr_ctx y \<noteq> None)"
    using assms(1,3) unfolding cipher_update_def ctx Option.bind.simps
    by (auto simp: evp_sizes_def mem_write_whole split: option.splits intro!: wp_case_option)
  have fin: "wp (cipher_final ev y) (\<lambda>_. True)" if "encr_ctx y \<noteq> None" for y
    using that by (auto simp: wp_def cipher_final_def)
  have lst: "wp (if n = 0 then None else mem_read out (n - 1) 1) (\<lambda>_. True)"
    if "0 < n" "n = length out" for n and out :: "byte list"
    using that by (auto simp: wp_def mem_read_def)
  show ?thesis
    unfolding decrypt_finish_def
    by (intro wp_intros wp_bind[OF upd] wp_bind[OF fin] wp_bind[OF lst] | (use ctx in auto; fail))+
qed

lemma decrypt_payload_safe:
  assumes "evp_sizes ev" "cipher_wf ev encr" "encr_fixedkey encr \<le> length key" "length key \<le> IKED_MSGBUF_MAX"
    "length src \<le> length msg" "hash_length hash + encr_ivlength encr \<le> length src"
  shows "wp (decrypt_payload ev rnd v [] encr (Some key) hash msg src) (\<lambda>(r, e', al). cipher_static encr e' \<and> al = [])"
proof -
  let ?iv = "take (encr_ivlength encr) src"
  define e1 where "e1 = encr\<lparr>encr_key := Some key, encr_iv := Some ?iv\<rparr>"
  have "encr_ivlength encr \<le> 16"
    using cipher_ivlength_bounds[OF assms(1,2)] by (simp add: cipher_ivlength_def)
  then have setiv: "cipher_setiv True rnd (cipher_setkey True encr key) (mem_read src 0 (cipher_ivlength encr)) = e1"
    using assms(4,6) by (auto simp: e1_def cipher_setiv_def cipher_setkey_def mem_read_def cipher_ivlength_def buf_new_eq)
  have init: "wp (cipher_init_decrypt ev True e1) (\<lambda>r. \<exists>y. r = Some y \<and> encr_ctx y \<noteq> None \<and> encr_length y = encr_length encr)"
    unfolding cipher_init_decrypt_def using cipher_init_ok[OF assms(1), of e1 key ?iv False] assms(2,3,6)
    by (auto simp: wp_def e1_def)
  have tag: "wp (if b then Option.bind (mem_read src (length src - hash_length hash) (hash_length hash)) (cipher_settag y)
      else Some y) (\<lambda>z. encr_ctx z \<noteq> None \<and> encr_length z = encr_length encr)"
    if "encr_ctx y \<noteq> None" "encr_length y = encr_length encr" for b y
    using that assms(6) by (auto simp: wp_def mem_read_def cipher_settag_def)
  have aad: "wp (if b then Option.bind (mem_read msg 0 (usub (length msg) (length src))) (cipher_aad y) else Some y)
      (\<lambda>z. encr_ctx z \<noteq> None)" if "encr_ctx y \<noteq> None" for b y
    using that assms(5) by (auto simp: wp_def mem_read_def cipher_aad_def)
  have bl: "0 < encr_length encr"
    using cipher_length_pos[OF assms(1,2)] by (simp add: cipher_length_def)
  have "wp (decrypt_payload ev rnd v [] encr (Some key) hash msg src) (\<lambda>(r, e', al). al = [])"
    unfolding decrypt_payload_def next_ok.simps Option.bind.simps Let_def prod.case setiv
    by (intro wp_intros wp_bind[OF init] wp_bind[OF tag] wp_bind[OF aad] wp_bind[OF wp_read]
        wp_bind[OF decrypt_finish_safe[OF assms(1)]]
        | (use assms(6) bl in \<open>auto simp: cipher_length_def cipher_ivlength_def cipher_outlength_def roundup_id\<close>; fail))+
  then show ?thesis
    using decrypt_payload_static by (fastforce simp: wp_def wlp_def)
qed

text \<open>An SA whose ciphers and keys are complete, or that has none yet.\<close>

definition sa_decrypts :: "evp \<Rightarrow> iked_sa \<Rightarrow> bool" where
  "sa_decrypts ev sa \<longleftrightarrow> sa_encr sa = None \<or> sa_integr sa = None \<or> sa_crypto_ok ev sa"

lemma decrypt_safe:
  assumes ev: "evp_sizes ev" and sa: "sa_decrypts ev sa" and len: "length src \<le> length msg"
  shows "wp (ikev2_msg_decrypt ev rnd v [] (Some sa) msg src)
    (\<lambda>(r, sa', al). al = [] \<and> (\<exists>sa''. sa' = Some sa'' \<and> sa_static sa sa''))"
proof (cases "sa_crypto_ok ev sa")
  case False
  then show ?thesis
    using sa by (auto simp: sa_decrypts_def ikev2_msg_decrypt_def split: option.splits)
next
  case True
  then show ?thesis
  proof (rule sa_crypto_okE)
    fix encr hash assume sae: "sa_encr sa = Some encr" "sa_integr sa = Some hash"
      and wf: "cipher_wf ev encr" "hash_wf hash" "hash_isaead hash = is_gcm (encr_priv encr)"
      and ek: "\<And>b. \<exists>k. (if b then sa_key_iencr sa else sa_key_rencr sa) = Some k \<and>
          encr_fixedkey encr \<le> length k \<and> length k \<le> IKED_MSGBUF_MAX"
      and ik: "\<And>b. \<exists>k. (\<not> hash_isaead hash \<longrightarrow> (if b then sa_key_iauth sa else sa_key_rauth sa) = Some k) \<and>
        length k \<le> IKED_MSGBUF_MAX"
    obtain ekey where ekey: "(if \<not> sh_initiator sa then sa_key_iencr sa else sa_key_rencr sa) = Some ekey"
        "encr_fixedkey encr \<le> length ekey" "length ekey \<le> IKED_MSGBUF_MAX"
      using ek by blast
    let ?ik = "if \<not> sh_initiator sa then sa_key_iauth sa else sa_key_rauth sa"
    obtain ikey where ikey: "\<not> hash_isaead hash \<Longrightarrow> ?ik = Some ikey"
        "length ikey \<le> IKED_MSGBUF_MAX"
      using ik by blast
    have verify: "wp (if hash_isaead hash then Some (True, hash, []) else decrypt_verify ev v [] hash ?ik msg src)
        (\<lambda>(b, h', al). hash_static hash h' \<and> al = [])" if "hash_length hash \<le> length src"
      using decrypt_verify_safe[OF ev wf(2) _ ikey(2) len that] by (cases "hash_isaead hash") (auto simp: ikey(1))
    have payload: "wp (decrypt_payload ev rnd v al encr (Some ekey) h' msg src) (\<lambda>(r, e', al). cipher_static encr e' \<and> al = [])"
      if "hash_static hash h' \<and> al = []" "hash_length hash + encr_ivlength encr \<le> length src" for h' al
      using decrypt_payload_safe[OF ev wf(1) ekey(2,3) len, of h' rnd v] that
        hash_static_fields(6)[of hash h'] by auto
    show ?thesis
      unfolding ikev2_msg_decrypt_def option.case sae prod.case ekey(1) Let_def
      by (intro wp_intros wp_bind[OF verify] wp_bind[OF payload] wp_bind[OF wp_print]
          | (auto simp: cipher_ivlength_def sae intro!: sa_static_hash[OF sae(2)] sa_static_both[OF sae(1) _ sae(2)]; fail))+
  qed
qed

subsection \<open>The loop over the payloads\<close>

lemma loop_safe:
  assumes disp: "\<And>payload np off left s. I s \<Longrightarrow> off + left \<le> length data \<Longrightarrow>
      wp (disp payload np off left s) (\<lambda>(r, s'). I s')"
  shows "I s \<Longrightarrow> off < len \<longrightarrow> off + tot \<le> length data \<Longrightarrow>
    wp (ikev2_pld_loop disp data len off tot payload s) (\<lambda>(r, s'). I s')"
proof (induction tot arbitrary: off payload s rule: less_induct)
  case (less tot)
  show ?case
    unfolding ikev2_pld_loop.simps[of disp data len off tot payload s]
    by (intro wp_intros wp_bind[OF wp_validate_pld] wp_bind[OF disp] less(1) | (use less(2,3) in auto; fail))+
qed

lemma payload_safe:
  assumes "pc_verbose cf < 3" "off + left \<le> length data" "msg_sa s \<noteq> None" "msg_policy s \<noteq> None \<or> \<not> frompeer s"
    and sk: "\<not> e \<Longrightarrow> wp (sk np off left s) P" "\<not> e \<Longrightarrow> wp (skf np off left s) P"
    and P: "\<And>rs. framed s rs \<Longrightarrow> P rs"
  shows "wp (ikev2_pld_payload cf e data sk skf payload np off left s) P"
  unfolding ikev2_pld_payload_def
  by (intro wp_if wp_mono[OF sa_safe] wp_mono[OF ke_safe] wp_mono[OF id_safe] wp_mono[OF cert_safe]
      wp_mono[OF certreq_safe] wp_mono[OF auth_safe] wp_mono[OF nonce_safe] wp_mono[OF notify_safe]
      wp_mono[OF delete_safe] wp_mono[OF tss_safe] wp_mono[OF cp_safe] wp_mono[OF eap_safe] wp_bind[OF wp_print] sk)
    (use assms(1-4) in \<open>auto intro: P\<close>)

lemma payloads_e_safe:
  assumes "pc_verbose cf < 3" "msg_sa s \<noteq> None" "msg_policy s \<noteq> None \<or> \<not> frompeer s"
  shows "wp (ikev2_pld_payloads_e cf data payload s) (framed s)"
proof -
  have "wp (ikev2_pld_loop (ikev2_pld_payload cf True data no_payload no_payload) data (length data) 0 (length data) payload s)
      (\<lambda>(r, s'). frame s s')"
  proof (rule loop_safe[where I = "frame s"])
    fix payload np off left s' assume "frame s s'" "off + left \<le> length data"
    then show "wp (ikev2_pld_payload cf True data no_payload no_payload payload np off left s') (\<lambda>(r, s'). frame s s')"
      using assms by (intro payload_safe) (auto simp: framed_def dest: frame_frompeer frame_trans, auto simp: frame_def)
  qed auto
  then show ?thesis
    unfolding ikev2_pld_payloads_e_def by (rule wp_mono) (auto simp: framed_def)
qed

subsection \<open>Fragments\<close>

text \<open>
  The fragments of an SA: the array has the announced size, the counters agree with the entries that
  hold data, and the message is not complete.
\<close>

definition frag_stored :: "iked_frag_entry option \<Rightarrow> bool" where
  "frag_stored o' = (case o' of None \<Rightarrow> False | Some el \<Rightarrow> frag_data el \<noteq> None)"

definition frag_bytes :: "iked_frag_entry option \<Rightarrow> byte list" where
  "frag_bytes o' = (case o' of None \<Rightarrow> [] | Some el \<Rightarrow> (case frag_data el of None \<Rightarrow> [] | Some d \<Rightarrow> d))"

definition frag_entry_ok :: "iked_frag_entry option \<Rightarrow> bool" where
  "frag_entry_ok o' = (case o' of None \<Rightarrow> True
     | Some el \<Rightarrow> (case frag_data el of None \<Rightarrow> True | Some d \<Rightarrow> length d = frag_size el))"

definition frag_counts :: "iked_frag \<Rightarrow> iked_frag_entry option list \<Rightarrow> bool" where
  "frag_counts f arr \<longleftrightarrow> length arr = frag_total f \<and> frag_count f = length (filter frag_stored arr) \<and>
     frag_total_size f = length (concat (map frag_bytes arr)) \<and> list_all frag_entry_ok arr"

definition frag_inv :: "iked_frag \<Rightarrow> bool" where
  "frag_inv f \<longleftrightarrow>
     (case frag_arr f of
        None \<Rightarrow> frag_count f = 0 \<and> frag_total_size f = 0
      | Some arr \<Rightarrow> frag_counts f arr \<and> frag_count f < frag_total f)"

lemma frag_inv_free [simp]: "frag_inv f \<Longrightarrow> frag_inv (config_free_fragments f)"
  by (auto simp: config_free_fragments_def frag_inv_def no_frags_def)

lemma frag_inv_no_frags [simp]: "frag_inv no_frags"
  by (simp add: frag_inv_def no_frags_def)

text \<open>The copy of complete fragments is their concatenation.\<close>

lemma frags_copy_ok:
  assumes "list_all frag_stored arr" "list_all frag_entry_ok arr"
    "off + length (concat (map frag_bytes arr)) = length e"
  shows "frags_copy arr e off = Some (Some (take off e @ concat (map frag_bytes arr)))"
  using assms
proof (induction arr arbitrary: e off)
  case (Cons o' arr)
  obtain el d where el: "o' = Some el" "frag_data el = Some d" "frag_size el = length d"
    using Cons.prems(1,2) by (auto simp: frag_stored_def frag_entry_ok_def split: option.splits)
  let ?e = "take off e @ d @ drop (off + length d) e"
  have len: "off + length d \<le> length e" "length ?e = length e"
    using Cons.prems(3) el by (auto simp: frag_bytes_def)
  then have "frags_copy (o' # arr) e off = frags_copy arr ?e (off + length d)"
    using el by (simp add: mem_read_def mem_write_def)
  moreover have "take (off + length d) ?e = take off e @ d"
    using len by simp
  ultimately show ?case
    using Cons.IH[of "off + length d" ?e] Cons.prems el len by (simp add: frag_bytes_def)
qed simp

lemma frag_counts_full:
  assumes "frag_counts f arr" "frag_count f = frag_total f"
  shows "list_all frag_stored arr"
proof -
  have "length (filter frag_stored arr) = length arr"
    using assms by (simp add: frag_counts_def)
  then show ?thesis
    by (metis filter_id_conv length_filter_less list.pred_set nat_neq_iff)
qed

lemma frag_counts_store:
  assumes "frag_counts f arr" "i < length arr" "arr ! i = None"
  shows "frag_counts (f\<lparr>frag_arr := a, frag_total_size := frag_total_size f + length e, frag_count := frag_count f + 1\<rparr>)
    (arr[i := Some \<lparr>frag_data = Some e, frag_size = length e\<rparr>])"
proof -
  have split: "arr = take i arr @ None # drop (Suc i) arr"
    using id_take_nth_drop[OF assms(2)] assms(3) by simp
  have upd: "arr[i := x] = take i arr @ x # drop (Suc i) arr" for x
    using assms(2) by (rule upd_conv_take_nth_drop)
  have fl: "length (filter P arr) = length (filter P (take i arr)) + length (filter P (drop (Suc i) arr))" if "\<not> P None" for P
    using that by (subst split) simp
  have cl: "length (concat (map frag_bytes arr)) =
      length (concat (map frag_bytes (take i arr))) + length (concat (map frag_bytes (drop (Suc i) arr)))"
    by (subst split) (simp add: frag_bytes_def)
  have al: "list_all frag_entry_ok (take i arr)" "list_all frag_entry_ok (drop (Suc i) arr)"
    using assms(1) by (auto simp: frag_counts_def list_all_iff dest: in_set_takeD in_set_dropD)
  show ?thesis
    unfolding frag_counts_def upd
    using assms(1,2) fl[of frag_stored] cl al
    by (simp add: frag_counts_def frag_stored_def[of "Some _"] frag_stored_def[of None] frag_bytes_def[of "Some _"]
        frag_entry_ok_def[of "Some _"])
qed

lemma alloc_ok_nil: "ps_alloc s = [] \<Longrightarrow> alloc_ok s = (True, s)"
  by (simp add: alloc_ok_def)

lemma new_buf_nil: "ps_alloc s = [] \<Longrightarrow> new_buf d s = (if IKED_MSGBUF_MAX < length d then None else Some d, s)"
  by (simp add: new_buf_def alloc_ok_nil buf_new_eq)

text \<open>The state between payloads: no allocation fails, and the SA is usable.\<close>

definition pld_inv :: "evp \<Rightarrow> pstate \<Rightarrow> bool" where
  "pld_inv ev s \<longleftrightarrow> ps_alloc s = [] \<and> msg_policy s \<noteq> None \<and>
     (\<exists>sa. msg_sa s = Some sa \<and> sa_decrypts ev sa \<and> frag_inv (sa_fragments sa))"

lemma pld_invE:
  assumes "pld_inv ev s"
  obtains sa where "ps_alloc s = []" "msg_policy s \<noteq> None" "msg_sa s = Some sa" "sa_decrypts ev sa"
    "frag_inv (sa_fragments sa)"
  using assms by (auto simp: pld_inv_def)

lemma pld_inv_frame: "pld_inv ev s \<Longrightarrow> frame s s' \<Longrightarrow> pld_inv ev s'"
  by (auto simp: pld_inv_def frame_def)

lemma sa_decrypts_update [simp]:
  "sa_decrypts ev (sa\<lparr>sa_fragments := f\<rparr>) = sa_decrypts ev sa" "sa_decrypts ev (sa\<lparr>sa_requests := q\<rparr>) = sa_decrypts ev sa"
  "sa_decrypts ev (sa\<lparr>sh_initiator := i\<rparr>) = sa_decrypts ev sa"
  by (simp_all add: sa_decrypts_def sa_crypto_ok_def split: option.splits)

lemma put_frags_simps [simp]:
  "msg_data (put_frags f s) = msg_data s" "msg_policy (put_frags f s) = msg_policy s"
  "ps_alloc (put_frags f s) = ps_alloc s" "msg_response (put_frags f s) = msg_response s"
  "msg_sa (put_frags f s) = map_option (\<lambda>sa. sa\<lparr>sa_fragments := f\<rparr>) (msg_sa s)"
  by (simp_all add: put_frags_def)

lemma pld_inv_put_frags:
  assumes "ps_alloc s = []" "msg_policy s \<noteq> None" "msg_sa s = Some sa" "sa_decrypts ev sa" "frag_inv f"
  shows "pld_inv ev (put_frags f s)"
  using assms by (simp add: pld_inv_def)

text \<open>A result after which the invariant holds and the message is the same.\<close>

definition pld_post :: "evp \<Rightarrow> byte list \<Rightarrow> int \<times> pstate \<Rightarrow> bool" where
  "pld_post ev data rs \<longleftrightarrow> pld_inv ev (snd rs) \<and> msg_data (snd rs) = data"

lemma wp_map: "wp (map_option f m) P \<longleftrightarrow> wp m (\<lambda>x. P (f x))"
  by (auto simp: wp_def split: option.splits)

text \<open>Reassembly parses the concatenation of the fragments; storing one either ends there or completes the message.\<close>

lemma reassemble_eq:
  assumes "ps_alloc s = []" "msg_sa s = Some sa"
    and f: "frag_arr (sa_fragments sa) = Some arr" "frag_counts (sa_fragments sa) arr"
      "frag_count (sa_fragments sa) = frag_total (sa_fragments sa)"
  shows "ikev2_frags_reassemble cf s =
    (if IKED_MSGBUF_MAX < length (concat (map frag_bytes arr)) then Some (reass_drop (sa_fragments sa) s)
     else map_option (reass_ok (sa_fragments sa)) (ikev2_pld_payloads_e cf (concat (map frag_bytes arr))
       (frag_nextpayload (sa_fragments sa)) (if msg_response s then flush_requests s else s)))"
proof -
  let ?f = "sa_fragments sa"
  have "frags_copy (take (frag_total ?f) arr) (replicate (frag_total_size ?f) 0) 0 =
      Some (Some (concat (map frag_bytes arr)))" "\<not> length arr < frag_total ?f"
    using frags_copy_ok[OF frag_counts_full[OF f(2,3)], of 0 "replicate (frag_total_size ?f) 0"] f(2)
    by (auto simp: frag_counts_def)
  then show ?thesis
    unfolding ikev2_frags_reassemble_def assms(2) Option.bind.simps new_buf_nil[OF assms(1)] Let_def
    using f(1,2) by (simp add: frag_counts_def)
qed

definition frag_stored_in :: "byte \<Rightarrow> nat \<Rightarrow> iked_frag_entry option list \<Rightarrow> byte list \<Rightarrow> iked_frag \<Rightarrow> iked_frag" where
  "frag_stored_in np num arr e f =
     (if num = 1 then f\<lparr>frag_nextpayload := np\<rparr> else f)
       \<lparr>frag_arr := Some (arr[num - 1 := Some \<lparr>frag_data = Some e, frag_size = length e\<rparr>]),
        frag_total_size := frag_total_size f + length e, frag_count := frag_count f + 1\<rparr>"

lemma frag_store_eq:
  assumes "ps_alloc s = []" "frag_counts f arr" "1 \<le> num" "num \<le> length arr" "arr ! (num - 1) = None"
    "f2 = frag_stored_in np num arr e f" "arr' = arr[num - 1 := Some \<lparr>frag_data = Some e, frag_size = length e\<rparr>]"
  shows "frag_store cf np num f arr e s =
      (if frag_count f2 = frag_total f2 then ikev2_frags_reassemble cf (put_frags f2 s) else Some (0, put_frags f2 s))"
    and "frag_counts f2 arr'" "frag_arr f2 = Some arr'" "frag_count f2 = frag_count f + 1" "frag_total f2 = frag_total f"
    "frag_nextpayload f2 = (if num = 1 then np else frag_nextpayload f)"
proof -
  define f1 where "f1 = (if num = 1 then f\<lparr>frag_nextpayload := np\<rparr> else f)"
  have f1: "frag_counts f1 arr" "frag_count f1 = frag_count f" "frag_total f1 = frag_total f"
    "frag_total_size f1 = frag_total_size f" "frag_nextpayload f1 = (if num = 1 then np else frag_nextpayload f)"
    using assms(2) by (auto simp: f1_def frag_counts_def)
  have f2: "f2 = f1\<lparr>frag_arr := Some arr', frag_total_size := frag_total_size f1 + length e, frag_count := frag_count f1 + 1\<rparr>"
    using assms(6,7) f1(2,4) by (simp add: frag_stored_in_def f1_def)
  show "frag_counts f2 arr'" "frag_arr f2 = Some arr'" "frag_count f2 = frag_count f + 1" "frag_total f2 = frag_total f"
    "frag_nextpayload f2 = (if num = 1 then np else frag_nextpayload f)"
    using frag_counts_store[OF f1(1) _ assms(5), where a = "Some arr'" and e = e] assms(3,4,7) f1 by (auto simp: f2)
  show "frag_store cf np num f arr e s =
      (if frag_count f2 = frag_total f2 then ikev2_frags_reassemble cf (put_frags f2 s) else Some (0, put_frags f2 s))"
    using assms(1,4,7) unfolding frag_store_def f1_def[symmetric] by (simp add: alloc_ok_nil f2 Let_def)
qed

lemma reassemble_safe:
  assumes "pc_verbose cf < 3" "ps_alloc s = []" "msg_policy s \<noteq> None" "msg_sa s = Some sa" "sa_decrypts ev sa"
    and f: "frag_arr (sa_fragments sa) = Some arr" "frag_counts (sa_fragments sa) arr"
      "frag_count (sa_fragments sa) = frag_total (sa_fragments sa)"
  shows "wp (ikev2_frags_reassemble cf s) (pld_post ev (msg_data s))"
proof -
  let ?f = "sa_fragments sa"
  have free: "frag_inv (config_free_fragments ?f)"
    using f(1) by (simp add: config_free_fragments_def)
  define s1 where "s1 = (if msg_response s then flush_requests s else s)"
  have s1: "ps_alloc s1 = []" "msg_policy s1 \<noteq> None" "\<exists>sa. msg_sa s1 = Some sa \<and> sa_decrypts ev sa" "msg_data s1 = msg_data s"
    using assms(2-5) by (auto simp: s1_def flush_requests_def)
  have parse: "wp (ikev2_pld_payloads_e cf e np s1) (\<lambda>rs. pld_post ev (msg_data s) (reass_ok ?f rs))" for e np
    using s1 free by (intro wp_mono[OF payloads_e_safe[OF assms(1)]])
      (auto simp: framed_def frame_def reass_ok_def pld_post_def intro!: pld_inv_put_frags)
  have "pld_post ev (msg_data s) (reass_drop ?f s)"
    using assms(2-5) free by (auto simp: reass_drop_def pld_post_def intro!: pld_inv_put_frags)
  then show ?thesis
    unfolding reassemble_eq[OF assms(2,4) f]
    using parse by (simp add: s1_def[symmetric] wp_map wp_simps)
qed

lemma frag_store_safe:
  assumes v: "pc_verbose cf < 3" and s: "ps_alloc s = []" "msg_policy s \<noteq> None" "msg_sa s = Some sa" "sa_decrypts ev sa"
    and f: "frag_counts f arr" "frag_count f < frag_total f" and num: "1 \<le> num" "num \<le> length arr" "arr ! (num - 1) = None"
  shows "wp (frag_store cf np num f arr e s) (pld_post ev (msg_data s))"
proof -
  note eq = frag_store_eq[OF s(1) f(1) num refl refl, where np = np and e = e]
  define f2 where "f2 = frag_stored_in np num arr e f"
  note eq = eq[folded f2_def]
  show ?thesis
  proof (cases "frag_count f2 = frag_total f2")
    case True
    then show ?thesis
      using reassemble_safe[OF v, of "put_frags f2 s" "sa\<lparr>sa_fragments := f2\<rparr>" ev] s eq by simp
  next
    case False
    then have "frag_inv f2"
      using eq f(2) by (simp add: frag_inv_def)
    then show ?thesis
      using eq(1) False s by (simp add: pld_post_def pld_inv_put_frags)
  qed
qed

lemma frag_insert_safe:
  assumes v: "pc_verbose cf < 3" and inv: "pld_inv ev s" and num: "1 \<le> num" "num \<le> tot"
  shows "wp (frag_insert cf np num tot e s) (pld_post ev (msg_data s))"
proof (rule pld_invE[OF inv])
  fix sa assume s: "ps_alloc s = []" "msg_policy s \<noteq> None" "msg_sa s = Some sa" "sa_decrypts ev sa"
    and f: "frag_inv (sa_fragments sa)"
  show ?thesis
  proof (cases "frag_arr (sa_fragments sa)")
    case None
    let ?f = "(sa_fragments sa)\<lparr>frag_arr := Some (replicate tot None), frag_total := tot\<rparr>"
    have st: "\<not> frag_stored None" "frag_bytes None = []" "frag_entry_ok None"
      by (auto simp: frag_stored_def frag_bytes_def frag_entry_ok_def)
    have "frag_counts ?f (replicate tot None)" "frag_count ?f < frag_total ?f"
      using f None num st by (auto simp: frag_inv_def frag_counts_def list_all_iff)
    then show ?thesis
      using frag_store_safe[OF v s, of ?f "replicate tot None" num np e] num s None
      by (simp add: frag_insert_def alloc_ok_nil Let_def)
  next
    case (Some arr)
    have c: "frag_counts (sa_fragments sa) arr" "frag_count (sa_fragments sa) < frag_total (sa_fragments sa)"
      using f Some by (auto simp: frag_inv_def)
    have drop: "pld_post ev (msg_data s) (frag_drop s)" "pld_post ev (msg_data s) (frag_dropall (sa_fragments sa) s)"
      using inv s f by (auto simp: frag_drop_def frag_dropall_def pld_post_def pld_inv_def intro!: pld_inv_put_frags)
    show ?thesis
      using frag_store_safe[OF v s c, of num np e] drop num s(3) Some c(1)
      by (auto simp: frag_insert_def Let_def frag_counts_def)
  qed
qed

lemma sa_static_decrypts:
  assumes "sa_static sa sa'" "sa_decrypts ev sa"
  shows "sa_decrypts ev sa'"
proof -
  have "sa_encr sa = None \<longleftrightarrow> sa_encr sa' = None" "sa_integr sa = None \<longleftrightarrow> sa_integr sa' = None"
    using assms(1) by (auto simp: sa_static_def)
  then show ?thesis
    using assms sa_static_crypto[OF assms(1)] by (auto simp: sa_decrypts_def)
qed

lemma pld_decrypt_safe:
  assumes inv: "pld_inv (pc_evp cf) s" and ev: "evp_sizes (pc_evp cf)" and len: "length src \<le> length (msg_data s)"
  shows "wp (pld_decrypt cf src s) (\<lambda>(r, s'). pld_post (pc_evp cf) (msg_data s) (0, s'))"
proof (rule pld_invE[OF inv])
  fix sa assume sa: "ps_alloc s = []" "msg_policy s \<noteq> None" "msg_sa s = Some sa" "sa_decrypts (pc_evp cf) sa"
    "frag_inv (sa_fragments sa)"
  show ?thesis
    unfolding pld_decrypt_def sa(1,3)
    by (intro wp_intros wp_bind[OF decrypt_safe[OF ev sa(4) len]])
      (use sa in \<open>auto simp: pld_post_def pld_inv_def sa_static_crypto intro: sa_static_decrypts\<close>)
qed

lemma swap_initiator_inv [simp]:
  "pld_inv ev (swap_initiator s) = pld_inv ev s" "msg_data (swap_initiator s) = msg_data s"
  by (auto simp: pld_inv_def swap_initiator_def)

lemma pld_inv_counters [simp]:
  "pld_inv ev (s\<lparr>ikes_frag_rcvd := n\<rparr>) = pld_inv ev s" "pld_inv ev (s\<lparr>ikes_frag_rcvd_drop := n\<rparr>) = pld_inv ev s"
  by (auto simp: pld_inv_def)

lemma frag_drop_post: "pld_inv ev s \<Longrightarrow> pld_post ev (msg_data s) (frag_drop s)"
  by (simp add: frag_drop_def pld_post_def)

lemma frag_dropall_post:
  "pld_inv ev s \<Longrightarrow> msg_sa s = Some sa \<Longrightarrow> pld_post ev (msg_data s) (frag_dropall (sa_fragments sa) s)"
  by (auto simp: frag_dropall_def pld_post_def intro!: pld_inv_put_frags elim!: pld_invE)

lemma e_safe:
  assumes v: "pc_verbose cf < 3" and inv: "pld_inv (pc_evp cf) s" and ev: "evp_sizes (pc_evp cf)"
    and data: "off + left \<le> length (msg_data s)"
  shows "wp (ikev2_pld_e cf (msg_data s) np off left s) (pld_post (pc_evp cf) (msg_data s))"
proof (rule pld_invE[OF inv])
  fix sa assume sa: "ps_alloc s = []" "msg_policy s \<noteq> None" "msg_sa s = Some sa" "sa_decrypts (pc_evp cf) sa"
    "frag_inv (sa_fragments sa)"
  have swap: "wp (map_option (apsnd swap_initiator) (pld_decrypt cf src (swap_initiator s)))
      (\<lambda>(r, s'). pld_post (pc_evp cf) (msg_data s) (0, s'))" if "length src \<le> length (msg_data s)" for src
    unfolding wp_map using pld_decrypt_safe[of cf "swap_initiator s" src] that inv ev
    by (auto simp: pld_post_def elim: wp_mono)
  have dec: "wp (if frompeer s then pld_decrypt cf src s
        else map_option (apsnd swap_initiator) (pld_decrypt cf src (swap_initiator s)))
      (\<lambda>(r, s'). pld_post (pc_evp cf) (msg_data s) (0, s'))" if "length src \<le> length (msg_data s)" for src
    using swap[OF that] pld_decrypt_safe[OF inv ev that] by simp
  have parse: "wp (ikev2_pld_payloads_e cf e np s') (pld_post (pc_evp cf) (msg_data s))"
    if "pld_post (pc_evp cf) (msg_data s) (0, s')" for e s'
    using that by (intro wp_mono[OF payloads_e_safe[OF v]])
      (auto simp: pld_post_def framed_def frame_def intro: pld_inv_frame elim: pld_invE)
  show ?thesis
    unfolding ikev2_pld_e_def sa(3) Option.bind.simps new_buf_nil[OF sa(1)] prod.case
    by (intro wp_bind[OF wp_read[OF data]] wp_bind[OF dec] wp_intros parse
        | (use sa inv data in \<open>auto simp: pld_post_def intro!: pld_inv_put_frags split: if_splits\<close>; fail))+
qed

lemma ef_safe:
  assumes v: "pc_verbose cf < 3" and inv: "pld_inv (pc_evp cf) s" and ev: "evp_sizes (pc_evp cf)"
    and data: "off + left \<le> length (msg_data s)"
  shows "wp (ikev2_pld_ef cf (msg_data s) np off left s) (pld_post (pc_evp cf) (msg_data s))"
proof (rule pld_invE[OF inv])
  fix sa assume sa: "ps_alloc s = []" "msg_policy s \<noteq> None" "msg_sa s = Some sa" "sa_decrypts (pc_evp cf) sa"
    "frag_inv (sa_fragments sa)"
  define s1 where "s1 = s\<lparr>ikes_frag_rcvd := ikes_frag_rcvd s + 1\<rparr>"
  have s1: "pld_inv (pc_evp cf) s1" "ps_alloc s1 = []" "msg_sa s1 = Some sa" "msg_data s1 = msg_data s"
    using inv sa by (simp_all add: s1_def)
  have ins: "wp (frag_insert cf np num tot e s') (pld_post (pc_evp cf) (msg_data s))"
    if "pld_post (pc_evp cf) (msg_data s) (0, s')" "\<not> (num = 0 \<or> tot = 0 \<or> tot < num)" for num tot e s'
    using frag_insert_safe[OF v, of "pc_evp cf" s' num tot np e] that by (simp add: pld_post_def)
  have drop: "pld_post (pc_evp cf) (msg_data s) (frag_drop s')" if "pld_post (pc_evp cf) (msg_data s) (0, s')" for s'
    using frag_drop_post[of "pc_evp cf" s'] that by (simp add: pld_post_def)
  have dropall: "pld_post (pc_evp cf) (msg_data s) (frag_dropall (sa_fragments sa) s1)"
    using frag_dropall_post[OF s1(1,3)] s1(4) by simp
  have post: "pld_post (pc_evp cf) (msg_data s) (r, s') \<longleftrightarrow> pld_inv (pc_evp cf) s' \<and> msg_data s' = msg_data s" for r s'
    by (simp add: pld_post_def)
  show ?thesis
    unfolding ikev2_pld_ef_def validate_defs Let_def s1_def[symmetric] s1(3) option.map new_buf_nil[OF s1(2)] prod.case
    by (intro wp_intros wp_bind[OF wp_validate_hdr[OF data]] wp_bind[OF wp_read] wp_bind[OF pld_decrypt_safe[OF s1(1) ev]]
        ins
        | (use s1 inv data dropall in \<open>auto intro!: drop simp: post split: if_splits\<close>; fail))+
qed

lemma payloads_safe:
  assumes v: "pc_verbose cf < 3" and inv: "pld_inv (pc_evp cf) s" and ev: "evp_sizes (pc_evp cf)"
    and len: "len \<le> length (msg_data s)"
  shows "wp (ikev2_pld_payloads cf off len payload s) (pld_post (pc_evp cf) (msg_data s))"
proof -
  let ?I = "\<lambda>s'. pld_inv (pc_evp cf) s' \<and> msg_data s' = msg_data s"
  have "wp (ikev2_pld_loop (ikev2_pld_payload cf False (msg_data s) (ikev2_pld_e cf (msg_data s)) (ikev2_pld_ef cf (msg_data s)))
      (msg_data s) len off (usub len off) payload s) (\<lambda>(r, s'). ?I s')"
  proof (rule loop_safe)
    fix payload np off left s' assume I: "?I s'" and data: "off + left \<le> length (msg_data s)"
    then have "wp (ikev2_pld_e cf (msg_data s) np off left s') (\<lambda>(r, s'). ?I s')"
      "wp (ikev2_pld_ef cf (msg_data s) np off left s') (\<lambda>(r, s'). ?I s')"
      using e_safe[OF v _ ev, of s' off left np] ef_safe[OF v _ ev, of s' off left np]
      by (auto simp: pld_post_def elim!: wp_mono)
    moreover have "msg_sa s' \<noteq> None" "msg_policy s' \<noteq> None \<or> \<not> frompeer s'"
      using I by (auto elim: pld_invE)
    moreover have "framed s' rs \<Longrightarrow> (\<lambda>(r, s'). ?I s') rs" for rs
      using I by (auto simp: framed_def frame_def pld_inv_def split: prod.splits)
    ultimately show "wp (ikev2_pld_payload cf False (msg_data s) (ikev2_pld_e cf (msg_data s))
        (ikev2_pld_ef cf (msg_data s)) payload np off left s') (\<lambda>(r, s'). ?I s')"
      using v data by (intro payload_safe)
  qed (use inv len in \<open>auto simp: usub_def\<close>)
  then show ?thesis
    unfolding ikev2_pld_payloads_def Let_def by (rule wp_mono) (auto simp: pld_post_def)
qed

lemma parse_safe:
  assumes v: "pc_verbose cf < 3" and inv: "pld_inv (pc_evp cf) s" and ev: "evp_sizes (pc_evp cf)"
    and hdr: "off + IKE_HDR_SIZE \<le> length (msg_data s)"
  shows "wp (ikev2_pld_parse cf off s) (pld_post (pc_evp cf) (msg_data s))"
  unfolding ikev2_pld_parse_def
  by (intro wp_intros wp_bind[OF wp_read[OF hdr]] payloads_safe[OF v inv ev]) (use inv in \<open>auto simp: pld_post_def\<close>)

lemma quick_loop_safe:
  "off < len \<longrightarrow> off + tot \<le> length data \<Longrightarrow> wp (quick_loop data len off tot payload num) (\<lambda>_. True)"
proof (induction tot arbitrary: off payload num rule: less_induct)
  case (less tot)
  have frag: "wp (if payload = IKEV2_PAYLOAD_SKF then map_option f (mem_read data (off + 4) 4) else Some num) (\<lambda>_. True)"
    if "payload = IKEV2_PAYLOAD_SKF \<Longrightarrow> off + 8 \<le> length data" for f :: "byte list \<Rightarrow> u16"
    using that wp_read[of "off + 4" 4 data] by (auto simp: wp_map elim: wp_mono)
  show ?case
    unfolding quick_loop.simps[of data len off tot payload num]
    by (intro wp_intros wp_bind[OF wp_validate_pld] wp_bind[OF frag] less(1) | (use less(2) in auto; fail))+
qed

lemma parse_quick_safe:
  assumes "off + IKE_HDR_SIZE \<le> length (msg_data s)"
  shows "wp (ikev2_pld_parse_quick off s) (framed s)"
  unfolding ikev2_pld_parse_quick_def
  by (intro wp_intros wp_bind[OF wp_read[OF assms]] wp_bind[OF quick_loop_safe]
      | (auto simp: usub_def frame_def; fail))+

end
