(* ===== verification/Pld_Auth.thy ===== *)
theory Pld_Auth
  imports Pld_Safe
begin

unbundle bit_operations_syntax

section \<open>Properties of the payload parser\<close>

text \<open>
  The theorems about \<^verbatim>\<open>ikev2_pld_parse\<close>: it is safe on every message, an unauthenticated message reaches
  only the fields that are meant for it, and two defects.
\<close>

text \<open>
  The data that only an encrypted payload may set: identities, certificates, authentication data, the
  SPIs to rekey or delete, configuration and EAP data, the MOBIKE requests, and the flags of the
  notifications that must be encrypted.
\<close>

definition sealed_flags :: u16 where
  "sealed_flags = 0x3BA"

definition sealed :: "pstate \<Rightarrow> _" where
  "sealed s = (msg_auth s, msg_peerid s, msg_localid s, msg_cert s, msg_scert s, msg_rekey s,
     (msg_del_protoid s, msg_del_cnt s, msg_del_spisize s, msg_del_buf s),
     (msg_cp s, msg_cp_addr s, msg_cp_addr6 s, msg_cp_dns s), msg_eap s, (msg_cpi s, msg_transform s),
     (msg_update_sa_addresses s, msg_cookie2 s), msg_flags s AND sealed_flags)"

text \<open>The SA without the objects that a failing decryption changes.\<close>

definition sealed_sa :: "iked_sa \<Rightarrow> iked_sa" where
  "sealed_sa sa = sa\<lparr>sa_encr := None, sa_integr := None, sa_fragments := no_frags\<rparr>"

lemma sealed_updates [simp]:
  "sealed (s\<lparr>msg_proposals := a\<rparr>) = sealed s" "sealed (s\<lparr>msg_prop := b\<rparr>) = sealed s"
  "sealed (s\<lparr>msg_ke := c\<rparr>) = sealed s" "sealed (s\<lparr>msg_dhgroup := d\<rparr>) = sealed s"
  "sealed (s\<lparr>msg_certreqs := e\<rparr>) = sealed s" "sealed (s\<lparr>msg_nonce := f\<rparr>) = sealed s"
  "sealed (s\<lparr>msg_nat_detected := g\<rparr>) = sealed s" "sealed (s\<lparr>msg_natt_rcvd := h\<rparr>) = sealed s"
  "sealed (s\<lparr>msg_cookie := i\<rparr>) = sealed s" "sealed (s\<lparr>msg_group := j\<rparr>) = sealed s"
  "sealed (s\<lparr>ps_alloc := k\<rparr>) = sealed s" "sealed (s\<lparr>msg_sa := l\<rparr>) = sealed s"
  "sealed (s\<lparr>ikes_frag_rcvd := m\<rparr>) = sealed s" "sealed (s\<lparr>ikes_frag_rcvd_drop := n\<rparr>) = sealed s"
  by (simp_all add: sealed_def)

lemma sealed_set_flag [simp]: "f AND sealed_flags = 0 \<Longrightarrow> sealed (set_flag f s) = sealed s"
  by (simp add: sealed_def set_flag_def bit.conj_disj_distrib2)

text \<open>What a plaintext payload leaves alone.\<close>

definition kept :: "pstate \<Rightarrow> 'a \<times> pstate \<Rightarrow> bool" where
  "kept s rs \<longleftrightarrow> sealed (snd rs) = sealed s"

lemma keptI [simp]: "kept s (r, s') \<longleftrightarrow> sealed s' = sealed s"
  by (simp add: kept_def)

lemma sealed_alloc: "alloc_ok s = (ok, s') \<Longrightarrow> sealed s' = sealed s"
  by (auto elim: alloc_okE)

lemma sealed_new_buf: "new_buf d s = (b, s') \<Longrightarrow> sealed s' = sealed s"
  by (auto elim: new_bufE)

lemma wlp_kept: "wlp m (kept s') \<Longrightarrow> sealed s' = sealed s \<Longrightarrow> wlp m (kept s)"
  by (auto simp: kept_def elim: wlp_mono)

lemma add_peer_transform_kept: "wlp (add_peer_transform type xid a s) (kept s)"
  unfolding add_peer_transform_def Let_def
  by (intro wlp_intros wlp_any | (auto dest: sealed_alloc; fail))+

lemma xform_kept: "wlp (ikev2_pld_xform v data off tot s) (kept s)"
proof (induction tot arbitrary: off s rule: less_induct)
  case (less tot)
  have ih: "wlp (ikev2_pld_xform v data off' tot' s') (kept s)" if "sealed s' = sealed s" "tot' < tot" for off' tot' s'
    using less[OF that(2)] that(1) by (rule wlp_kept)
  show ?case
    unfolding ikev2_pld_xform.simps[of v data off tot s]
    by (intro wlp_intros wlp_bind[OF add_peer_transform_kept] wlp_any[of "ikev2_validate_xform _ _ _"] wlp_any[of "if _ then _ else _"] ih
        | (auto simp: ikev2_validate_xform_def Let_def bind_Some_iff split: if_splits; fail))+
qed

lemma sa_transforms_kept: "wlp (sa_transforms v data n off tot s) (kept s)"
  unfolding sa_transforms_def
  by (intro wlp_intros wlp_bind[OF xform_kept] wlp_any[of "msg_prop _"] | (auto; fail))+

lemma add_peer_proposal_sealed: "add_peer_proposal nr proto sv n s = (b, s') \<Longrightarrow> sealed s' = sealed s"
  by (auto simp: add_peer_proposal_def Let_def dest: sealed_alloc split: prod.splits option.splits if_splits)

lemma sa_kept: "wlp (ikev2_pld_sa v data off left sv s) (kept s)"
proof (induction left arbitrary: off sv s rule: less_induct)
  case (less left)
  have ih: "wlp (ikev2_pld_sa v data off' left' sv' s') (kept s)" if "sealed s' = sealed s" "left' < left" for off' left' sv' s'
    using less[OF that(2)] that(1) by (rule wlp_kept)
  show ?case
    unfolding ikev2_pld_sa.simps[of v data off left sv s]
    by (intro wlp_intros wlp_bind[OF sa_transforms_kept] wlp_any[of "ikev2_validate_sa _ _ _"] wlp_any[of "mem_read _ _ _"] ih
        | (auto dest!: add_peer_proposal_sealed simp: ikev2_validate_sa_def Let_def bind_Some_iff split: if_splits; fail))+
qed

lemma ke_kept: "wlp (ikev2_pld_ke cf data off left s) (kept s)"
  unfolding ikev2_pld_ke_def by (intro wlp_intros wlp_any | (auto dest: sealed_new_buf; fail))+

lemma certreq_kept: "wlp (ikev2_pld_certreq cf data off left s) (kept s)"
  unfolding ikev2_pld_certreq_def
  by (intro wlp_intros wlp_any | (auto dest!: sealed_new_buf sealed_alloc; fail))+

lemma nonce_kept: "wlp (ikev2_pld_nonce cf data off left s) (kept s)"
  unfolding ikev2_pld_nonce_def by (intro wlp_intros wlp_any | (auto dest: sealed_new_buf; fail))+

lemma notify_sealed:
  "notify_nat cf source buf s = (r, s') \<Longrightarrow> sealed s' = sealed s"
  "notify_cookie buf s = (r, s') \<Longrightarrow> sealed s' = sealed s"
  "notify_sighash buf s sa = (r, s') \<Longrightarrow> sealed s' = sealed s"
  by (auto simp: notify_nat_def ikev2_nat_detection_def notify_cookie_def notify_sighash_def sealed_flags_def Let_def
      dest!: sealed_alloc sealed_new_buf split: prod.splits option.splits if_splits)

lemma kept_notify: "kept s (notify_nat cf source buf s)" "kept s (notify_cookie buf s)" "kept s (notify_sighash buf s sa)"
  by (auto simp: kept_def notify_sealed[OF prod.collapse[symmetric]])

lemma notify_kept: "wlp (ikev2_pld_notify cf False data off left s) (kept s)"
  unfolding ikev2_pld_notify_def
  by (intro wlp_intros wlp_any | (auto simp: kept_notify sealed_flags_def; fail))+

text \<open>A message no part of which is authentic for the SA in either role, and what parsing it keeps.\<close>

definition unauthentic :: "evp \<Rightarrow> iked_sa \<Rightarrow> byte list \<Rightarrow> bool" where
  "unauthentic ev sa msg \<longleftrightarrow> (\<forall>role off left src. mem_read msg off left = Some src \<longrightarrow>
     \<not> msg_authentic ev (sa\<lparr>sh_initiator := role\<rparr>) msg src)"

definition guarded :: "iked_sa \<Rightarrow> pstate \<Rightarrow> pstate \<Rightarrow> bool" where
  "guarded sa s s' \<longleftrightarrow> sealed s' = sealed s \<and> (\<exists>sa'. msg_sa s' = Some sa' \<and> sealed_sa sa' = sealed_sa sa \<and>
     sa_fragments sa' \<in> {sa_fragments sa, config_free_fragments (sa_fragments sa)})"

lemma sealed_sa_static: "sa_static sa sa' \<Longrightarrow> sealed_sa sa' = sealed_sa sa"
proof -
  assume "sa_static sa sa'"
  then obtain e h where "sa' = sa\<lparr>sa_encr := e, sa_integr := h\<rparr>"
    by (auto simp: sa_static_def)
  then show ?thesis by (simp add: sealed_sa_def)
qed

lemma pld_decrypt_unauthentic:
  assumes "evp_sizes (pc_evp cf)" "msg_sa s = Some sa" "sa_decrypts (pc_evp cf) sa"
    "\<not> msg_authentic (pc_evp cf) sa (msg_data s) src" "length src \<le> length (msg_data s)"
  shows "wlp (pld_decrypt cf src s) (\<lambda>(r, s'). r = None \<and> sealed s' = sealed s \<and>
    (\<exists>sa'. msg_sa s' = Some sa' \<and> sealed_sa sa' = sealed_sa sa \<and> sa_fragments sa' = sa_fragments sa))"
proof -
  have dec: "wlp (ikev2_msg_decrypt (pc_evp cf) (pc_rnd cf) (pc_verbose cf) (ps_alloc s) (Some sa) (msg_data s) src)
      (\<lambda>(r, sa', al). r = None \<and> static_result sa (r, sa', al))"
  proof (cases "sa_crypto_ok (pc_evp cf) sa")
    case True
    then show ?thesis
      using ikev2_msg_decrypt_authentic[OF assms(1) True assms(5), of "pc_rnd cf" "pc_verbose cf" "ps_alloc s"]
        ikev2_msg_decrypt_static[of "pc_evp cf" "pc_rnd cf" "pc_verbose cf" "ps_alloc s" sa "msg_data s" src] assms(4)
      by (auto simp: wlp_def)
  next
    case False
    then show ?thesis
      using assms(3) by (auto simp: sa_decrypts_def ikev2_msg_decrypt_def static_result_def split: option.splits)
  qed
  show ?thesis
    unfolding pld_decrypt_def assms(2)
    by (intro wlp_intros wlp_bind[OF dec]) (auto simp: static_result_def sealed_sa_static sa_static_crypto(5))
qed

lemma unauthenticD:
  assumes "unauthentic ev sa msg" "mem_read msg off left = Some src"
  shows "\<not> msg_authentic ev (sa\<lparr>sh_initiator := role\<rparr>) msg src" "\<not> msg_authentic ev sa msg src"
proof -
  show all: "\<not> msg_authentic ev (sa\<lparr>sh_initiator := role\<rparr>) msg src" for role
    using assms by (simp add: unauthentic_def)
  have "sa\<lparr>sh_initiator := sh_initiator sa\<rparr> = sa" by (cases sa) simp
  then show "\<not> msg_authentic ev sa msg src" using all by metis
qed

text \<open>The reading of a received payload that does not decrypt.\<close>

definition refused :: "iked_sa \<Rightarrow> pstate \<Rightarrow> byte list option \<times> pstate \<Rightarrow> bool" where
  "refused sa s rs \<longleftrightarrow> fst rs = None \<and> sealed (snd rs) = sealed s \<and> (\<exists>sa'. msg_sa (snd rs) = Some sa' \<and>
     sealed_sa sa' = sealed_sa sa \<and> sa_fragments sa' = sa_fragments sa)"

lemma sealed_sa_swap:
  "sealed_sa sa' = sealed_sa (sa\<lparr>sh_initiator := \<not> sh_initiator sa\<rparr>) \<Longrightarrow>
   sealed_sa (sa'\<lparr>sh_initiator := \<not> sh_initiator sa'\<rparr>) = sealed_sa sa"
  by (cases sa; cases sa') (auto simp: sealed_sa_def)

lemma decrypt_refused:
  assumes ev: "evp_sizes (pc_evp cf)" and sa: "msg_sa s = Some sa" "sa_decrypts (pc_evp cf) sa"
    "unauthentic (pc_evp cf) sa (msg_data s)" and src: "mem_read (msg_data s) off left = Some src"
  shows "wlp (pld_decrypt cf src s) (refused sa s)"
    "wlp (map_option (apsnd swap_initiator) (pld_decrypt cf src (swap_initiator s))) (refused sa s)"
proof -
  have len: "length src \<le> length (msg_data s)"
    using src by (auto simp: mem_read_def split: if_splits)
  show "wlp (pld_decrypt cf src s) (refused sa s)"
    by (rule wlp_mono[OF pld_decrypt_unauthentic[OF ev sa(1,2) unauthenticD(2)[OF sa(3) src] len]])
      (auto simp: refused_def)
  let ?sa = "sa\<lparr>sh_initiator := \<not> sh_initiator sa\<rparr>"
  have s: "msg_sa (swap_initiator s) = Some ?sa" "sealed (swap_initiator s) = sealed s"
    using sa by (simp_all add: swap_initiator_def)
  have "wlp (pld_decrypt cf src (swap_initiator s)) (\<lambda>rs. refused sa s (apsnd swap_initiator rs))"
    by (rule wlp_mono[OF pld_decrypt_unauthentic[OF ev s(1) _ _ ]])
      (use sa len s in \<open>auto simp: refused_def unauthenticD(1)[OF _ src] swap_initiator_def intro: sealed_sa_swap\<close>)
  then show "wlp (map_option (apsnd swap_initiator) (pld_decrypt cf src (swap_initiator s))) (refused sa s)"
    by (auto simp: wlp_def)
qed
lemma wp_conj: "wp m P \<Longrightarrow> wlp m Q \<Longrightarrow> wp m (\<lambda>x. P x \<and> Q x)"
  by (auto simp: wp_def wlp_def)

text \<open>The loop ends behind an encrypted payload, so the others see the SA unchanged.\<close>

lemma loop_last:
  assumes disp: "\<And>payload np off left s. I s \<Longrightarrow> off + left \<le> length data \<Longrightarrow>
      wp (disp payload np off left s)
        (\<lambda>(r, s'). if payload = IKEV2_PAYLOAD_SK \<or> payload = IKEV2_PAYLOAD_SKF then Q s' else I s')"
    and IQ: "\<And>s. I s \<Longrightarrow> Q s"
  shows "I s \<Longrightarrow> off < len \<longrightarrow> off + tot \<le> length data \<Longrightarrow>
    wp (ikev2_pld_loop disp data len off tot payload s) (\<lambda>(r, s'). Q s')"
proof (induction tot arbitrary: off payload s rule: less_induct)
  case (less tot)
  show ?case
    unfolding ikev2_pld_loop.simps[of disp data len off tot payload s]
    by (intro wp_intros wp_bind[OF wp_validate_pld] wp_bind[OF disp] less(1)
        | (use less(2,3) in \<open>auto intro: IQ split: if_splits\<close>; fail))+
qed

lemma guardedI:
  "msg_sa s = Some sa \<Longrightarrow> frame s s' \<Longrightarrow> sealed s' = sealed s \<Longrightarrow> guarded sa s s'"
  by (auto simp: guarded_def frame_def)

lemma refused_guarded:
  assumes "refused sa s (r, s')"
  shows "guarded sa s s'" "guarded sa s (s'\<lparr>ikes_frag_rcvd_drop := n\<rparr>)"
  using assms by (auto simp: refused_def guarded_def)

lemma refused_Some: "\<not> refused sa s (Some e, s')"
  by (simp add: refused_def)

lemma refused_alloc [simp]: "refused sa (s\<lparr>ps_alloc := al\<rparr>) = refused sa s"
  by (intro ext) (simp add: refused_def)

lemma put_frags_guarded:
  "msg_sa s = Some sa \<Longrightarrow> guarded sa s (put_frags (config_free_fragments (sa_fragments sa)) s)"
  by (auto simp: guarded_def put_frags_def sealed_sa_def)

lemma e_guarded:
  assumes ev: "evp_sizes (pc_evp cf)" and sa: "msg_sa s = Some sa" "sa_decrypts (pc_evp cf) sa"
    "unauthentic (pc_evp cf) sa (msg_data s)"
  shows "wlp (ikev2_pld_e cf (msg_data s) np off left s) (\<lambda>(r, s'). guarded sa s s')"
proof -
  have dec: "wlp (if frompeer s' then pld_decrypt cf src s'
        else map_option (apsnd swap_initiator) (pld_decrypt cf src (swap_initiator s'))) (refused sa s)"
    if "new_buf d s = (Some src, s')" "mem_read (msg_data s) off left = Some d" for d src s'
  proof (rule new_bufE[OF that(1)])
    fix al assume s': "s' = s\<lparr>ps_alloc := al\<rparr>" "Some src = None \<or> Some src = Some d"
    then show ?thesis
      using decrypt_refused[OF ev, of s' sa off left src] sa that(2) by simp
  qed
  have g0: "guarded sa s (put_frags (config_free_fragments (sa_fragments sa)) s)"
    by (rule put_frags_guarded[OF sa(1)])
  have g1: "guarded sa s s'" if "new_buf d s = (b, s')" for d b s'
    using that sa(1) by (auto simp: guarded_def elim!: new_bufE)
  show ?thesis
    unfolding ikev2_pld_e_def sa(1) Option.bind.simps
    by (intro wlp_intros wlp_bind[OF dec] wlp_any[of "mem_read _ _ _"]
        | (auto simp: g0 refused_Some intro: g1 refused_guarded; fail))+
qed

lemma ef_guarded:
  assumes ev: "evp_sizes (pc_evp cf)" and sa: "msg_sa s = Some sa" "sa_decrypts (pc_evp cf) sa"
    "unauthentic (pc_evp cf) sa (msg_data s)"
  shows "wlp (ikev2_pld_ef cf (msg_data s) np off left s) (\<lambda>(r, s'). guarded sa s s')"
proof -
  define s1 where "s1 = s\<lparr>ikes_frag_rcvd := ikes_frag_rcvd s + 1\<rparr>"
  have s1: "msg_sa s1 = Some sa" "msg_data s1 = msg_data s" "sealed s1 = sealed s"
    using sa by (simp_all add: s1_def)
  have g: "guarded sa s1 = guarded sa s"
    by (intro ext) (simp add: guarded_def s1)
  have dec: "wlp (pld_decrypt cf src s') (refused sa s1)"
    if "new_buf d s1 = (Some src, s')" "mem_read (msg_data s) (off + 4) (left - 4) = Some d" for d src s'
  proof (rule new_bufE[OF that(1)])
    fix al assume s': "s' = s1\<lparr>ps_alloc := al\<rparr>" "Some src = None \<or> Some src = Some d"
    then show ?thesis
      using decrypt_refused(1)[OF ev, of s' sa "off + 4" "left - 4" src] sa s1 that(2) by simp
  qed
  have g0: "guarded sa s1 s" "guarded sa s1 (snd (frag_drop s1))" "guarded sa s1 (snd (frag_dropall (sa_fragments sa) s1))"
    using s1 sa(1) by (auto simp: guarded_def frag_drop_def frag_dropall_def put_frags_def sealed_sa_def)
  have g1: "guarded sa s1 (snd (frag_drop s'))" if "new_buf d s1 = (b, s')" for d b s'
    using that s1(1) by (auto simp: guarded_def frag_drop_def elim!: new_bufE)
  have g2: "guarded sa s1 (snd (frag_drop s'))" if "refused sa s1 (r, s')" for r s'
    using refused_guarded(2)[OF that] by (simp add: frag_drop_def)
  show ?thesis
    unfolding ikev2_pld_ef_def Let_def s1_def[symmetric] s1(1) option.map g[symmetric]
    by (intro wlp_intros wlp_bind[OF dec] wlp_any[of "mem_read _ _ _"] wlp_any[of "ikev2_validate_ef _ _ _"]
        | (auto simp: g0 case_prod_unfold refused_Some intro: g1 g2; fail))+
qed

lemma payload_guarded:
  assumes v: "pc_verbose cf < 3" and ev: "evp_sizes (pc_evp cf)" and inv: "pld_inv (pc_evp cf) s"
    and sa: "msg_sa s = Some sa" "unauthentic (pc_evp cf) sa (msg_data s)"
    and s': "frame s s'" "sealed s' = sealed s" and data: "off + left \<le> length (msg_data s)"
  shows "wp (ikev2_pld_payload cf False (msg_data s) (ikev2_pld_e cf (msg_data s)) (ikev2_pld_ef cf (msg_data s))
      payload np off left s')
    (\<lambda>(r, s''). if payload = IKEV2_PAYLOAD_SK \<or> payload = IKEV2_PAYLOAD_SKF then guarded sa s s''
       else frame s s'' \<and> sealed s'' = sealed s)"
proof -
  have inv': "pld_inv (pc_evp cf) s'" "msg_sa s' = Some sa" "msg_data s' = msg_data s" "msg_policy s' \<noteq> None"
    and dec: "sa_decrypts (pc_evp cf) sa"
    using pld_inv_frame[OF inv s'(1)] s'(1) sa(1) inv by (auto simp: frame_def elim: pld_invE)
  have g: "guarded sa s' = guarded sa s"
    by (intro ext) (simp add: guarded_def s'(2))
  note ce = wp_conj[OF e_safe[OF v inv'(1) ev] e_guarded[OF ev inv'(2) dec], unfolded inv'(3) g, OF data sa(2)]
    and cf = wp_conj[OF ef_safe[OF v inv'(1) ev] ef_guarded[OF ev inv'(2) dec], unfolded inv'(3) g, OF data sa(2)]
  have sk: "wp (ikev2_pld_e cf (msg_data s) np off left s') (\<lambda>(r, s''). guarded sa s s'')"
    "wp (ikev2_pld_ef cf (msg_data s) np off left s') (\<lambda>(r, s''). guarded sa s s'')"
    by (rule wp_mono[OF ce]; simp) (rule wp_mono[OF cf]; simp)
  have plain: "wp m (\<lambda>(r, s''). frame s s'' \<and> sealed s'' = sealed s)" if "wp m (framed s')" "wlp m (kept s')"
    for m :: "(int \<times> pstate) option"
    using wp_conj[OF that] s' by (auto simp: framed_def kept_def intro: frame_trans elim!: wp_mono)
  have pr: "wp (print_hex (pc_verbose cf) (msg_data s) off left) (\<lambda>_. True)"
    using data by (simp add: wp_print)
  consider "payload = IKEV2_PAYLOAD_SK \<or> payload = IKEV2_PAYLOAD_SKF"
    | "payload \<noteq> IKEV2_PAYLOAD_SK" "payload \<noteq> IKEV2_PAYLOAD_SKF" by blast
  then show ?thesis
  proof cases
    case 1
    then show ?thesis using sk by (auto simp: ikev2_pld_payload_def)
  next
    case 2
    have "wp (ikev2_pld_payload cf False (msg_data s) (ikev2_pld_e cf (msg_data s)) (ikev2_pld_ef cf (msg_data s))
        payload np off left s') (\<lambda>(r, s''). frame s s'' \<and> sealed s'' = sealed s)"
      using 2 data inv' s' unfolding ikev2_pld_payload_def
      by (intro wp_if wp_bind[OF pr] plain sa_safe sa_kept ke_safe ke_kept certreq_safe certreq_kept nonce_safe nonce_kept
          notify_safe notify_kept | (simp; fail))+
    then show ?thesis using 2 by simp
  qed
qed

lemma parse_guarded:
  assumes v: "pc_verbose cf < 3" and ev: "evp_sizes (pc_evp cf)" and inv: "pld_inv (pc_evp cf) s"
    and sa: "msg_sa s = Some sa" "unauthentic (pc_evp cf) sa (msg_data s)"
    and hdr: "off + IKE_HDR_SIZE \<le> length (msg_data s)"
  shows "wp (ikev2_pld_parse cf off s) (\<lambda>(r, s'). guarded sa s s')"
proof -
  have loop: "wp (ikev2_pld_payloads cf off' len payload s) (\<lambda>(r, s'). guarded sa s s')" if "len \<le> length (msg_data s)"
    for off' len payload
    unfolding ikev2_pld_payloads_def Let_def
    by (rule loop_last[where I = "\<lambda>s'. frame s s' \<and> sealed s' = sealed s"])
      (use payload_guarded[OF v ev inv sa] that guardedI[OF sa(1)] in \<open>auto simp: usub_def\<close>)
  have "guarded sa s s" using guardedI[OF sa(1)] by simp
  then show ?thesis
    unfolding ikev2_pld_parse_def by (intro wp_intros wp_bind[OF wp_read[OF hdr]] loop) auto
qed
text \<open>A configuration and a received message to evaluate the theorems on.\<close>

definition toy_cfg :: pcfg where
  "toy_cfg = \<lparr>pc_verbose = 0, pc_evp = toy_evp, pc_rnd = (\<lambda>_. 0), pc_sha1 = toy_sum 20, pc_natt_force = False,
     pc_natrnd = [], pc_id_name = (\<lambda>_. []), pc_addr_name = (\<lambda>_. []), pc_asn1_name = (\<lambda>_. None)\<rparr>"

definition toy_policy :: iked_policy where
  "toy_policy = \<lparr>pol_skip = [], pol_flags = 0, pol_refcnt = 0, pol_af = 0,
     pol_peer = \<lparr>addr_af = 0, addr = Unspec, addr_mask = 0, addr_net = False, addr_port = 0\<rparr>, pol_peerid = \<lparr>sid_type = 0, sid_data = []\<rparr>,
     pol_local = \<lparr>addr_af = 0, addr = Unspec, addr_mask = 0, addr_net = False, addr_port = 0\<rparr>, pol_localid = \<lparr>sid_type = 0, sid_data = []\<rparr>,
     pol_auth = \<lparr>auth_method = 0, auth_eap = 0\<rparr>, pol_proposals = [], pol_flows = Leaf, pol_nflows = 0, pol_tssrc = [],
     pol_tssrc_count = 0, pol_tsdst = [], pol_tsdst_count = 0, pol_sapeers = []\<rparr>"

definition toy_msg :: "iked_sa \<Rightarrow> byte list \<Rightarrow> pstate" where
  "toy_msg sa data = \<lparr>msg_data = data, msg_local = Unspec, msg_peer = Unspec, msg_response = False, msg_natt_rcvd = False,
     msg_nat_detected = 0, msg_policy = Some toy_policy, msg_sa = Some sa, msg_proposals = [], msg_certreqs = [],
     msg_rekey = \<lparr>spi = 0, spi_size = 0, spi_protoid = 0\<rparr>, msg_nonce = None, msg_dhgroup = 0, msg_ke = None,
     msg_auth = no_id, msg_peerid = no_id, msg_localid = no_id, msg_cert = no_id, msg_scert = replicate 3 no_id,
     msg_cookie = None, msg_group = 0, msg_cpi = 0, msg_transform = 0, msg_flags = 0,
     msg_eap = \<lparr>eam_identity = None, eam_user = None, eam_type = 0, eam_id = 0, eam_msrid = 0, eam_success = False,
       eam_found = False, eam_response = False, eam_challenge = replicate 16 0, eam_ntresponse = replicate 24 0, eam_state = 0\<rparr>,
     msg_del_spisize = 0, msg_del_cnt = 0, msg_del_buf = None, msg_del_protoid = 0, msg_cp = 0, msg_cp_addr = None,
     msg_cp_addr6 = None, msg_cp_dns = None, msg_frag_num = 0, msg_update_sa_addresses = False, msg_cookie2 = NullBuf,
     msg_prop = None, ps_alloc = [], ikes_frag_rcvd = 0, ikes_frag_rcvd_drop = 0, ikes_frag_reass_ok = 0,
     ikes_frag_reass_drop = 0\<rparr>"

text \<open>A header, a nonce and an encrypted payload whose checksum is wrong.\<close>

definition forged_msg :: "byte list" where
  "forged_msg = [1, 2, 3, 4, 5, 6, 7, 8, 9, 10, 11, 12, 13, 14, 15, 16, 40, 0x20, 35, 8, 0, 0, 0, 1, 0, 0, 0, 76,
     46, 0, 0, 8, 1, 2, 3, 4, 39, 0, 0, 40] @ concat (replicate 18 [1, 2])"

lemma toy_simps [simp]:
  "pc_verbose toy_cfg = 0" "pc_evp toy_cfg = toy_evp" "msg_data (toy_msg sa data) = data" "msg_sa (toy_msg sa data) = Some sa"
  "evp_sizes toy_evp"
  using toy_evp_ok by (simp_all add: toy_cfg_def toy_msg_def evp_ok_def)

lemma forged_length [simp]: "length forged_msg = 76"
  by code_simp

lemma toy_inv: "frag_inv (sa_fragments sa) \<Longrightarrow> sa_decrypts toy_evp sa \<Longrightarrow> pld_inv toy_evp (toy_msg sa data)"
  by (simp add: pld_inv_def toy_msg_def)

lemma toy_sa_decrypts: "sa_decrypts toy_evp (toy_sa i)" "sa_fragments (toy_sa i) = no_frags"
  using toy_sa_ok(1)[of i] by (auto simp: sa_decrypts_def toy_sa_def new_sa_def)

lemma forged_windows: "list_all (\<lambda>k. \<not> list_all (\<lambda>x. x = forged_msg ! k) (take 16 (drop k forged_msg))) [0..<61]"
  by code_simp

lemma forged_unauthentic: "unauthentic toy_evp (toy_sa i) forged_msg"
  unfolding unauthentic_def
proof (intro allI impI notI)
  fix role off left src assume rd: "mem_read forged_msg off left = Some src"
    and auth: "msg_authentic toy_evp (toy_sa i\<lparr>sh_initiator := role\<rparr>) forged_msg src"
  have len: "length forged_msg = 76" by simp
  have src: "src = take left (drop off forged_msg)" "off + left \<le> 76"
    using rd len by (auto simp: mem_read_def split: if_splits)
  obtain c where c: "drop (length src - 16) src = replicate 16 c"
    using auth by (auto simp: msg_authentic_def toy_sa_def hash_new_def hash_alg_def mac_matches_def toy_evp_def
        toy_sum_def hash_length_def)
  have l16: "16 \<le> left"
    using arg_cong[OF c, of length] src(2) unfolding src(1) by simp
  define k where "k = off + left - 16"
  have "take 16 (drop k forged_msg) = replicate 16 c"
    using c src l16 len by (simp add: k_def drop_take add.commute)
  moreover have "forged_msg ! k = take 16 (drop k forged_msg) ! 0"
    using src l16 len by (simp add: k_def)
  ultimately have "list_all (\<lambda>x. x = forged_msg ! k) (take 16 (drop k forged_msg))"
    by (simp add: list_all_iff)
  moreover have "k \<in> set [0..<61]" using src l16 by (simp add: k_def)
  ultimately show False using forged_windows by (auto simp: list_all_iff)
qed
subsection \<open>Properties\<close>




text \<open>
  C35: packet logging reads past the message.  \<^verbatim>\<open>ikev2_pld_cp\<close> has already moved \<^verbatim>\<open>ptr\<close> behind the header of
  a configuration attribute when it prints the attribute from \<^verbatim>\<open>ptr + sizeof(*cfg)\<close>, so at verbosity 3 an
  attribute with a value at the end of the buffer makes \<^verbatim>\<open>print_hex\<close> read four bytes behind it.
\<close>

theorem cp_logging_overread:
  assumes "3 \<le> pc_verbose cf" "0 < length v" "length v < 65536" "length pre = off"
    "data = pre @ [cp, 0, 0, 0] @ be_bytes 2 ty @ be_bytes 2 (length v) @ v"
  shows "ikev2_pld_cp cf data off (length v + 8) s = None"
proof -
  have be: "length (be_bytes 2 n) = 2" for n by simp
  have hdr: "mem_read data off 4 = Some [cp, 0, 0, 0]"
    "mem_read data (off + 4) 4 = Some (be_bytes 2 ty @ be_bytes 2 (length v))"
    using assms(4) by (simp_all add: mem_read_def assms(5))
  have len: "length data = off + 8 + length v"
    using assms(4,5) by simp
  have loop: "cp_loop (pc_verbose cf) data (off + 4) (length v + 4) s = None"
    using hdr(2) len assms(1-3) by (subst cp_loop.simps)
      (auto simp: print_hex_def mem_read_def be_val_be_bytes)
  then show ?thesis
    using hdr(1) by (auto simp: ikev2_pld_cp_def ikev2_validate_cp_def ikev2_validate_hdr_def add.commute)
qed

theorem cp_logging_overread_witness:
  "ikev2_pld_cp (toy_cfg\<lparr>pc_verbose := 3\<rparr>) [1, 0, 0, 0, 0, 1, 0, 4, 10, 0, 0, 1] 0 12 (toy_msg (toy_sa False) forged_msg) = None"
  using cp_logging_overread[of "toy_cfg\<lparr>pc_verbose := 3\<rparr>" "[10, 0, 0, 1]" "[]" 0 "[1, 0, 0, 0, 0, 1, 0, 4, 10, 0, 0, 1]" 1 1]
  by (simp add: be_bytes_def numeral_2_eq_2)

text \<open>
  C36: the fragments that wait for reassembly can be dropped by anyone.  A message of a single fragment
  payload whose total exceeds the limit frees all stored fragments of the SA before anything is
  decrypted: no key is needed.
\<close>

theorem fragments_dropped_unauthenticated:
  assumes "msg_sa s = Some sa" "frag_arr (sa_fragments sa) \<noteq> None"
    "length ids = 16" "length vers = 7" "IKED_FRAG_TOTAL_MAX < tot" "tot < 65536" "length num = 2"
    "msg_data s = ids @ [53] @ vers @ [0, 0, 0, 36] @ [np, 0, 0, 8] @ num @ be_bytes 2 tot"
  shows "\<exists>r s'. ikev2_pld_parse cf 0 s = Some (r, s') \<and> msg_sa s' = Some (sa\<lparr>sa_fragments := no_frags\<rparr>)"
proof -
  let ?d = "msg_data s"
  have hdr: "mem_read ?d 0 28 = Some (ids @ [53] @ vers @ [0, 0, 0, 36])"
    "mem_read ?d 28 4 = Some [np, 0, 0, 8]" "mem_read ?d 32 4 = Some (num @ be_bytes 2 tot)" "length ?d = 36"
    using assms(3,4,7) by (simp_all add: mem_read_def assms(8))
  have pld: "ikev2_validate_pld ?d 28 8 = Some (Some (np, 0, 8))"
    using hdr(2) by (simp add: ikev2_validate_pld_def be_val_def)
  have ef: "ikev2_validate_ef ?d 32 4 = Some (Some (num @ be_bytes 2 tot))"
    using hdr(3) by (simp add: ikev2_validate_ef_def ikev2_validate_hdr_def)
  have "ikev2_pld_ef cf ?d np 32 4 s = Some (frag_dropall (sa_fragments sa) (s\<lparr>ikes_frag_rcvd := ikes_frag_rcvd s + 1\<rparr>))"
    using assms(1,5,6,7) ef by (simp add: ikev2_pld_ef_def be_val_be_bytes)
  then have "ikev2_pld_payload cf False ?d (ikev2_pld_e cf ?d) (ikev2_pld_ef cf ?d) 53 np 32 4 s =
      Some (frag_dropall (sa_fragments sa) (s\<lparr>ikes_frag_rcvd := ikes_frag_rcvd s + 1\<rparr>))"
    by (simp add: ikev2_pld_payload_def)
  then have "\<exists>r. ikev2_pld_payloads cf 28 36 53 s =
      Some (r, snd (frag_dropall (sa_fragments sa) (s\<lparr>ikes_frag_rcvd := ikes_frag_rcvd s + 1\<rparr>)))"
    using pld by (auto simp: ikev2_pld_payloads_def Let_def usub_def ikev2_pld_loop.simps[of _ _ _ 28] frag_dropall_def)
  moreover have "ikev2_pld_parse cf 0 s = ikev2_pld_payloads cf 28 36 53 s"
    using hdr(1,4) assms(3,4) by (simp add: ikev2_pld_parse_def nth_append be_val_def)
  ultimately show ?thesis
    using assms(1,2) by (auto simp: frag_dropall_def config_free_fragments_def)
qed

theorem fragments_dropped_unauthenticated_witness:
  "\<exists>r s'. ikev2_pld_parse toy_cfg 0 (toy_msg ((toy_sa False)\<lparr>sa_fragments := no_frags\<lparr>frag_arr := Some [None, None]\<rparr>\<rparr>)
      (replicate 16 1 @ [53] @ replicate 7 2 @ [0, 0, 0, 36] @ [0, 0, 0, 8] @ [0, 1] @ be_bytes 2 200)) = Some (r, s') \<and>
    msg_sa s' = Some ((toy_sa False)\<lparr>sa_fragments := no_frags\<rparr>)"
  using fragments_dropped_unauthenticated[of "toy_msg ((toy_sa False)\<lparr>sa_fragments := no_frags\<lparr>frag_arr := Some [None, None]\<rparr>\<rparr>)
      (replicate 16 1 @ [53] @ replicate 7 2 @ [0, 0, 0, 36] @ [0, 0, 0, 8] @ [0, 1] @ be_bytes 2 200)"
      _ "replicate 16 1" "replicate 7 2" 200 "[0, 1]" 0 toy_cfg]
  by simp

end
