(* ===== verification/Ikesend.thy ===== *)
theory Ikesend
  imports Pld_Auth
begin

unbundle bit_operations_syntax

section \<open>Sending, retransmission and the message window: iked/ikev2_msg.c, iked/ikev2.c\<close>

text \<open>
  The state is the daemon's tables (\<open>iked\<close>), the datagrams handed to the network so far, the outcomes
  of the allocations and of \<^verbatim>\<open>sendtofrom\<close> (0, or the value of \<^verbatim>\<open>errno\<close>), and the counters these
  functions maintain.  The SA of a message is given by its address.  The buffer of a message comes
  from \<^verbatim>\<open>ibuf_static\<close>: it is allocated once with its full size, so the pointers into it stay valid.
\<close>

record sendst =
  sn_env :: iked
  sn_wire :: "(sockaddr \<times> sockaddr \<times> byte list) list"
  sn_alloc :: "bool list"
  sn_errno :: "nat list"
  ikes_msg_sent :: u64
  ikes_msg_send_failures :: u64
  ikes_frag_sent :: u64
  ikes_frag_send_failures :: u64
  ikes_retransmit_request :: u64
  ikes_retransmit_response :: u64
  ikes_retransmit_limit :: u64
  ikes_msg_rcvd_dropped :: u64
  ikes_msg_rcvd_busy :: u64

abbreviation (input) EADDRNOTAVAIL :: nat where "EADDRNOTAVAIL \<equiv> 99"

abbreviation (input) IKEV2_FLAG_RESPONSE :: byte where "IKEV2_FLAG_RESPONSE \<equiv> 0x20"

abbreviation (input) IKED_RETRANSMIT_TIMEOUT :: nat where "IKED_RETRANSMIT_TIMEOUT \<equiv> 2"

abbreviation (input) IKED_RESPONSE_TIMEOUT :: nat where "IKED_RESPONSE_TIMEOUT \<equiv> 120"

abbreviation (input) IKED_RETRANSMIT_TRIES :: nat where "IKED_RETRANSMIT_TRIES \<equiv> 5"

definition take_ok :: "sendst \<Rightarrow> bool \<times> sendst" where
  "take_ok st = (let (ok, al) = next_ok (sn_alloc st) in (ok, st\<lparr>sn_alloc := al\<rparr>))"

fun next_errno :: "nat list \<Rightarrow> nat \<times> nat list" where
  "next_errno [] = (0, [])"
| "next_errno (e # es) = (e, es)"

definition sendtofrom :: "sockaddr \<Rightarrow> sockaddr \<Rightarrow> byte list \<Rightarrow> sendst \<Rightarrow> nat \<times> sendst" where
  "sendtofrom peer local buf st =
     (let (e, es) = next_errno (sn_errno st);
          st = st\<lparr>sn_errno := es\<rparr>
      in (e, if e = 0 then st\<lparr>sn_wire := sn_wire st @ [(peer, local, buf)]\<rparr> else st))"

definition set_sa :: "nat \<Rightarrow> iked_sa \<Rightarrow> sendst \<Rightarrow> sendst" where
  "set_sa a sa st = st\<lparr>sn_env := put_sa a sa (sn_env st)\<rparr>"

subsection \<open>The retransmission queues\<close>

text \<open>An entry is denoted by its position.  The first fragment of an entry is dereferenced unconditionally.\<close>

fun ikev2_msg_lookup :: "iked_msg_retransmit list \<Rightarrow> u32 \<Rightarrow> byte \<Rightarrow> nat option option" where
  "ikev2_msg_lookup [] msgid exchange = Some None"
| "ikev2_msg_lookup (mr # queue) msgid exchange =
     (case mrt_frags mr of
        [] \<Rightarrow> None
      | m # _ \<Rightarrow>
          if om_msgid m = msgid \<and> om_exchange m = exchange then Some (Some 0)
          else map_option (map_option Suc) (ikev2_msg_lookup queue msgid exchange))"

definition ikev2_msg_enqueue ::
    "iked_msg_retransmit list \<Rightarrow> iked_outmsg \<Rightarrow> nat \<Rightarrow> sendst \<Rightarrow> (iked_msg_retransmit list option \<times> sendst) option" where
  "ikev2_msg_enqueue queue msg timeout st = do {
     r \<leftarrow> ikev2_msg_lookup queue (om_msgid msg) (om_exchange msg);
     (case r of
        None \<Rightarrow>
          (let (ok, st) = take_ok st in
           Some (if \<not> ok then None else Some (queue @ [\<lparr>mrt_frags = [msg], mrt_timer = timeout, mrt_tries = 0\<rparr>]), st))
      | Some i \<Rightarrow>
          Some (Some (queue[i := (queue ! i)\<lparr>mrt_frags := mrt_frags (queue ! i) @ [msg]\<rparr>]), st)) }"

definition ikev2_msg_dispose :: "iked_msg_retransmit list \<Rightarrow> nat \<Rightarrow> iked_msg_retransmit list" where
  "ikev2_msg_dispose queue i = take i queue @ drop (Suc i) queue"

fun ikev2_msg_prevail :: "iked_msg_retransmit list \<Rightarrow> u32 \<Rightarrow> iked_msg_retransmit list option" where
  "ikev2_msg_prevail [] msgid = Some []"
| "ikev2_msg_prevail (mr # queue) msgid =
     (case mrt_frags mr of
        [] \<Rightarrow> None
      | m # _ \<Rightarrow> do {
          q \<leftarrow> ikev2_msg_prevail queue msgid;
          Some (if om_msgid m < msgid then q else mr # q) })"

subsection \<open>Sending a message\<close>

text \<open>The copy for the queue: a structure, its buffer, and the data if they fit.\<close>

definition ikev2_msg_copy :: "iked_outmsg \<Rightarrow> sendst \<Rightarrow> iked_outmsg option \<times> sendst" where
  "ikev2_msg_copy msg st =
     (let (ok, st) = take_ok st in
      if \<not> ok then (None, st)
      else
        (let (ok, st) = take_ok st in
         (if \<not> ok \<or> IKED_MSGBUF_MAX < length (om_data msg) then None
          else Some (msg\<lparr>om_natt := False, om_exchange := 0\<rparr>), st)))"

text \<open>The message with the marker that distinguishes it from ESP when NAT traversal is in use.\<close>

definition natt_marker :: "bool \<Rightarrow> byte list \<Rightarrow> sendst \<Rightarrow> byte list option \<times> sendst" where
  "natt_marker isnatt buf st =
     (if \<not> isnatt then (Some buf, st)
      else
        (let (ok, st) = take_ok st in
         if \<not> ok then (None, st)
         else (let (ok, st) = take_ok st in (buf_add ok [0, 0, 0, 0] buf, st))))"

text \<open>The queue a sent message is kept in; \<open>None\<close> when there is no memory for it.\<close>

definition keep_message :: "nat \<Rightarrow> bool \<Rightarrow> iked_outmsg \<Rightarrow> sendst \<Rightarrow> (int \<times> sendst) option" where
  "keep_message a response m st = do {
     sa \<leftarrow> sa_heap (sn_env st) a;
     if response then do {
       (q, st) \<leftarrow> ikev2_msg_enqueue (sa_responses sa) m IKED_RESPONSE_TIMEOUT st;
       Some (case q of None \<Rightarrow> (- 1, st) | Some q \<Rightarrow> (0, set_sa a (sa\<lparr>sa_responses := q\<rparr>) st)) }
     else do {
       (q, st) \<leftarrow> ikev2_msg_enqueue (sa_requests sa) m IKED_RETRANSMIT_TIMEOUT st;
       Some (case q of None \<Rightarrow> (- 1, st) | Some q \<Rightarrow> (0, set_sa a (sa\<lparr>sa_requests := q\<rparr>) st)) } }"

definition ikev2_msg_send :: "nat option \<Rightarrow> iked_outmsg \<Rightarrow> sendst \<Rightarrow> (int \<times> sendst) option" where
  "ikev2_msg_send ao msg st =
     (case mem_read (om_data msg) 0 IKE_HDR_SIZE of
        None \<Rightarrow> Some (- 1, st)
      | Some hdr \<Rightarrow> do {
          isnatt \<leftarrow> (case ao of None \<Rightarrow> Some (om_natt msg)
                     | Some a \<Rightarrow> map_option (\<lambda>sa. om_natt msg \<or> sa_natt sa) (sa_heap (sn_env st) a));
          (case natt_marker isnatt (om_data msg) st of
             (None, st) \<Rightarrow> Some (- 1, st)
           | (Some buf, st) \<Rightarrow> do {
               let msg = msg\<lparr>om_data := buf\<rparr>;
               let (e, st) = sendtofrom (om_peer msg) (om_local msg) buf st;
               st \<leftarrow> (if e = 0 then Some (st\<lparr>ikes_msg_sent := ikes_msg_sent st + 1\<rparr>)
                      else do {
                        env \<leftarrow> (case ao of
                                  Some a \<Rightarrow> if e = EADDRNOTAVAIL then sa_state (sn_env st) a IKEV2_STATE_CLOSING
                                            else Some (sn_env st)
                                | None \<Rightarrow> Some (sn_env st));
                        Some (st\<lparr>sn_env := env, ikes_msg_send_failures := ikes_msg_send_failures st + 1\<rparr>) });
               (case ao of
                  None \<Rightarrow> Some (0, st)
                | Some a \<Rightarrow>
                    (case ikev2_msg_copy msg st of
                       (None, st) \<Rightarrow> Some (- 1, st)
                     | (Some m, st) \<Rightarrow>
                         keep_message a (hdr ! 19 AND IKEV2_FLAG_RESPONSE \<noteq> 0) (m\<lparr>om_exchange := hdr ! 18\<rparr>) st)) }) })"

definition ikev2_msg_id :: "iked_sa \<Rightarrow> u32 \<times> iked_sa" where
  "ikev2_msg_id sa = (sa_reqid sa, sa\<lparr>sa_reqid := sa_reqid sa + 1\<rparr>)"

subsection \<open>Headers\<close>

definition ikev2_add_header :: "byte list \<Rightarrow> iked_sa \<Rightarrow> u32 \<Rightarrow> byte \<Rightarrow> byte \<Rightarrow> byte \<Rightarrow> byte list option" where
  "ikev2_add_header buf sa msgid nextpayload exchange flags =
     buf_add True buf
       (be_bytes 8 (unat (sh_ispi sa)) @ be_bytes 8 (unat (sh_rspi sa)) @
        [nextpayload, 0x20, exchange, if sh_initiator sa then flags OR IKEV2_FLAG_INITIATOR else flags] @
        be_bytes 4 (unat msgid) @ be_bytes 4 IKE_HDR_SIZE)"

text \<open>
  The functions that fill in lengths work on the header at the start of the buffer and on the payload
  header at \<open>pld\<close>; the inner \<open>None\<close> is their return value \<open>-1\<close>.
\<close>

definition ikev2_set_header :: "byte list \<Rightarrow> nat \<Rightarrow> byte list option option" where
  "ikev2_set_header buf len =
     (let hdrlength = of_nat (IKE_HDR_SIZE + len) :: u32 in
      if 4294967295 < unat hdrlength then Some None
      else map_option Some (mem_write buf 24 (be_bytes 4 (unat hdrlength))))"

definition ikev2_add_payload :: "byte list \<Rightarrow> byte list option" where
  "ikev2_add_payload buf = buf_add True buf ([0, 0] @ le_bytes 2 4)"

definition ikev2_next_payload :: "byte list \<Rightarrow> nat \<Rightarrow> nat \<Rightarrow> byte \<Rightarrow> byte list option option" where
  "ikev2_next_payload buf pld len nextpayload =
     (if 65535 < 4 + len then Some None
      else do {
        buf \<leftarrow> mem_write buf (pld + 2) (be_bytes 2 (4 + len));
        map_option Some (mem_write buf pld [nextpayload]) })"

definition ikev2_msg_encrypt_prepare ::
    "iked_sa option \<Rightarrow> byte list \<Rightarrow> nat \<Rightarrow> nat \<Rightarrow> byte \<Rightarrow> bool \<Rightarrow> byte list option option" where
  "ikev2_msg_encrypt_prepare sao buf pld len firstpayload fragmentation =
     (case sao of
        None \<Rightarrow> Some None
      | Some sa \<Rightarrow>
          (case (sa_encr sa, sa_integr sa) of
             (Some encr, Some hash) \<Rightarrow>
               if cipher_length encr = 0 then None
               else
                 (let encrlen = roundup (len + 1) (cipher_length encr);
                      pldlen = cipher_ivlength encr + cipher_outlength encr encrlen + hash_length hash
                  in do {
                    b \<leftarrow> ikev2_next_payload buf pld (pldlen + (if fragmentation then 4 else 0)) firstpayload;
                    (case b of
                       None \<Rightarrow> Some None
                     | Some buf \<Rightarrow> ikev2_set_header buf (length buf + pldlen - IKE_HDR_SIZE)) })
           | _ \<Rightarrow> Some None))"

subsection \<open>Encrypted messages\<close>

text \<open>
  The steps that follow the headers: the final sizes, encryption of the payload \<open>e\<close> with the headers as
  associated data, and the checksum over the whole.
\<close>

definition protect ::
    "evp \<Rightarrow> (nat \<Rightarrow> nat \<Rightarrow> byte) \<Rightarrow> bool list \<Rightarrow> iked_sa \<Rightarrow> byte list \<Rightarrow> nat \<Rightarrow> byte list \<Rightarrow> byte \<Rightarrow> bool \<Rightarrow>
     (byte list option \<times> iked_sa \<times> bool list) option" where
  "protect ev rnd al sa buf pld e firstpayload fragmentation = do {
     b \<leftarrow> ikev2_msg_encrypt_prepare (Some sa) buf pld (length e) firstpayload fragmentation;
     (case b of
        None \<Rightarrow> Some (None, sa, al)
      | Some buf \<Rightarrow> do {
          (e, sao, al) \<leftarrow> ikev2_msg_encrypt ev rnd al (Some sa) e buf;
          sa \<leftarrow> sao;
          (case e of
             None \<Rightarrow> Some (None, sa, al)
           | Some e \<Rightarrow>
               (case buf_add True buf e of
                  None \<Rightarrow> Some (None, sa, al)
                | Some buf \<Rightarrow> do {
                    (r, sao, al) \<leftarrow> ikev2_msg_integr ev al (Some sa) buf;
                    sa \<leftarrow> sao;
                    Some (r, sa, al) })) }) }"

text \<open>The message structure that \<^verbatim>\<open>ikev2_msg_init\<close> clears, and the state in which a message is parsed.\<close>

definition zero_msg :: "sockaddr \<Rightarrow> sockaddr \<Rightarrow> bool \<Rightarrow> iked_policy option \<Rightarrow> iked_sa option \<Rightarrow> byte list \<Rightarrow> bool list \<Rightarrow> pstate" where
  "zero_msg peer local response pol sao data al =
     \<lparr>msg_data = data, msg_local = local, msg_peer = peer, msg_response = response, msg_natt_rcvd = False,
      msg_nat_detected = 0, msg_policy = pol, msg_sa = sao, msg_proposals = [], msg_certreqs = [],
      msg_rekey = \<lparr>spi = 0, spi_size = 0, spi_protoid = 0\<rparr>, msg_nonce = None, msg_dhgroup = 0, msg_ke = None,
      msg_auth = no_id, msg_peerid = no_id, msg_localid = no_id, msg_cert = no_id, msg_scert = replicate 3 no_id,
      msg_cookie = None, msg_group = 0, msg_cpi = 0, msg_transform = 0, msg_flags = 0,
      msg_eap = \<lparr>eam_identity = None, eam_user = None, eam_type = 0, eam_id = 0, eam_msrid = 0, eam_success = False,
        eam_found = False, eam_response = False, eam_challenge = replicate 16 0, eam_ntresponse = replicate 24 0, eam_state = 0\<rparr>,
      msg_del_spisize = 0, msg_del_cnt = 0, msg_del_buf = None, msg_del_protoid = 0, msg_cp = 0, msg_cp_addr = None,
      msg_cp_addr6 = None, msg_cp_dns = None, msg_frag_num = 0, msg_update_sa_addresses = False, msg_cookie2 = NullBuf,
      msg_prop = None, ps_alloc = al, ikes_frag_rcvd = 0, ikes_frag_rcvd_drop = 0, ikes_frag_reass_ok = 0,
      ikes_frag_reass_drop = 0\<rparr>"

definition ikev2_msg_init :: "iked_sa \<Rightarrow> u32 \<Rightarrow> bool \<Rightarrow> iked_outmsg" where
  "ikev2_msg_init sa msgid response =
     \<lparr>om_data = [], om_natt = False, om_msgid = msgid, om_exchange = 0, om_response = response,
      om_peer = addr (sa_peer sa), om_local = addr (sa_local sa)\<rparr>"

text \<open>A request takes the next identifier of the SA, a response that of the request.\<close>

definition message_id :: "bool \<Rightarrow> iked_sa \<Rightarrow> u32 \<times> iked_sa" where
  "message_id response sa = (if response then (sa_msgid_current sa, sa) else ikev2_msg_id sa)"

text \<open>The headers of a message: that of the message, of the payload and, for a fragment, its number.\<close>

definition message_headers :: "iked_sa \<Rightarrow> u32 \<Rightarrow> byte \<Rightarrow> bool \<Rightarrow> (nat \<times> nat) option \<Rightarrow> byte list option" where
  "message_headers sa msgid exchange response frag = do {
     buf \<leftarrow> ikev2_add_header [] sa msgid (if frag = None then IKEV2_PAYLOAD_SK else IKEV2_PAYLOAD_SKF) exchange
       (if response then IKEV2_FLAG_RESPONSE else 0);
     buf \<leftarrow> ikev2_add_payload buf;
     (case frag of
        None \<Rightarrow> Some buf
      | Some (num, tot) \<Rightarrow> buf_add True buf (be_bytes 2 num @ be_bytes 2 tot)) }"

text \<open>One round of the loop of \<^verbatim>\<open>ikev2_send_encrypted_fragments\<close>: fragment \<open>num\<close> of \<open>tot\<close> with the payload \<open>d\<close>.\<close>

definition send_fragment ::
    "evp \<Rightarrow> (nat \<Rightarrow> nat \<Rightarrow> byte) \<Rightarrow> nat \<Rightarrow> u32 \<Rightarrow> byte \<Rightarrow> byte \<Rightarrow> bool \<Rightarrow> nat \<Rightarrow> nat \<Rightarrow> byte list \<Rightarrow> sendst \<Rightarrow>
     (bool \<times> sendst) option" where
  "send_fragment ev rnd a msgid exchange firstpayload response num tot d st = do {
     sa \<leftarrow> sa_heap (sn_env st) a;
     let (ok, st) = take_ok st;
     if \<not> ok then Some (False, st)
     else
       (case message_headers sa msgid exchange response (Some (num, tot)) of
          None \<Rightarrow> Some (False, st)
        | Some buf \<Rightarrow>
            (let (ok, st) = take_ok st in
             case buf_new ok d of
               None \<Rightarrow> Some (False, st)
             | Some e \<Rightarrow> do {
                 (r, sa, al) \<leftarrow> protect ev rnd (sn_alloc st) sa buf IKE_HDR_SIZE e firstpayload True;
                 let st = set_sa a sa (st\<lparr>sn_alloc := al\<rparr>);
                 (case r of
                    None \<Rightarrow> Some (False, st)
                  | Some buf \<Rightarrow> do {
                      (n, st) \<leftarrow> ikev2_msg_send (Some a) ((ikev2_msg_init sa msgid response)\<lparr>om_data := buf\<rparr>) st;
                      Some (n \<noteq> - 1, if n = - 1 then st else st\<lparr>ikes_frag_sent := ikes_frag_sent st + 1\<rparr>) }) })) }"

text \<open>The loop, with the number of fragments that are left as the bound; the first payload is named once.\<close>

fun send_fragments ::
    "evp \<Rightarrow> (nat \<Rightarrow> nat \<Rightarrow> nat \<Rightarrow> byte) \<Rightarrow> nat \<Rightarrow> u32 \<Rightarrow> byte \<Rightarrow> byte \<Rightarrow> bool \<Rightarrow> nat \<Rightarrow> nat \<Rightarrow> nat \<Rightarrow> byte list \<Rightarrow> nat \<Rightarrow>
     sendst \<Rightarrow> (bool \<times> sendst) option" where
  "send_fragments ev rnd a msgid exchange firstpayload response max_len tot num d 0 st = Some (True, st)"
| "send_fragments ev rnd a msgid exchange firstpayload response max_len tot num d (Suc n) st = do {
     (ok, st) \<leftarrow> send_fragment ev (rnd num) a msgid exchange firstpayload response num tot (take max_len d) st;
     if \<not> ok then Some (False, st)
     else send_fragments ev rnd a msgid exchange 0 response max_len tot (num + 1) (drop max_len d) n st }"

definition ikev2_send_encrypted_fragments ::
    "evp \<Rightarrow> (nat \<Rightarrow> nat \<Rightarrow> nat \<Rightarrow> byte) \<Rightarrow> nat \<Rightarrow> byte list \<Rightarrow> byte \<Rightarrow> byte \<Rightarrow> bool \<Rightarrow> sendst \<Rightarrow> (int \<times> sendst) option" where
  "ikev2_send_encrypted_fragments ev rnd a d exchange firstpayload response st = do {
     sa \<leftarrow> sa_heap (sn_env st) a;
     (case (sa_encr sa, sa_integr sa) of
        (Some encr, Some hash) \<Rightarrow>
          (let max_len = usub (usub (usub (frag_maxlen sa) (cipher_ivlength encr)) (cipher_length encr)) (hash_length hash) in
           if max_len = 0 then None
           else
             (let frag_total = length d div max_len + 1;
                  (msgid, sa) = message_id response sa
              in do {
                (ok, st) \<leftarrow> send_fragments ev rnd a msgid exchange firstpayload response max_len frag_total 1 d frag_total
                  (set_sa a sa st);
                Some (if ok then (0, st) else (- 1, st\<lparr>ikes_frag_send_failures := ikes_frag_send_failures st + 1\<rparr>)) }))
      | _ \<Rightarrow> Some (- 1, st\<lparr>ikes_frag_send_failures := ikes_frag_send_failures st + 1\<rparr>)) }"

text \<open>
  A message that fits is parsed after it was protected, as a received one would be.  The parser gets
  the SA of the message and may change it.
\<close>

definition ikev2_msg_send_encrypt ::
    "pcfg \<Rightarrow> (nat \<Rightarrow> nat \<Rightarrow> nat \<Rightarrow> byte) \<Rightarrow> nat \<Rightarrow> byte list \<Rightarrow> byte \<Rightarrow> byte \<Rightarrow> bool \<Rightarrow> sendst \<Rightarrow> (int \<times> sendst) option" where
  "ikev2_msg_send_encrypt cf rnd a e exchange firstpayload response st = do {
     sa \<leftarrow> sa_heap (sn_env st) a;
     if ikev2_check_frag_oversize (Some sa) (length e)
     then ikev2_send_encrypted_fragments (pc_evp cf) rnd a e exchange firstpayload response st
     else do {
       let (ok, st) = take_ok st;
       if \<not> ok then Some (- 1, st)
       else do {
         let (msgid, sa) = message_id response sa;
         let st = set_sa a sa st;
         (case message_headers sa msgid exchange response None of
            None \<Rightarrow> Some (- 1, st)
          | Some buf \<Rightarrow> do {
              (r, sa, al) \<leftarrow> protect (pc_evp cf) (rnd 0) (sn_alloc st) sa buf IKE_HDR_SIZE e firstpayload False;
              let st = set_sa a sa (st\<lparr>sn_alloc := al\<rparr>);
              (case r of
                 None \<Rightarrow> Some (- 1, st)
               | Some buf \<Rightarrow> do {
                   let msg = (ikev2_msg_init sa msgid response)\<lparr>om_data := buf\<rparr>;
                   (_, ps) \<leftarrow> ikev2_pld_parse cf 0
                     (zero_msg (om_peer msg) (om_local msg) response None (Some sa) buf (sn_alloc st));
                   sa \<leftarrow> msg_sa ps;
                   ikev2_msg_send (Some a) msg (set_sa a sa (st\<lparr>sn_alloc := ps_alloc ps\<rparr>)) }) }) } } }"

subsection \<open>Retransmission\<close>

text \<open>The loop over the fragments of an entry; the Boolean is false when sending one fails.\<close>

fun resend :: "iked_outmsg list \<Rightarrow> sendst \<Rightarrow> bool \<times> sendst" where
  "resend [] st = (True, st)"
| "resend (m # ms) st =
     (let (e, st) = sendtofrom (om_peer m) (om_local m) (om_data m) st in
      if e \<noteq> 0 then (False, st\<lparr>ikes_msg_send_failures := ikes_msg_send_failures st + 1\<rparr>) else resend ms st)"

text \<open>The response to a request that was answered before, of the exchange and first payload of its header: 0, \<open>-1\<close>, or \<open>-2\<close> when there is none.\<close>

definition ikev2_msg_retransmit_response ::
    "nat \<Rightarrow> u32 \<Rightarrow> byte \<Rightarrow> byte \<Rightarrow> pstate \<Rightarrow> sendst \<Rightarrow> (int \<times> sendst) option" where
  "ikev2_msg_retransmit_response a msgid exchange nextpayload msg st = do {
     sa \<leftarrow> sa_heap (sn_env st) a;
     r \<leftarrow> ikev2_msg_lookup (sa_responses sa) msgid exchange;
     (case r of
        None \<Rightarrow> Some (- 2, st)
      | Some i \<Rightarrow> do {
          first \<leftarrow> (if nextpayload = IKEV2_PAYLOAD_SKF
                    then map_option (\<lambda>(q, m). q = 0 \<and> msg_frag_num m = 1) (ikev2_pld_parse_quick 0 msg)
                    else Some True);
          if \<not> first then Some (0, st)
          else
            (let (ok, st) = resend (mrt_frags (sa_responses sa ! i)) st in
             if \<not> ok then Some (- 1, st)
             else
               (let q = (sa_responses sa)[i := (sa_responses sa ! i)\<lparr>mrt_timer := IKED_RESPONSE_TIMEOUT\<rparr>]
                in Some (0, set_sa a (sa\<lparr>sa_responses := q\<rparr>)
                     (st\<lparr>ikes_retransmit_response := ikes_retransmit_response st + 1\<rparr>)))) }) }"

text \<open>The timers of the entry at position \<open>i\<close>.\<close>

definition ikev2_msg_response_timeout :: "nat \<Rightarrow> nat \<Rightarrow> sendst \<Rightarrow> sendst option" where
  "ikev2_msg_response_timeout a i st = do {
     sa \<leftarrow> sa_heap (sn_env st) a;
     if length (sa_responses sa) \<le> i \<or> mrt_frags (sa_responses sa ! i) = [] then None
     else Some (set_sa a (sa\<lparr>sa_responses := ikev2_msg_dispose (sa_responses sa) i\<rparr>) st) }"

definition ikev2_msg_retransmit_timeout :: "nat \<Rightarrow> nat \<Rightarrow> sendst \<Rightarrow> sendst option" where
  "ikev2_msg_retransmit_timeout a i st = do {
     sa \<leftarrow> sa_heap (sn_env st) a;
     if length (sa_requests sa) \<le> i \<or> mrt_frags (sa_requests sa ! i) = [] then None
     else
       (let mr = sa_requests sa ! i in
        if mrt_tries mr < IKED_RETRANSMIT_TRIES then
          (let (ok, st) = resend (mrt_frags mr) st in
           if \<not> ok then map_option (\<lambda>env. st\<lparr>sn_env := env\<rparr>) (sa_free (sn_env st) a)
           else
             (let mr = mr\<lparr>mrt_timer := IKED_RETRANSMIT_TIMEOUT * (2 * 2 ^ mrt_tries mr), mrt_tries := mrt_tries mr + 1\<rparr>
              in Some (set_sa a (sa\<lparr>sa_requests := (sa_requests sa)[i := mr]\<rparr>)
                   (st\<lparr>ikes_retransmit_request := ikes_retransmit_request st + 1\<rparr>))))
        else
          (let st = st\<lparr>ikes_retransmit_limit := ikes_retransmit_limit st + 1\<rparr>
           in map_option (\<lambda>env. st\<lparr>sn_env := env\<rparr>) (sa_free (sn_env st) a))) }"


subsection \<open>Reception of a datagram\<close>

text \<open>
  The part of \<^verbatim>\<open>ikev2_msg_cb\<close> after the system call: whether NAT traversal is in use and the message for
  \<^verbatim>\<open>ikev2_recv\<close>, if there is one; a message of version 1 of the protocol is only logged.
\<close>

abbreviation (input) IKEV1_VERSION :: byte where "IKEV1_VERSION \<equiv> 0x10"

definition ikev2_msg_cb :: "nat \<Rightarrow> nat \<Rightarrow> bool \<Rightarrow> byte list \<Rightarrow> (bool \<times> byte list) option" where
  "ikev2_msg_cb nattport port ok buf =
     (if length buf < 4 then None
      else
        (let natt = (port = nattport);
             off = (if natt then 4 else 0) in
         if natt \<and> take 4 buf \<noteq> [0, 0, 0, 0] then None
         else if length buf - off \<le> IKE_HDR_SIZE then None
         else
           (case buf_new ok (drop off buf) of
              None \<Rightarrow> None
            | Some data \<Rightarrow> if data ! 17 = IKEV1_VERSION then None else Some (natt, data))))"

end
