(* ===== verification/Delivery.thy ===== *)
theory Delivery
  imports Ikesend "HOL-Library.Multiset"
begin

unbundle bit_operations_syntax

section \<open>From one end of an SA to the other\<close>

text \<open>
  The sender of \<open>Ikesend\<close> and the parser of \<open>Pld\<close> together: what \<^verbatim>\<open>ikev2_msg_send_encrypt\<close> puts on the wire,
  in one message or in fragments, is parsed by the other end as the payload that was sent, whatever the
  order in which the datagrams arrive.
\<close>

subsection \<open>The headers of a message\<close>

definition frag_header :: "(nat \<times> nat) option \<Rightarrow> byte list" where
  "frag_header frag = (case frag of None \<Rightarrow> [] | Some (num, tot) \<Rightarrow> be_bytes 2 num @ be_bytes 2 tot)"

definition header_start :: "iked_sa \<Rightarrow> u32 \<Rightarrow> byte \<Rightarrow> bool \<Rightarrow> (nat \<times> nat) option \<Rightarrow> byte list" where
  "header_start sa msgid exchange response frag =
     be_bytes 8 (unat (sh_ispi sa)) @ be_bytes 8 (unat (sh_rspi sa)) @
     [if frag = None then IKEV2_PAYLOAD_SK else IKEV2_PAYLOAD_SKF, 0x20, exchange,
      (if response then IKEV2_FLAG_RESPONSE else 0) OR (if sh_initiator sa then IKEV2_FLAG_INITIATOR else 0)] @
     be_bytes 4 (unat msgid)"

text \<open>The headers in front of \<open>n\<close> bytes of ciphertext, as they are sent.\<close>

definition sent_header :: "iked_sa \<Rightarrow> u32 \<Rightarrow> byte \<Rightarrow> bool \<Rightarrow> (nat \<times> nat) option \<Rightarrow> byte \<Rightarrow> nat \<Rightarrow> byte list" where
  "sent_header sa msgid exchange response frag np n =
     header_start sa msgid exchange response frag @ be_bytes 4 (32 + length (frag_header frag) + n) @
     [np, 0] @ be_bytes 2 (4 + length (frag_header frag) + n) @ frag_header frag"

lemma length_frag_header: "length (frag_header frag) = (if frag = None then 0 else 4)"
  by (auto simp: frag_header_def split: option.splits)

lemma length_header_start [simp]: "length (header_start sa msgid exchange response frag) = 24"
  by (simp add: header_start_def)

lemma length_sent_header [simp]:
  "length (sent_header sa msgid exchange response frag np n) = 32 + length (frag_header frag)"
  by (simp add: sent_header_def)

lemma message_headers_eq:
  "message_headers sa msgid exchange response frag =
     Some (header_start sa msgid exchange response frag @ be_bytes 4 28 @ [0, 0] @ le_bytes 2 4 @ frag_header frag)"
  by (auto simp: message_headers_def ikev2_add_header_def ikev2_add_payload_def buf_add_def header_start_def
      frag_header_def split: option.splits)

lemma mem_write_mid: "length xs = off \<Longrightarrow> length ds = length ys \<Longrightarrow> mem_write (xs @ ys @ zs) off ds = Some (xs @ ds @ zs)"
  by (simp add: mem_write_def)

lemma encrypt_prepare_ok:
  assumes sa: "sa_encr sa = Some encr" "sa_integr sa = Some hash" "0 < cipher_length encr"
    and n: "n = cipher_ivlength encr + roundup (len + 1) (cipher_length encr) + hash_length hash" "n \<le> 65000"
    and buf: "message_headers sa' msgid exchange response frag = Some buf"
  shows "ikev2_msg_encrypt_prepare (Some sa) buf IKE_HDR_SIZE len np (frag \<noteq> None) =
    Some (Some (sent_header sa' msgid exchange response frag np n))"
proof -
  let ?s = "header_start sa' msgid exchange response frag" and ?f = "frag_header frag"
  have out: "cipher_outlength encr (roundup (len + 1) (cipher_length encr)) = roundup (len + 1) (cipher_length encr)"
    using sa(3) roundup_id[of "encr_length encr" "roundup (len + 1) (encr_length encr)"]
    by (simp add: cipher_outlength_def cipher_length_def)
  have b: "buf = ?s @ be_bytes 4 28 @ [0, 0] @ le_bytes 2 4 @ ?f"
    using buf by (simp add: message_headers_eq)
  have w: "mem_write buf 30 (be_bytes 2 k) = Some (?s @ be_bytes 4 28 @ [0, 0] @ be_bytes 2 k @ ?f)" for k
    unfolding b using mem_write_mid[of "?s @ be_bytes 4 28 @ [0, 0]" 30 "be_bytes 2 k" "le_bytes 2 4" ?f] by simp
  have w': "mem_write (?s @ be_bytes 4 28 @ [0, 0] @ be_bytes 2 k @ ?f) 28 [np] =
      Some (?s @ be_bytes 4 28 @ [np, 0] @ be_bytes 2 k @ ?f)" for k
    using mem_write_mid[of "?s @ be_bytes 4 28" 28 "[np]" "[0]" "[0] @ be_bytes 2 k @ ?f"] by simp
  have w'': "mem_write (?s @ be_bytes 4 28 @ [np, 0] @ be_bytes 2 k @ ?f) 24 (be_bytes 4 l) =
      Some (?s @ be_bytes 4 l @ [np, 0] @ be_bytes 2 k @ ?f)" for k l
    using mem_write_mid[of ?s 24 "be_bytes 4 l" "be_bytes 4 28" "[np, 0] @ be_bytes 2 k @ ?f"] by simp
  have np: "ikev2_next_payload buf IKE_HDR_SIZE (n + length ?f) np =
      Some (Some (?s @ be_bytes 4 28 @ [np, 0] @ be_bytes 2 (4 + length ?f + n) @ ?f))"
    using n(2) w w' length_frag_header[of frag] by (auto simp: ikev2_next_payload_def add_ac)
  have un: "unat (word_of_nat (32 + length ?f + n) :: u32) = 32 + length ?f + n"
    unfolding unsigned_of_nat of_nat_id using n(2) length_frag_header[of frag] by (intro take_bit_nat_eq_self) (auto split: if_splits)
  have hd: "ikev2_set_header (?s @ be_bytes 4 28 @ [np, 0] @ be_bytes 2 (4 + length ?f + n) @ ?f) (4 + length ?f + n) =
      Some (Some (sent_header sa' msgid exchange response frag np n))"
    unfolding ikev2_set_header_def Let_def using w'' un n(2) length_frag_header[of frag]
    by (auto simp: sent_header_def add_ac)
  have l: "(if frag \<noteq> None then 4 else 0) = length ?f"
    by (simp add: length_frag_header)
  show ?thesis
    unfolding ikev2_msg_encrypt_prepare_def option.case sa prod.case Let_def out n(1)[symmetric] l
    using np hd sa(3) by (simp add: add_ac)
qed

subsection \<open>Protection\<close>

text \<open>The ciphertext \<open>body\<close> of the message \<open>m\<close> is the payload \<open>d\<close> for the other end of the SA.\<close>

definition sealed_for :: "evp \<Rightarrow> iked_sa \<Rightarrow> byte list \<Rightarrow> byte list \<Rightarrow> byte list \<Rightarrow> bool" where
  "sealed_for ev sa m body d \<longleftrightarrow> (\<forall>sa' rnd v. sa_crypto_ok ev sa' \<and> sa_peers sa sa' \<longrightarrow>
     (\<exists>sa''. ikev2_msg_decrypt ev rnd v [] (Some sa') m body = Some (Some d, Some sa'', []) \<and> sa_static sa' sa''))"

definition body_length :: "iked_sa \<Rightarrow> nat \<Rightarrow> nat" where
  "body_length sa len =
     (case (sa_encr sa, sa_integr sa) of
        (Some encr, Some hash) \<Rightarrow>
          cipher_ivlength encr + roundup (len + 1) (cipher_length encr) + hash_length hash
      | _ \<Rightarrow> 0)"

lemma sa_static_trans:
  assumes "sa_static sa sa1" "sa_static sa1 sa2"
  shows "sa_static sa sa2"
proof -
  have h: "hash_static h h''" if "hash_static h h'" "hash_static h' h''" for h h' h''
    using that by (cases h) (fastforce simp: hash_static_def)
  show ?thesis
    using assms unfolding sa_static_def
    by (cases sa; cases sa1; cases sa2) (auto simp: rel_option_iff elim: cipher_static_trans h split: option.splits)
qed

lemma cipher_sizes_le:
  assumes "evp_ok ev" "cipher_wf ev encr"
  shows "0 < cipher_length encr" "cipher_length encr \<le> 16" "cipher_ivlength encr \<le> 16"
  using cipher_length_pos[of ev encr] evp_iv_pos[of ev "encr_priv encr"] assms
  by (auto simp: evp_ok_def cipher_wf_def cipher_ivlength_def split: if_splits)

lemma body_length_le:
  assumes "evp_ok ev" "sa_crypto_ok ev sa"
  shows "body_length sa len \<le> len + 96"
proof (rule sa_crypto_okE[OF assms(2)])
  fix encr hash assume sae: "sa_encr sa = Some encr" "sa_integr sa = Some hash"
    and wf: "cipher_wf ev encr" "hash_wf hash"
  note bl = cipher_sizes_le[OF assms(1) wf(1)]
  show ?thesis
    using bl roundup_less[OF bl(1), of "len + 1"] hash_length_bounds[OF wf(2)] by (simp add: body_length_def sae)
qed

lemma protect_ok:
  assumes ev: "evp_ok ev" and sa: "sa_crypto_ok ev sa" and d: "length d + 132 \<le> IKED_MSGBUF_MAX"
    and buf: "message_headers sa' msgid exchange response frag = Some buf"
    and hdr: "hdr = sent_header sa' msgid exchange response frag np (body_length sa (length d))"
    and peer: "sa_crypto_ok ev px" "sa_peers sa px"
  obtains body sa2 where
    "protect ev rnd [] sa buf IKE_HDR_SIZE d np (frag \<noteq> None) = Some (Some (hdr @ body), sa2, [])"
    "sa_static sa sa2" "length body = body_length sa (length d)" "sealed_for ev sa (hdr @ body) body d"
proof (rule sa_crypto_okE[OF sa])
  fix encr hash assume sae: "sa_encr sa = Some encr" "sa_integr sa = Some hash" and wf: "cipher_wf ev encr" "hash_wf hash"
  have bl: "0 < cipher_length encr"
    using cipher_length_pos[of ev encr] ev wf(1) by (simp add: evp_ok_def)
  have n: "body_length sa (length d) \<le> length d + 96"
    by (rule body_length_le[OF ev sa])
  have prep: "ikev2_msg_encrypt_prepare (Some sa) buf IKE_HDR_SIZE (length d) np (frag \<noteq> None) = Some (Some hdr)"
    using encrypt_prepare_ok[OF sae bl _ _ buf, of "body_length sa (length d)" "length d" np] n d
    by (simp add: hdr body_length_def sae)
  have len: "length d + 96 \<le> IKED_MSGBUF_MAX"
    using d by simp
  obtain e sa1 body sa2 where
    enc: "ikev2_msg_encrypt ev rnd [] (Some sa) d hdr = Some (Some e, Some sa1, [])" "sa_static sa sa1"
    and int: "ikev2_msg_integr ev [] (Some sa1) (hdr @ e) = Some (Some (hdr @ body), Some sa2, [])" "sa_static sa1 sa2"
    and l: "length body = length e"
    and le: "\<And>encr hash. sa_encr sa = Some encr \<Longrightarrow> sa_integr sa = Some hash \<Longrightarrow>
       length e = cipher_ivlength encr + roundup (length d + 1) (cipher_length encr) + hash_length hash"
    by (rule msg_roundtrip[OF ev sa peer len, of rnd hdr]) blast
  note l = l le[OF sae]
  have "sealed_for ev sa (hdr @ body) body d"
    unfolding sealed_for_def
  proof (intro allI impI)
    fix sa' and rnd' :: "nat \<Rightarrow> byte" and v assume p: "sa_crypto_ok ev sa' \<and> sa_peers sa sa'"
    show "\<exists>sa''. ikev2_msg_decrypt ev rnd' v [] (Some sa') (hdr @ body) body = Some (Some d, Some sa'', []) \<and> sa_static sa' sa''"
      by (rule msg_roundtrip[OF ev sa conjunct1[OF p] conjunct2[OF p] len, of rnd hdr]) (use enc(1) int(1) in simp)
  qed
  moreover have "buf_add True hdr e = Some (hdr @ e)"
    using n d l sae length_frag_header[of frag] by (auto simp: buf_add_def hdr body_length_def)
  then have "protect ev rnd [] sa buf IKE_HDR_SIZE d np (frag \<noteq> None) = Some (Some (hdr @ body), sa2, [])"
    using prep enc(1) int(1) by (simp add: protect_def)
  moreover have "sa_static sa sa2"
    using enc(2) int(2) by (rule sa_static_trans)
  ultimately show ?thesis
    using that l sae by (simp add: body_length_def)
qed

subsection \<open>Reception\<close>

lemma loop_ret: "wlp (ikev2_pld_loop disp data len off tot payload s) (\<lambda>(r, s'). r = 0 \<or> r = - 1)"
proof (induction tot arbitrary: off payload s rule: less_induct)
  case (less tot)
  show ?case
    unfolding ikev2_pld_loop.simps[of disp data len off tot payload s]
    by (intro wlp_intros wlp_any[of "disp _ _ _ _ _"] wlp_any[of "ikev2_validate_pld _ _ _"] less
        | (auto simp: ikev2_validate_pld_def Let_def bind_Some_iff split: if_splits; fail))+
qed

lemma sent_header_nth:
  "(sent_header sa msgid exchange response frag np n @ body) ! 16 = (if frag = None then IKEV2_PAYLOAD_SK else IKEV2_PAYLOAD_SKF)"
  "(sent_header sa msgid exchange response frag np n @ body) ! 19 =
     (if response then IKEV2_FLAG_RESPONSE else 0) OR (if sh_initiator sa then IKEV2_FLAG_INITIATOR else 0)"
  "(sent_header sa msgid exchange response frag np n @ body) ! 18 = exchange"
  by (simp_all add: sent_header_def header_start_def nth_append)

lemma frompeer_sent:
  assumes "msg_sa s = Some sa'" "msg_data s = sent_header sa msgid exchange response frag np n @ body"
  shows "frompeer s \<longleftrightarrow> sh_initiator sa' \<noteq> sh_initiator sa"
proof -
  have f: "(((if b then IKEV2_FLAG_RESPONSE else 0) OR (if c then IKEV2_FLAG_INITIATOR else 0)) AND IKEV2_FLAG_INITIATOR \<noteq> 0) = c" for b c
    by simp
  have "mem_read (msg_data s) 0 IKE_HDR_SIZE = Some (take 28 (msg_data s))" "take 28 (msg_data s) ! 19 = msg_data s ! 19"
    using assms(2) by (simp_all add: mem_read_def nth_append)
  then show ?thesis
    using assms f sent_header_nth(2)[of sa msgid exchange response frag np n body]
    by (auto simp: frompeer_def ikev2_msg_frompeer_def Let_def)
qed

text \<open>A message with one encrypted payload: the parser hands it to the function for its kind.\<close>

lemma parse_sent:
  assumes s: "msg_data s = m" "m = sent_header sa msgid exchange response frag np (length body) @ body" "length body \<le> 65000"
  shows "ikev2_pld_parse cf 0 s = do {
      (r, s') \<leftarrow> (if frag = None then ikev2_pld_e cf m np 32 (length body) s
                   else ikev2_pld_ef cf m np 32 (4 + length body) s);
      Some (if r \<noteq> 0 \<and> frompeer s' then - 1 else 0, s') }"
proof -
  let ?f = "length (frag_header frag)"
  have len: "length m = 32 + ?f + length body" "?f = (if frag = None then 0 else 4)"
    using s(2) length_frag_header by simp_all
  have rd: "mem_read m 0 IKE_HDR_SIZE = Some (take 28 m)"
    using len by (simp add: mem_read_def)
  have "drop 24 (take 28 m) = be_bytes 4 (32 + ?f + length body)"
    by (simp add: s(2) sent_header_def)
  then have bl: "be_val (drop 24 (take 28 m)) = length m"
    using s(3) len by (auto simp: be_val_be_bytes)
  have p: "take 28 m ! 16 = (if frag = None then IKEV2_PAYLOAD_SK else IKEV2_PAYLOAD_SKF)"
    using sent_header_nth(1)[of sa msgid exchange response frag np "length body" body] by (simp add: s(2) nth_append)
  have dr: "drop 28 m = [np, 0] @ be_bytes 2 (4 + ?f + length body) @ frag_header frag @ body"
    by (simp add: s(2) sent_header_def)
  have rd': "mem_read m 28 4 = Some ([np, 0] @ be_bytes 2 (4 + ?f + length body))"
    using len dr by (simp add: mem_read_def)
  then have v: "ikev2_validate_pld m 28 (4 + ?f + length body) = Some (Some (np, 0, 4 + ?f + length body))"
    using s(3) len by (auto simp: ikev2_validate_pld_def be_val_be_bytes Let_def)
  have us: "usub (length m) 28 = 4 + ?f + length body"
    using len by (simp add: usub_def)
  show ?thesis
    unfolding ikev2_pld_parse_def s(1) rd Option.bind.simps Let_def bl ikev2_pld_payloads_def
    using len p us v
    by (subst ikev2_pld_loop.simps) (auto simp: ikev2_pld_payload_def split: if_splits intro!: arg_cong2[where f = Option.bind])
qed

lemma decrypt_sent:
  assumes "sealed_for (pc_evp cf) sa m body d" "sa_crypto_ok (pc_evp cf) sa'" "sa_peers sa sa'"
    "msg_data s = m" "msg_sa s = Some sa'" "ps_alloc s = []"
  obtains sa'' where "sa_static sa' sa''" "pld_decrypt cf body s = Some (Some d, s\<lparr>msg_sa := Some sa''\<rparr>)"
proof -
  obtain sa'' where "ikev2_msg_decrypt (pc_evp cf) (pc_rnd cf) (pc_verbose cf) [] (Some sa') m body = Some (Some d, Some sa'', [])"
    "sa_static sa' sa''"
    using assms(1-3) unfolding sealed_for_def by blast
  then show ?thesis
    using that assms(4-6) by (simp add: pld_decrypt_def)
qed

text \<open>A message that is not a fragment, received or looked at by its sender.\<close>

lemma payloads_e_ret:
  "ikev2_pld_payloads_e cf d np s = Some (r, s') \<Longrightarrow> r = 0 \<or> r = - 1"
  using wlpD[OF loop_ret] by (fastforce simp: ikev2_pld_payloads_e_def)

lemma payloads_e_returns:
  assumes "pc_verbose cf < 3" "msg_sa s \<noteq> None" "msg_policy s \<noteq> None \<or> \<not> frompeer s"
  obtains r s' where "ikev2_pld_payloads_e cf d np s = Some (r, s')" "frame s s'"
  using payloads_e_safe[OF assms, of d np] by (auto simp: wp_def framed_def)

lemma frompeer_static: "msg_sa s = Some sa \<Longrightarrow> sa_static sa sa' \<Longrightarrow> frompeer (s\<lparr>msg_sa := Some sa'\<rparr>) = frompeer s"
  by (auto simp: frompeer_def ikev2_msg_frompeer_def Let_def dest: sa_static_crypto(4) split: option.splits)

lemma parse_sk:
  assumes v: "pc_verbose cf < 3" and s: "msg_data s = m" "msg_sa s = Some sa'" "ps_alloc s = []" "msg_policy s \<noteq> None"
    and m: "m = sent_header sa msgid exchange response None np (length body) @ body" "length body \<le> IKED_MSGBUF_MAX"
    and sealed: "sealed_for (pc_evp cf) sa1 m body d" "sa_crypto_ok (pc_evp cf) sa'" "sa_peers sa1 sa'"
    and role: "sh_initiator sa1 = sh_initiator sa" and frag: "frag_arr (sa_fragments sa') = None"
  obtains sa'' where "sa_static sa' sa''"
    "ikev2_pld_parse cf 0 s = ikev2_pld_payloads_e cf d np (s\<lparr>msg_sa := Some sa''\<rparr>)"
proof -
  have fp: "frompeer s"
    using frompeer_sent[OF s(2), of sa msgid exchange response None np "length body" body] s(1) m(1) sealed(3) role
    by (simp add: sa_peers_def)
  obtain sa'' where sa'': "sa_static sa' sa''" and dec: "pld_decrypt cf body s = Some (Some d, s\<lparr>msg_sa := Some sa''\<rparr>)"
    by (rule decrypt_sent[OF sealed s(1-3)])
  have rd: "mem_read m 32 (length body) = Some body"
    by (simp add: m(1) mem_read_def frag_header_def)
  let ?p = "ikev2_pld_payloads_e cf d np (s\<lparr>msg_sa := Some sa''\<rparr>)"
  have e: "ikev2_pld_e cf m np 32 (length body) s = ?p"
    using s(2) frag rd fp dec m(2) by (simp add: ikev2_pld_e_def new_buf_nil[OF s(3)])
  obtain r s' where rs: "?p = Some (r, s')" "frame (s\<lparr>msg_sa := Some sa''\<rparr>) s'"
    by (rule payloads_e_returns[OF v, of "s\<lparr>msg_sa := Some sa''\<rparr>" d np]) (use s(4) in auto)
  have "frompeer s'"
    using frame_frompeer[OF rs(2)] frompeer_static[OF s(2) sa''] fp by simp
  then have "ikev2_pld_parse cf 0 s = ?p"
    using parse_sent[OF s(1) m(1)] m(2) e rs(1) payloads_e_ret[OF rs(1)] by auto
  then show ?thesis
    using that sa'' by blast
qed

lemma parse_own:
  assumes v: "pc_verbose cf < 3" and s: "msg_data s = m" "msg_sa s = Some sa" "ps_alloc s = []"
    and m: "m = sent_header sa0 msgid exchange response None np (length body) @ body" "length body \<le> IKED_MSGBUF_MAX"
    and sealed: "sealed_for (pc_evp cf) sa1 m body d" "sa_crypto_ok (pc_evp cf) sa" "sa_static sa1 sa"
    and role: "sh_initiator sa0 = sh_initiator sa" and frag: "frag_arr (sa_fragments sa) = None"
  obtains s' sa' where "ikev2_pld_parse cf 0 s = Some (0, s')" "msg_sa s' = Some sa'" "sa_static sa sa'" "ps_alloc s' = []"
proof -
  let ?sw = "sa\<lparr>sh_initiator := \<not> sh_initiator sa\<rparr>"
  have fp: "\<not> frompeer s"
    using frompeer_sent[OF s(2), of sa0 msgid exchange response None np "length body" body] s(1) m(1) role by simp
  have "sa_crypto_ok (pc_evp cf) ?sw"
    using sealed(2) by (auto simp: sa_crypto_ok_def split: option.splits)
  moreover have "sa_peers sa ?sw"
    by (auto simp: sa_peers_def same_cipher_def same_hash_def option.rel_refl)
  then have "sa_peers sa1 ?sw"
    using sa_static_crypto(2)[OF sealed(3)] by simp
  moreover have "msg_data (swap_initiator s) = m" "msg_sa (swap_initiator s) = Some ?sw" "ps_alloc (swap_initiator s) = []"
    using s by (simp_all add: swap_initiator_def)
  ultimately obtain sw' where sw': "sa_static ?sw sw'"
    "pld_decrypt cf body (swap_initiator s) = Some (Some d, (swap_initiator s)\<lparr>msg_sa := Some sw'\<rparr>)"
    using sealed(1) by (elim decrypt_sent)
  define sa' where "sa' = sw'\<lparr>sh_initiator := \<not> sh_initiator sw'\<rparr>"
  have st: "sa_static sa sa'"
    using sw'(1) by (cases sa; cases sw') (simp add: sa_static_def sa'_def)
  have undo: "swap_initiator ((swap_initiator s)\<lparr>msg_sa := Some sw'\<rparr>) = s\<lparr>msg_sa := Some sa'\<rparr>"
    by (simp add: swap_initiator_def sa'_def)
  have rd: "mem_read m 32 (length body) = Some body"
    by (simp add: m(1) mem_read_def frag_header_def)
  let ?p = "ikev2_pld_payloads_e cf d np (s\<lparr>msg_sa := Some sa'\<rparr>)"
  have e: "ikev2_pld_e cf m np 32 (length body) s = ?p"
    using s(2) frag rd fp sw'(2) undo m(2) by (simp add: ikev2_pld_e_def new_buf_nil[OF s(3)])
  have fp': "\<not> frompeer (s\<lparr>msg_sa := Some sa'\<rparr>)"
    using fp frompeer_static[OF s(2) st] by simp
  obtain r s' where rs: "?p = Some (r, s')" "frame (s\<lparr>msg_sa := Some sa'\<rparr>) s'"
    by (rule payloads_e_returns[OF v, of "s\<lparr>msg_sa := Some sa'\<rparr>" d np]) (use fp' in auto)
  have "ikev2_pld_parse cf 0 s = Some (0, s')"
    using parse_sent[OF s(1) m(1)] m(2) e rs(1) frame_frompeer[OF rs(2)] fp' by auto
  then show ?thesis
    using that rs(2) st s(3) by (auto simp: frame_def)
qed

subsection \<open>Reassembly in any order\<close>

text \<open>The array when the fragments with the (zero-based) numbers \<open>R\<close> of the parts \<open>ds\<close> have arrived.\<close>

definition part_entry :: "byte list \<Rightarrow> iked_frag_entry" where
  "part_entry d = \<lparr>frag_data = Some d, frag_size = length d\<rparr>"

definition parts_array :: "byte list list \<Rightarrow> nat set \<Rightarrow> iked_frag_entry option list" where
  "parts_array ds R = map (\<lambda>i. if i \<in> R then Some (part_entry (ds ! i)) else None) [0..<length ds]"

definition collected :: "byte \<Rightarrow> byte list list \<Rightarrow> nat set \<Rightarrow> iked_frag \<Rightarrow> bool" where
  "collected np ds R f \<longleftrightarrow> R \<subseteq> {..<length ds} \<and>
     (if R = {} then frag_arr f = None \<and> frag_count f = 0 \<and> frag_total_size f = 0
      else frag_arr f = Some (parts_array ds R) \<and> frag_counts f (parts_array ds R) \<and>
        (0 \<in> R \<longrightarrow> frag_nextpayload f = np))"

lemma length_parts_array [simp]: "length (parts_array ds R) = length ds"
  by (simp add: parts_array_def)

lemma parts_array_nth [simp]: "i < length ds \<Longrightarrow> parts_array ds R ! i = (if i \<in> R then Some (part_entry (ds ! i)) else None)"
  by (simp add: parts_array_def)

lemma parts_array_update: "i < length ds \<Longrightarrow> (parts_array ds R)[i := Some (part_entry (ds ! i))] = parts_array ds (insert i R)"
  by (rule nth_equalityI) (auto simp: nth_list_update)

lemma parts_array_stored:
  assumes "R \<subseteq> {..<length ds}"
  shows "length (filter frag_stored (parts_array ds R)) = card R"
proof -
  have "{i. i < length ds \<and> frag_stored (parts_array ds R ! i)} = R"
    using assms by (auto simp: frag_stored_def part_entry_def split: if_splits)
  then show ?thesis
    by (simp add: length_filter_conv_card)
qed

lemma parts_array_all: "concat (map frag_bytes (parts_array ds {..<length ds})) = concat ds"
proof -
  have "map frag_bytes (parts_array ds {..<length ds}) = ds"
    by (rule nth_equalityI) (auto simp: frag_bytes_def part_entry_def)
  then show ?thesis by simp
qed

lemma collected_start:
  assumes "collected np ds {} f"
  shows "frag_counts (f\<lparr>frag_arr := a, frag_total := length ds\<rparr>) (parts_array ds {})" "parts_array ds {} = replicate (length ds) None"
proof -
  show r: "parts_array ds {} = replicate (length ds) None"
    by (rule nth_equalityI) auto
  show "frag_counts (f\<lparr>frag_arr := a, frag_total := length ds\<rparr>) (parts_array ds {})"
    using assms by (simp add: r collected_def frag_counts_def frag_stored_def frag_bytes_def frag_entry_ok_def list_all_iff)
qed

text \<open>A new fragment is stored; the last one completes the message.\<close>

lemma insert_part:
  assumes s: "ps_alloc s = []" "msg_sa s = Some sa" and c: "collected np ds R (sa_fragments sa)"
    and i: "i < length ds" "i \<notin> R" and np': "i = 0 \<longrightarrow> np' = np"
  obtains f where "collected np ds (insert i R) f"
    "frag_insert cf np' (Suc i) (length ds) (ds ! i) s =
      (if card (insert i R) = length ds then ikev2_frags_reassemble cf (put_frags f s) else Some (0, put_frags f s))"
proof -
  obtain f0 where f0: "frag_counts f0 (parts_array ds R)" "0 \<in> R \<longrightarrow> frag_nextpayload f0 = np"
    "frag_insert cf np' (Suc i) (length ds) (ds ! i) s = frag_store cf np' (Suc i) f0 (parts_array ds R) (ds ! i) s"
  proof (cases "R = {}")
    case True
    then have "frag_arr (sa_fragments sa) = None"
      using c by (simp add: collected_def)
    then show ?thesis
      using that[of "(sa_fragments sa)\<lparr>frag_arr := Some (replicate (length ds) None), frag_total := length ds\<rparr>"]
        collected_start[OF c[unfolded True]] s by (simp add: True frag_insert_def alloc_ok_nil Let_def)
  next
    case False
    then have "frag_arr (sa_fragments sa) = Some (parts_array ds R)" "frag_counts (sa_fragments sa) (parts_array ds R)"
      "0 \<in> R \<longrightarrow> frag_nextpayload (sa_fragments sa) = np" "length ds = frag_total (sa_fragments sa)"
      using c by (auto simp: collected_def frag_counts_def)
    then show ?thesis
      using that s i by (simp add: frag_insert_def Let_def)
  qed
  define f where "f = frag_stored_in np' (Suc i) (parts_array ds R) (ds ! i) f0"
  have a: "parts_array ds (insert i R) = (parts_array ds R)[Suc i - 1 := Some \<lparr>frag_data = Some (ds ! i), frag_size = length (ds ! i)\<rparr>]"
    using parts_array_update[OF i(1), of R] by (simp add: part_entry_def)
  have "1 \<le> Suc i" "Suc i \<le> length (parts_array ds R)" "parts_array ds R ! (Suc i - 1) = None"
    using i by simp_all
  note st = frag_store_eq[OF s(1) f0(1) this f_def a]
  have R: "insert i R \<subseteq> {..<length ds}"
    using c i by (simp add: collected_def)
  then have cnt: "frag_count f = card (insert i R)" "frag_total f = length ds"
    using st(2) parts_array_stored[OF R] by (simp_all add: frag_counts_def)
  have "collected np ds (insert i R) f"
    using R st(2,3,6) f0(2) np' by (auto simp: collected_def)
  then show ?thesis
    using that st(1) f0(3) cnt by simp
qed

text \<open>The parsing of the complete message.\<close>

lemma reassemble_parts:
  assumes s: "ps_alloc s = []" "msg_sa s = Some sa" and c: "collected np ds {..<length ds} f" and ds: "ds \<noteq> []"
    "length (concat ds) \<le> IKED_MSGBUF_MAX"
  shows "ikev2_frags_reassemble cf (put_frags f s) = map_option (reass_ok f)
    (ikev2_pld_payloads_e cf (concat ds) np (if msg_response s then flush_requests (put_frags f s) else put_frags f s))"
proof -
  have f: "frag_arr f = Some (parts_array ds {..<length ds})" "frag_counts f (parts_array ds {..<length ds})" "frag_nextpayload f = np"
    using c ds(1) by (auto simp: collected_def lessThan_empty_iff)
  have "frag_count f = frag_total f"
    using f(2) parts_array_stored[of "{..<length ds}" ds] by (simp add: frag_counts_def)
  then show ?thesis
    using reassemble_eq[of "put_frags f s" "sa\<lparr>sa_fragments := f\<rparr>" "parts_array ds {..<length ds}" cf] s f ds(2)
    by (simp add: parts_array_all)
qed


text \<open>The part of the state of a message that its payloads determine.\<close>

definition msg_view :: "pstate \<Rightarrow> pstate" where
  "msg_view s = s\<lparr>msg_sa := None, ikes_frag_rcvd := 0, ikes_frag_reass_ok := 0\<rparr>"

text \<open>The SA without what the protection of messages changes in it.\<close>

definition sa_view :: "iked_sa \<Rightarrow> iked_sa" where
  "sa_view sa = sa\<lparr>sa_encr := None, sa_integr := None, sa_fragments := no_frags, sa_requests := []\<rparr>"

lemma sa_view_updates [simp]:
  "sa_view (sa\<lparr>sa_fragments := f\<rparr>) = sa_view sa" "sa_view (sa\<lparr>sa_requests := q\<rparr>) = sa_view sa"
  by (simp_all add: sa_view_def)

lemma msg_view_policy:
  assumes "msg_view s = msg_view t"
  shows "msg_policy s = msg_policy t"
  using arg_cong[OF assms, of msg_policy] by (simp add: msg_view_def)

lemma sa_view_static: "sa_static sa sa' \<Longrightarrow> sa_view sa' = sa_view sa"
  by (cases sa; cases sa') (simp add: sa_static_def sa_view_def)

lemma msg_view_updates [simp]:
  "msg_view (s\<lparr>msg_sa := a\<rparr>) = msg_view s" "msg_view (s\<lparr>ikes_frag_rcvd := n\<rparr>) = msg_view s"
  "msg_view (s\<lparr>ikes_frag_reass_ok := n\<rparr>) = msg_view s" "msg_view (put_frags f s) = msg_view s"
  "msg_view (flush_requests s) = msg_view s"
  by (simp_all add: msg_view_def put_frags_def flush_requests_def)

text \<open>The other ends of an SA at different times: they decrypt the same messages.\<close>

definition peer_ok :: "pcfg \<Rightarrow> iked_sa \<Rightarrow> iked_sa \<Rightarrow> iked_sa \<Rightarrow> bool" where
  "peer_ok cf sa sa0 sa' \<longleftrightarrow> sa_crypto_ok (pc_evp cf) sa' \<and> sa_peers sa sa' \<and> sa_view sa' = sa_view sa0"

lemma peer_ok_static: "peer_ok cf sa sa0 sa' \<Longrightarrow> sa_static sa' sa'' \<Longrightarrow> peer_ok cf sa sa0 sa''"
  by (simp add: peer_ok_def sa_static_crypto sa_view_static)

lemma peer_ok_frags [simp]: "peer_ok cf sa sa0 (sa'\<lparr>sa_fragments := f\<rparr>) = peer_ok cf sa sa0 sa'"
  by (auto simp: peer_ok_def sa_crypto_ok_def sa_peers_def split: option.splits)

lemma frompeer_updates [simp]:
  "frompeer (put_frags f s) = frompeer s" "frompeer (flush_requests s) = frompeer s"
  "frompeer (s\<lparr>ikes_frag_reass_ok := n\<rparr>) = frompeer s" "frompeer (s\<lparr>ikes_frag_rcvd := n\<rparr>) = frompeer s"
  by (auto simp: frompeer_def put_frags_def flush_requests_def ikev2_msg_frompeer_def Let_def split: option.splits)

lemma fragment_header:
  assumes "m = sent_header sa msgid exchange response (Some (num, tot)) np (length body) @ body" "num < 65536" "tot < 65536"
  shows "ikev2_validate_ef m 32 (4 + length body) = Some (Some (be_bytes 2 num @ be_bytes 2 tot))"
    "mem_read m (32 + 4) (length body) = Some body"
    "be16_at (be_bytes 2 num @ be_bytes 2 tot) 0 = num" "be16_at (be_bytes 2 num @ be_bytes 2 tot) 2 = tot"
  using assms by (simp_all add: ikev2_validate_ef_def ikev2_validate_hdr_def mem_read_def sent_header_def frag_header_def
      be_val_be_bytes)

text \<open>One fragment: the parser decrypts and stores it.\<close>

lemma ef_part:
  assumes s: "msg_data s = m" "msg_sa s = Some sa'" "ps_alloc s = []"
    and m: "m = sent_header sa1 msgid exchange response (Some (Suc i, length ds)) np' (length body) @ body"
      "length body \<le> IKED_MSGBUF_MAX"
    and sealed: "sealed_for (pc_evp cf) sa m body (ds ! i)" "peer_ok cf sa sa0 sa'"
    and c: "collected np ds R (sa_fragments sa')" "i < length ds" "i \<notin> R" "i = 0 \<longrightarrow> np' = np"
    and ds: "length ds \<le> IKED_FRAG_TOTAL_MAX"
  obtains sa'' f s0 where "sa_static sa' sa''" "collected np ds (insert i R) f"
    "s0 = s\<lparr>ikes_frag_rcvd := ikes_frag_rcvd s + 1\<rparr>"
    "ikev2_pld_ef cf m np' 32 (4 + length body) s =
      (if card (insert i R) = length ds then ikev2_frags_reassemble cf (put_frags f (s0\<lparr>msg_sa := Some sa''\<rparr>))
       else Some (0, put_frags f (s0\<lparr>msg_sa := Some sa''\<rparr>)))"
proof -
  define s0 where "s0 = s\<lparr>ikes_frag_rcvd := ikes_frag_rcvd s + 1\<rparr>"
  have s0: "msg_data s0 = m" "msg_sa s0 = Some sa'" "ps_alloc s0 = []"
    using s by (simp_all add: s0_def)
  obtain sa'' where sa'': "sa_static sa' sa''" and dec: "pld_decrypt cf body s0 = Some (Some (ds ! i), s0\<lparr>msg_sa := Some sa''\<rparr>)"
    by (rule decrypt_sent[OF sealed(1) _ _ s0]) (use sealed(2) in \<open>simp_all add: peer_ok_def\<close>)
  have c'': "collected np ds R (sa_fragments sa'')"
    using c(1) sa_static_crypto(5)[OF sa''] by simp
  have sA: "ps_alloc (s0\<lparr>msg_sa := Some sa''\<rparr>) = []" "msg_sa (s0\<lparr>msg_sa := Some sa''\<rparr>) = Some sa''"
    using s0(3) by simp_all
  obtain f where f: "collected np ds (insert i R) f"
    "frag_insert cf np' (Suc i) (length ds) (ds ! i) (s0\<lparr>msg_sa := Some sa''\<rparr>) =
      (if card (insert i R) = length ds then ikev2_frags_reassemble cf (put_frags f (s0\<lparr>msg_sa := Some sa''\<rparr>))
       else Some (0, put_frags f (s0\<lparr>msg_sa := Some sa''\<rparr>)))"
    by (rule insert_part[OF sA c'' c(2-4), of cf])
  have ne: "ds \<noteq> []"
    using c(2) by auto
  show ?thesis
    by (rule that[OF sa'' f(1) s0_def])
      (use fragment_header[OF m(1)] c(2) ds dec f(2) m(2) ne
        in \<open>simp add: ikev2_pld_ef_def s0_def[symmetric] new_buf_nil[OF s0(3)] Let_def\<close>)
qed

lemma parse_skf:
  assumes v: "pc_verbose cf < 3" and s: "msg_data s = m" "msg_sa s = Some sa'" "ps_alloc s = []" "msg_policy s \<noteq> None"
    and m: "m = sent_header sa1 msgid exchange response (Some (Suc i, length ds)) np' (length body) @ body"
      "length body \<le> IKED_MSGBUF_MAX"
    and sealed: "sealed_for (pc_evp cf) sa m body (ds ! i)" "peer_ok cf sa sa0 sa'" "sh_initiator sa1 = sh_initiator sa"
    and c: "collected np ds R (sa_fragments sa')" "i < length ds" "i \<notin> R" "i = 0 \<longrightarrow> np' = np"
    and ds: "length ds \<le> IKED_FRAG_TOTAL_MAX" "length (concat ds) \<le> IKED_MSGBUF_MAX"
  obtains sa'' s1 where "peer_ok cf sa sa0 sa''" "msg_view s1 = msg_view s" "msg_sa s1 = Some sa''"
    "collected np ds (insert i R) (sa_fragments sa'')"
    "card (insert i R) \<noteq> length ds \<Longrightarrow> ikev2_pld_parse cf 0 s = Some (0, s1)"
    "card (insert i R) = length ds \<Longrightarrow> ikev2_pld_parse cf 0 s = map_option (reass_ok (sa_fragments sa''))
      (ikev2_pld_payloads_e cf (concat ds) np (if msg_response s1 then flush_requests s1 else s1))"
proof (rule ef_part[OF s(1-3) m sealed(1,2) c ds(1)])
  fix sa'' f s0 assume sa'': "sa_static sa' sa''" and f: "collected np ds (insert i R) f"
    and s0: "s0 = s\<lparr>ikes_frag_rcvd := ikes_frag_rcvd s + 1\<rparr>"
    and ef: "ikev2_pld_ef cf m np' 32 (4 + length body) s =
      (if card (insert i R) = length ds then ikev2_frags_reassemble cf (put_frags f (s0\<lparr>msg_sa := Some sa''\<rparr>))
       else Some (0, put_frags f (s0\<lparr>msg_sa := Some sa''\<rparr>)))"
  define s1 where "s1 = put_frags f (s0\<lparr>msg_sa := Some sa''\<rparr>)"
  have peer: "peer_ok cf sa sa0 (sa''\<lparr>sa_fragments := f\<rparr>)"
    using peer_ok_static[OF sealed(2) sa''] by simp
  have s1: "msg_view s1 = msg_view s" "msg_sa s1 = Some (sa''\<lparr>sa_fragments := f\<rparr>)" "msg_policy s1 \<noteq> None"
    using s(4) by (simp_all add: s1_def s0)
  have "frompeer s0" "msg_sa s0 = Some sa'" "ps_alloc (s0\<lparr>msg_sa := Some sa''\<rparr>) = []"
    using frompeer_sent[OF s(2)] s(1-3) m(1) sealed(2,3) by (simp_all add: s0 peer_ok_def sa_peers_def)
  then have fp: "frompeer s1"
    using frompeer_static[OF _ sa'', of s0] by (simp add: s1_def)
  show ?thesis
  proof (rule that[OF peer s1(1,2)])
    show "collected np ds (insert i R) (sa_fragments (sa''\<lparr>sa_fragments := f\<rparr>))"
      using f by simp
    show "ikev2_pld_parse cf 0 s = Some (0, s1)" if "card (insert i R) \<noteq> length ds"
      using parse_sent[OF s(1) m(1)] m(2) ef that by (simp add: s1_def)
    assume card: "card (insert i R) = length ds"
    let ?p = "ikev2_pld_payloads_e cf (concat ds) np (if msg_response s1 then flush_requests s1 else s1)"
    have all: "insert i R = {..<length ds}"
      using f card by (intro card_subset_eq) (auto simp: collected_def)
    have ne: "ds \<noteq> []"
      using c(2) by auto
    have re: "ikev2_frags_reassemble cf s1 = map_option (reass_ok f) ?p"
      unfolding s1_def reassemble_parts[OF \<open>ps_alloc (s0\<lparr>msg_sa := Some sa''\<rparr>) = []\<close> _ f[unfolded all] ne ds(2), of sa'', simplified]
      by simp
    obtain r s' where rs: "?p = Some (r, s')" "frame (if msg_response s1 then flush_requests s1 else s1) s'"
      by (rule payloads_e_returns[OF v, of "if msg_response s1 then flush_requests s1 else s1" "concat ds" np])
        (use s1 in \<open>auto simp: flush_requests_def\<close>)
    have "frompeer (snd (reass_ok f (r, s')))"
      using frame_frompeer[OF rs(2)] fp by (simp add: reass_ok_def split: if_splits)
    then show "ikev2_pld_parse cf 0 s = map_option (reass_ok (sa_fragments (sa''\<lparr>sa_fragments := f\<rparr>))) ?p"
      using parse_sent[OF s(1) m(1)] m(2) ef[folded s1_def] card re rs(1) payloads_e_ret[OF rs(1)] by (auto simp: reass_ok_def)
  qed
qed


subsection \<open>Delivery\<close>

text \<open>
  The datagrams of a message are parsed one after the other, each as a new message of the SA, which
  the parser updates.  The results are those of the calls of \<^verbatim>\<open>ikev2_pld_parse\<close>.
\<close>

fun deliver ::
    "pcfg \<Rightarrow> (iked_sa option \<Rightarrow> byte list \<Rightarrow> pstate) \<Rightarrow> byte list list \<Rightarrow> iked_sa \<Rightarrow> (int \<times> pstate) list option" where
  "deliver cf rcv [] sa = Some []"
| "deliver cf rcv (m # ms) sa = do {
     (r, s) \<leftarrow> ikev2_pld_parse cf 0 (rcv (Some sa) m);
     sa \<leftarrow> msg_sa s;
     rs \<leftarrow> deliver cf rcv ms sa;
     Some ((r, s) # rs) }"

text \<open>A received message, before anything of it was parsed.\<close>

definition received :: "sockaddr \<Rightarrow> sockaddr \<Rightarrow> bool \<Rightarrow> iked_policy \<Rightarrow> iked_sa option \<Rightarrow> byte list \<Rightarrow> pstate" where
  "received peer local response pol sao m = zero_msg peer local response (Some pol) sao m []"

lemma received_simps [simp]:
  "msg_data (received p l b pol sao m) = m" "msg_sa (received p l b pol sao m) = sao"
  "ps_alloc (received p l b pol sao m) = []" "msg_policy (received p l b pol sao m) = Some pol"
  "msg_response (received p l b pol sao m) = b"
  by (simp_all add: received_def zero_msg_def)

lemma received_view: "msg_view (received p l b pol sao m) = msg_view (received p l b pol None m)"
  by (simp add: received_def zero_msg_def msg_view_def)

text \<open>
  The messages \<open>ms\<close> carry the payload \<open>d\<close>: all but the last are stored and change nothing else, and the
  last one is parsed as \<open>d\<close> with the first payload \<open>np\<close> by an SA that is the old one except for its
  ciphers, its fragments and its queue of requests.
\<close>

definition delivers ::
    "pcfg \<Rightarrow> (iked_sa option \<Rightarrow> byte list \<Rightarrow> pstate) \<Rightarrow> byte list list \<Rightarrow> iked_sa \<Rightarrow> byte list \<Rightarrow> byte \<Rightarrow> bool" where
  "delivers cf rcv ms sa d np \<longleftrightarrow>
     (\<exists>rs r s s1 s2 sa1. deliver cf rcv ms sa = Some (rs @ [(r, s)]) \<and>
        list_all2 (\<lambda>m (r, s). r = 0 \<and> msg_view s = msg_view (rcv None m)) (butlast ms) rs \<and>
        msg_view s1 = msg_view (rcv None (last ms)) \<and> msg_sa s1 = Some sa1 \<and> sa_view sa1 = sa_view sa \<and>
        ikev2_pld_payloads_e cf d np s1 = Some (r, s2) \<and> msg_view s = msg_view s2)"

lemma deliversI:
  assumes "deliver cf rcv ms sa = Some (rs @ [(r, s)])"
    "list_all2 (\<lambda>m (r, s). r = 0 \<and> msg_view s = msg_view (rcv None m)) (butlast ms) rs"
    "msg_view s1 = msg_view (rcv None (last ms))" "msg_sa s1 = Some sa1" "sa_view sa1 = sa_view sa"
    "ikev2_pld_payloads_e cf d np s1 = Some (r, s2)" "msg_view s = msg_view s2"
  shows "delivers cf rcv ms sa d np"
  unfolding delivers_def using assms by blast

lemma deliver_one:
  assumes "ikev2_pld_parse cf 0 (rcv (Some sa) m) = Some (r, s)" "msg_sa s = Some sa2"
    "msg_view s1 = msg_view (rcv None m)" "msg_sa s1 = Some sa1" "sa_view sa1 = sa_view sa"
    "ikev2_pld_payloads_e cf d np s1 = Some (r, s2)" "msg_view s = msg_view s2"
  shows "delivers cf rcv [m] sa d np"
  by (rule deliversI[where rs = "[]", OF _ _ _ assms(4-7)]) (use assms(1-3) in simp_all)

lemma deliver_more:
  assumes "ikev2_pld_parse cf 0 (rcv (Some sa) m) = Some (0, s)" "msg_sa s = Some sa'" "msg_view s = msg_view (rcv None m)"
    "sa_view sa' = sa_view sa" "delivers cf rcv ms sa' d np" "ms \<noteq> []"
  shows "delivers cf rcv (m # ms) sa d np"
proof -
  obtain rs r t s1 s2 sa1 where d: "deliver cf rcv ms sa' = Some (rs @ [(r, t)])"
    "list_all2 (\<lambda>m (r, s). r = 0 \<and> msg_view s = msg_view (rcv None m)) (butlast ms) rs"
    "msg_view s1 = msg_view (rcv None (last ms))" "msg_sa s1 = Some sa1" "sa_view sa1 = sa_view sa'"
    "ikev2_pld_payloads_e cf d np s1 = Some (r, s2)" "msg_view t = msg_view s2"
    using assms(5) by (auto simp: delivers_def)
  show ?thesis
    by (rule deliversI[where rs = "(0, s) # rs", OF _ _ _ d(4) _ d(6,7)]) (use assms(1-4,6) d(1-3,5) in simp_all)
qed

text \<open>The datagram \<open>m\<close> carries \<open>d\<close>, alone or as a fragment, with the first payload \<open>np\<close>, to the other end of \<open>sa\<close>.\<close>

definition datagram :: "evp \<Rightarrow> iked_sa \<Rightarrow> (nat \<times> nat) option \<Rightarrow> byte \<Rightarrow> byte list \<Rightarrow> byte list \<Rightarrow> bool" where
  "datagram ev sa frag np d m \<longleftrightarrow>
     (\<exists>sa1 msgid exchange response body.
        m = sent_header sa1 msgid exchange response frag np (length body) @ body \<and> length m \<le> IKED_MSGBUF_MAX \<and>
        length body \<le> IKED_MSGBUF_MAX \<and> sealed_for ev sa m body d \<and> sh_initiator sa1 = sh_initiator sa)"

lemma deliver_parts:
  assumes v: "pc_verbose cf < 3" and rcv: "rcv = received p l b pol"
    and M: "\<And>i. i < length ds \<Longrightarrow> datagram (pc_evp cf) sa (Some (Suc i, length ds)) (if i = 0 then np else 0) (ds ! i) (M i)"
    and ds: "length ds \<le> IKED_FRAG_TOTAL_MAX" "length (concat ds) \<le> IKED_MSGBUF_MAX"
  shows "collected np ds R (sa_fragments sa') \<Longrightarrow> peer_ok cf sa sa0 sa' \<Longrightarrow> distinct is \<Longrightarrow>
    set is = {..<length ds} - R \<Longrightarrow> is \<noteq> [] \<Longrightarrow> delivers cf rcv (map M is) sa' (concat ds) np"
proof (induction "is" arbitrary: R sa')
  case (Cons i "is")
  have i: "i < length ds" "i \<notin> R"
    using Cons.prems(4) by auto
  let ?s = "rcv (Some sa') (M i)"
  have s: "msg_data ?s = M i" "msg_sa ?s = Some sa'" "ps_alloc ?s = []" "msg_policy ?s \<noteq> None"
    by (simp_all add: rcv)
  have view: "msg_view ?s = msg_view (rcv None (M i))"
    unfolding rcv by (rule received_view)
  define np' where "np' = (if i = 0 then np else 0)"
  then have np': "i = 0 \<longrightarrow> np' = np"
    by simp
  obtain sa1 msgid exchange response body where m:
    "M i = sent_header sa1 msgid exchange response (Some (Suc i, length ds)) np' (length body) @ body"
    "length body \<le> IKED_MSGBUF_MAX" "sealed_for (pc_evp cf) sa (M i) body (ds ! i)" "sh_initiator sa1 = sh_initiator sa"
    using M[OF i(1)] unfolding datagram_def np'_def by blast
  obtain sa'' s1 where p: "peer_ok cf sa sa0 sa''" "msg_view s1 = msg_view ?s" "msg_sa s1 = Some sa''"
    "collected np ds (insert i R) (sa_fragments sa'')"
    "card (insert i R) \<noteq> length ds \<Longrightarrow> ikev2_pld_parse cf 0 ?s = Some (0, s1)"
    "card (insert i R) = length ds \<Longrightarrow> ikev2_pld_parse cf 0 ?s = map_option (reass_ok (sa_fragments sa''))
      (ikev2_pld_payloads_e cf (concat ds) np (if msg_response s1 then flush_requests s1 else s1))"
    by (rule parse_skf[OF v s m(1-3) Cons.prems(2) m(4) Cons.prems(1) i np' ds]) blast
  have sv: "sa_view sa'' = sa_view sa'"
    using p(1) Cons.prems(2) by (simp add: peer_ok_def)
  have R: "insert i R \<subseteq> {..<length ds}"
    using p(4) by (simp add: collected_def)
  show ?case
  proof (cases "is = []")
    case True
    then have "insert i R = {..<length ds}"
      using Cons.prems(4) R by auto
    then have card: "card (insert i R) = length ds"
      by simp
    let ?s2 = "if msg_response s1 then flush_requests s1 else s1"
    have s2: "msg_view ?s2 = msg_view (rcv None (M i))" "\<exists>sa2. msg_sa ?s2 = Some sa2 \<and> sa_view sa2 = sa_view sa'"
      "msg_policy ?s2 \<noteq> None"
      using p(2,3) view sv msg_view_policy[OF p(2)] s(4) by (auto simp: flush_requests_def)
    obtain r t where t: "ikev2_pld_payloads_e cf (concat ds) np ?s2 = Some (r, t)" "frame ?s2 t"
      by (rule payloads_e_returns[OF v, of ?s2 "concat ds" np]) (use s2(2,3) in auto)
    have "\<exists>sa3. msg_sa (snd (reass_ok (sa_fragments sa'') (r, t))) = Some sa3"
      using t(2) s2(2) by (auto simp: reass_ok_def frame_def)
    then obtain sa2 sa3 where sa: "msg_sa ?s2 = Some sa2" "sa_view sa2 = sa_view sa'"
      "msg_sa (snd (reass_ok (sa_fragments sa'') (r, t))) = Some sa3"
      using s2(2) by blast
    have "ikev2_pld_parse cf 0 ?s = Some (r, snd (reass_ok (sa_fragments sa'') (r, t)))"
      using p(6)[OF card] t(1) by (simp add: reass_ok_def)
    then have "delivers cf rcv [M i] sa' (concat ds) np"
      by (rule deliver_one[where rcv = rcv and m = "M i", OF _ sa(3) s2(1) sa(1,2) t(1)]) (simp add: reass_ok_def)
    then show ?thesis
      using True by simp
  next
    case False
    have "set is = {..<length ds} - insert i R"
      using Cons.prems(3,4) by auto
    moreover from this False have "insert i R \<noteq> {..<length ds}"
      by (cases "is") auto
    then have "card (insert i R) \<noteq> length ds"
      using card_subset_eq[OF _ R] by auto
    note parse = p(5)[OF this]
    ultimately have "delivers cf rcv (map M is) sa'' (concat ds) np"
      using Cons.IH[OF p(4,1)] Cons.prems(3) False by simp
    then show ?thesis
      using deliver_more[where rcv = rcv and m = "M i", OF parse p(3) _ sv] p(2) view False by simp
  qed
qed simp


subsection \<open>Sending\<close>

text \<open>The entries of a queue have a first message; then the queue functions do not fail.\<close>

definition queue_ok :: "iked_msg_retransmit list \<Rightarrow> bool" where
  "queue_ok = list_all (\<lambda>mr. mrt_frags mr \<noteq> [])"

lemma lookup_ok: "queue_ok q \<Longrightarrow> \<exists>r. ikev2_msg_lookup q msgid exchange = Some r \<and> (\<forall>i. r = Some i \<longrightarrow> i < length q)"
proof (induction q)
  case (Cons mr q)
  then obtain r m ms where "ikev2_msg_lookup q msgid exchange = Some r" "\<forall>i. r = Some i \<longrightarrow> i < length q" "mrt_frags mr = m # ms"
    by (auto simp: queue_ok_def neq_Nil_conv)
  then show ?case
    by (cases r) auto
qed simp

lemma take_ok_nil: "sn_alloc st = [] \<Longrightarrow> take_ok st = (True, st)"
  by (simp add: take_ok_def)

lemma sendtofrom_nil:
  "sn_errno st = [] \<Longrightarrow> sendtofrom p l b st = (0, st\<lparr>sn_wire := sn_wire st @ [(p, l, b)]\<rparr>)"
  by (cases st) (simp add: sendtofrom_def)

lemma enqueue_ok:
  assumes "queue_ok q" "sn_alloc st = []"
  obtains q' where "ikev2_msg_enqueue q m t st = Some (Some q', st)" "queue_ok q'"
proof -
  obtain r where r: "ikev2_msg_lookup q (om_msgid m) (om_exchange m) = Some r" "\<And>i. r = Some i \<Longrightarrow> i < length q"
    using lookup_ok[OF assms(1)] by blast
  have ok: "take_ok st = (True, st)"
    by (rule take_ok_nil[OF assms(2)])
  show ?thesis
    using that r assms(1) ok by (cases r) (auto simp: ikev2_msg_enqueue_def queue_ok_def list_all_length nth_list_update nth_append less_Suc_eq)
qed

definition natt_mark :: "iked_sa \<Rightarrow> byte list" where
  "natt_mark sa = (if sa_natt sa then [0, 0, 0, 0] else [])"

text \<open>The state of a sender that is not short of memory and can reach the network.\<close>

definition can_send :: "nat \<Rightarrow> iked_sa \<Rightarrow> sendst \<Rightarrow> bool" where
  "can_send a sa st \<longleftrightarrow> sn_alloc st = [] \<and> sn_errno st = [] \<and> sa_heap (sn_env st) a = Some sa \<and>
     queue_ok (sa_requests sa) \<and> queue_ok (sa_responses sa)"

lemma can_send_set:
  "can_send a sa st \<Longrightarrow> queue_ok (sa_requests sa') \<Longrightarrow> queue_ok (sa_responses sa') \<Longrightarrow> can_send a sa' (set_sa a sa' st)"
  by (simp add: can_send_def set_sa_def put_sa_def)

lemma same_queues: "sa\<lparr>sa_requests := sa_requests sa\<rparr> = sa" "sa\<lparr>sa_requests := q, sa_responses := sa_responses sa\<rparr> = sa\<lparr>sa_requests := q\<rparr>"
  by (cases sa; simp)+

lemma send_ok:
  assumes st: "can_send a sa st" and msg: "IKE_HDR_SIZE \<le> length (om_data msg)" "length (om_data msg) + 4 \<le> IKED_MSGBUF_MAX"
    "\<not> om_natt msg"
  obtains st' q q' where "ikev2_msg_send (Some a) msg st = Some (0, st')"
    "sn_wire st' = sn_wire st @ [(om_peer msg, om_local msg, natt_mark sa @ om_data msg)]"
    "can_send a (sa\<lparr>sa_requests := q, sa_responses := q'\<rparr>) st'"
proof -
  let ?d = "natt_mark sa @ om_data msg"
  define st1 where "st1 = st\<lparr>sn_wire := sn_wire st @ [(om_peer msg, om_local msg, ?d)], ikes_msg_sent := ikes_msg_sent st + 1\<rparr>"
  define resp where "resp = (take IKE_HDR_SIZE (om_data msg) ! 19 AND IKEV2_FLAG_RESPONSE \<noteq> 0)"
  define m where "m = msg\<lparr>om_data := ?d, om_natt := False, om_exchange := take IKE_HDR_SIZE (om_data msg) ! 18\<rparr>"
  have st1: "can_send a sa st1"
    using st by (simp add: can_send_def st1_def)
  have keep: "ikev2_msg_send (Some a) msg st = keep_message a resp m st1"
    using st msg unfolding ikev2_msg_send_def resp_def m_def st1_def
    by (auto simp: can_send_def mem_read_def natt_marker_def take_ok_nil natt_mark_def buf_add_def sendtofrom_nil
        ikev2_msg_copy_def Let_def)
  have q: "queue_ok (sa_requests sa)" "queue_ok (sa_responses sa)" "sn_alloc st1 = []" "sa_heap (sn_env st1) a = Some sa"
    using st1 by (simp_all add: can_send_def)
  show ?thesis
  proof (cases resp)
    case True
    obtain q' where "ikev2_msg_enqueue (sa_responses sa) m IKED_RESPONSE_TIMEOUT st1 = Some (Some q', st1)" "queue_ok q'"
      by (rule enqueue_ok[OF q(2,3)])
    then show ?thesis
      using that[where st' = "set_sa a (sa\<lparr>sa_responses := q'\<rparr>) st1" and q = "sa_requests sa" and q' = q'] keep True q
        can_send_set[OF st1, of "sa\<lparr>sa_responses := q'\<rparr>"]
      by (simp add: keep_message_def set_sa_def st1_def same_queues)
  next
    case False
    obtain q' where "ikev2_msg_enqueue (sa_requests sa) m IKED_RETRANSMIT_TIMEOUT st1 = Some (Some q', st1)" "queue_ok q'"
      by (rule enqueue_ok[OF q(1,3)])
    then show ?thesis
      using that[where st' = "set_sa a (sa\<lparr>sa_requests := q'\<rparr>) st1" and q = q' and q' = "sa_responses sa"] keep False q
        can_send_set[OF st1, of "sa\<lparr>sa_requests := q'\<rparr>"]
      by (simp add: keep_message_def set_sa_def st1_def same_queues)
  qed
qed


text \<open>The SA of a sender at different times.\<close>

definition same_sender :: "evp \<Rightarrow> iked_sa \<Rightarrow> iked_sa \<Rightarrow> bool" where
  "same_sender ev sa sa' \<longleftrightarrow> sa_crypto_ok ev sa' \<and> sa_peers sa' = sa_peers sa \<and> sh_initiator sa' = sh_initiator sa \<and>
     sa_natt sa' = sa_natt sa \<and> sa_peer sa' = sa_peer sa \<and> sa_local sa' = sa_local sa"

lemma same_sender_static: "same_sender ev sa sa' \<Longrightarrow> sa_static sa' sa'' \<Longrightarrow> same_sender ev sa sa''"
proof -
  assume a: "same_sender ev sa sa'" "sa_static sa' sa''"
  obtain eo ho where "sa'' = sa'\<lparr>sa_encr := eo, sa_integr := ho\<rparr>"
    using a(2) by (auto simp: sa_static_def)
  then have "sa_natt sa'' = sa_natt sa'" "sa_peer sa'' = sa_peer sa'" "sa_local sa'' = sa_local sa'"
    by simp_all
  then show ?thesis
    using a sa_static_crypto[OF a(2)] by (auto simp: same_sender_def fun_eq_iff)
qed

lemma same_sender_updates [simp]:
  "same_sender ev sa (sa'\<lparr>sa_requests := q\<rparr>) = same_sender ev sa sa'"
  "same_sender ev sa (sa'\<lparr>sa_responses := q\<rparr>) = same_sender ev sa sa'"
  "same_sender ev sa (sa'\<lparr>sa_reqid := n\<rparr>) = same_sender ev sa sa'"
  by (simp_all add: same_sender_def sa_crypto_ok_def sa_peers_def fun_eq_iff cong: option.case_cong)

lemma sa_static_queues: "sa_static sa sa' \<Longrightarrow> sa_requests sa' = sa_requests sa \<and> sa_responses sa' = sa_responses sa"
proof -
  assume "sa_static sa sa'"
  then obtain eo ho where "sa' = sa\<lparr>sa_encr := eo, sa_integr := ho\<rparr>"
    by (auto simp: sa_static_def)
  then show ?thesis by simp
qed

text \<open>A protected message is a datagram for the other end.\<close>

lemma datagramI:
  "m = sent_header sa1 msgid exchange response frag np (length body) @ body \<Longrightarrow> length m \<le> IKED_MSGBUF_MAX \<Longrightarrow>
   sealed_for ev sa m body d \<Longrightarrow> sh_initiator sa1 = sh_initiator sa \<Longrightarrow> datagram ev sa frag np d m"
  unfolding datagram_def
  by (rule exI[of _ sa1], rule exI[of _ msgid], rule exI[of _ exchange], rule exI[of _ response], rule exI[of _ body]) simp

lemma datagram_same: "same_sender ev sa sa' \<Longrightarrow> datagram ev sa' frag np d m \<Longrightarrow> datagram ev sa frag np d m"
  unfolding datagram_def by (auto simp: same_sender_def sealed_for_def)

lemma protect_datagram:
  assumes ev: "evp_ok ev" and sa: "sa_crypto_ok ev sa" and d: "length d + 136 \<le> IKED_MSGBUF_MAX"
    and buf: "message_headers sa msgid exchange response frag = Some buf"
    and peer: "sa_crypto_ok ev px" "sa_peers sa px"
  obtains m sa2 where "protect ev rnd [] sa buf IKE_HDR_SIZE d np (frag \<noteq> None) = Some (Some m, sa2, [])"
    "sa_static sa sa2" "datagram ev sa frag np d m" "IKE_HDR_SIZE \<le> length m" "length m + 4 \<le> IKED_MSGBUF_MAX"
proof -
  define hdr where "hdr = sent_header sa msgid exchange response frag np (body_length sa (length d))"
  have d': "length d + 132 \<le> IKED_MSGBUF_MAX"
    using d by simp
  obtain body sa2 where
    pr: "protect ev rnd [] sa buf IKE_HDR_SIZE d np (frag \<noteq> None) = Some (Some (hdr @ body), sa2, [])"
    and sa2: "sa_static sa sa2" and len: "length body = body_length sa (length d)" "sealed_for ev sa (hdr @ body) body d"
    by (rule protect_ok[OF ev sa d' buf hdr_def peer])
  have bl: "length body \<le> length d + 96"
    using body_length_le[OF ev sa] len(1) by simp
  then have "datagram ev sa frag np d (hdr @ body)"
    by (intro datagramI[where body = body and ?sa1.0 = sa]) (use d len in \<open>simp_all add: hdr_def length_frag_header\<close>)
  then show ?thesis
    by (rule that[OF pr sa2]) (use bl d in \<open>simp_all add: hdr_def length_frag_header\<close>)
qed

text \<open>Where the messages of an SA go, with the marker for NAT traversal.\<close>

abbreviation (input) sent_to :: "iked_sa \<Rightarrow> byte list \<Rightarrow> sockaddr \<times> sockaddr \<times> byte list" where
  "sent_to sa m \<equiv> (addr (sa_peer sa), addr (sa_local sa), natt_mark sa @ m)"

lemma send_datagram:
  assumes sa: "same_sender ev sa sa'" "can_send a sa' st" "sa_static sa' sa2" "sa_static sa' sa3"
    and m: "IKE_HDR_SIZE \<le> length m" "length m + 4 \<le> IKED_MSGBUF_MAX"
  obtains st' sa'' where
    "ikev2_msg_send (Some a) ((ikev2_msg_init sa2 msgid response)\<lparr>om_data := m\<rparr>) (set_sa a sa3 st) = Some (0, st')"
    "sn_wire st' = sn_wire st @ [sent_to sa m]" "can_send a sa'' st'" "same_sender ev sa sa''"
proof -
  have st: "can_send a sa3 (set_sa a sa3 st)" and ss: "same_sender ev sa sa2" "same_sender ev sa sa3"
    using can_send_set[OF sa(2), of sa3] sa(2) sa_static_queues[OF sa(4)]
      same_sender_static[OF sa(1,3)] same_sender_static[OF sa(1,4)] by (auto simp: can_send_def)
  let ?msg = "(ikev2_msg_init sa2 msgid response)\<lparr>om_data := m\<rparr>"
  obtain st' r r' where send: "ikev2_msg_send (Some a) ?msg (set_sa a sa3 st) = Some (0, st')"
    "sn_wire st' = sn_wire (set_sa a sa3 st) @ [(om_peer ?msg, om_local ?msg, natt_mark sa3 @ om_data ?msg)]"
    "can_send a (sa3\<lparr>sa_requests := r, sa_responses := r'\<rparr>) st'"
    by (rule send_ok[OF st, of ?msg]) (use m in \<open>simp_all add: ikev2_msg_init_def\<close>)
  show ?thesis
    by (rule that[OF send(1) _ send(3)])
      (use send(2) ss in \<open>simp_all add: set_sa_def ikev2_msg_init_def same_sender_def[of ev sa sa2] same_sender_def[of ev sa sa3] natt_mark_def\<close>)
qed

lemma send_fragment_ok:
  assumes ev: "evp_ok ev" and sa: "same_sender ev sa sa'" "can_send a sa' st" and d: "length d + 136 \<le> IKED_MSGBUF_MAX"
    and peer: "sa_crypto_ok ev px" "sa_peers sa px"
  obtains st' sa'' m where
    "send_fragment ev rnd a msgid exchange np response num tot d st = Some (True, st')"
    "sn_wire st' = sn_wire st @ [sent_to sa m]" "can_send a sa'' st'" "same_sender ev sa sa''"
    "datagram ev sa (Some (num, tot)) np d m"
proof -
  have st: "sn_alloc st = []" "sa_heap (sn_env st) a = Some sa'"
    using sa(2) by (auto simp: can_send_def)
  have sa': "sa_crypto_ok ev sa'" "sa_peers sa' px"
    using sa(1) peer(2) by (simp_all add: same_sender_def)
  obtain buf where buf: "message_headers sa' msgid exchange response (Some (num, tot)) = Some buf"
    by (simp add: message_headers_eq)
  obtain m sa2 where pr: "protect ev rnd [] sa' buf IKE_HDR_SIZE d np (Some (num, tot) \<noteq> None) = Some (Some m, sa2, [])"
    and sa2: "sa_static sa' sa2" and m: "datagram ev sa' (Some (num, tot)) np d m" "IKE_HDR_SIZE \<le> length m"
      "length m + 4 \<le> IKED_MSGBUF_MAX"
    by (rule protect_datagram[OF ev sa'(1) d buf peer(1) sa'(2)])
  obtain st' sa'' where send:
    "ikev2_msg_send (Some a) ((ikev2_msg_init sa2 msgid response)\<lparr>om_data := m\<rparr>) (set_sa a sa2 st) = Some (0, st')"
    "sn_wire st' = sn_wire st @ [sent_to sa m]" "can_send a sa'' st'" "same_sender ev sa sa''"
    by (rule send_datagram[OF sa sa2 sa2 m(2,3)])
  have al: "st\<lparr>sn_alloc := []\<rparr> = st"
    using st(1) by (cases st) simp
  have "send_fragment ev rnd a msgid exchange np response num tot d st =
      Some (True, st'\<lparr>ikes_frag_sent := ikes_frag_sent st' + 1\<rparr>)"
    using st buf pr send(1) d by (simp add: send_fragment_def take_ok_nil[OF st(1)] buf_new_eq al)
  then show ?thesis
    by (rule that[OF _ _ _ send(4) datagram_same[OF sa(1) m(1)]]) (use send(2,3) in \<open>simp_all add: can_send_def\<close>)
qed


text \<open>The parts of a payload.\<close>

fun parts :: "nat \<Rightarrow> nat \<Rightarrow> byte list \<Rightarrow> byte list list" where
  "parts max_len 0 d = []"
| "parts max_len (Suc n) d = take max_len d # parts max_len n (drop max_len d)"

lemma length_parts [simp]: "length (parts max_len n d) = n"
  by (induction n arbitrary: d) auto

lemma concat_parts: "length d \<le> n * max_len \<Longrightarrow> concat (parts max_len n d) = d"
  by (induction n arbitrary: d) auto

lemma send_fragments_ok:
  assumes ev: "evp_ok ev" and max: "max_len + 136 \<le> IKED_MSGBUF_MAX" and peer: "sa_crypto_ok ev px" "sa_peers sa px"
  shows "same_sender ev sa sa' \<Longrightarrow> can_send a sa' st \<Longrightarrow>
    \<exists>st' ms sa''. send_fragments ev rnd a msgid exchange np response max_len tot num d n st = Some (True, st') \<and>
      sn_wire st' = sn_wire st @ map (sent_to sa) ms \<and> can_send a sa'' st' \<and> same_sender ev sa sa'' \<and> length ms = n \<and>
      (\<forall>j<n. datagram ev sa (Some (num + j, tot)) (if j = 0 then np else 0) (parts max_len n d ! j) (ms ! j))"
proof (induction n arbitrary: sa' st np num d)
  case 0
  then show ?case by auto
next
  case (Suc n)
  obtain st1 sa1 m where one:
    "send_fragment ev (rnd num) a msgid exchange np response num tot (take max_len d) st = Some (True, st1)"
    "sn_wire st1 = sn_wire st @ [sent_to sa m]" "can_send a sa1 st1" "same_sender ev sa sa1"
    "datagram ev sa (Some (num, tot)) np (take max_len d) m"
    by (rule send_fragment_ok[OF ev Suc.prems _ peer]) (use max in auto)
  obtain st' ms sa'' where more:
    "send_fragments ev rnd a msgid exchange 0 response max_len tot (num + 1) (drop max_len d) n st1 = Some (True, st')"
    "sn_wire st' = sn_wire st1 @ map (sent_to sa) ms" "can_send a sa'' st'" "same_sender ev sa sa''" "length ms = n"
    "\<And>j. j < n \<Longrightarrow> datagram ev sa (Some (num + 1 + j, tot)) 0 (parts max_len n (drop max_len d) ! j) (ms ! j)"
    using Suc.IH[OF one(4,3), of 0 "num + 1" "drop max_len d"] by auto
  have "datagram ev sa (Some (num + j, tot)) (if j = 0 then np else 0) (parts max_len (Suc n) d ! j) ((m # ms) ! j)" if "j < Suc n" for j
    using one(5) more(6)[of "j - 1"] that by (cases j) auto
  then show ?case
    using one(1,2) more(1-5) by (intro exI[of _ st'] exI[of _ "m # ms"] exI[of _ sa'']) simp
qed

definition part_size :: "iked_sa \<Rightarrow> nat" where
  "part_size sa =
     (case (sa_encr sa, sa_integr sa) of
        (Some encr, Some hash) \<Rightarrow> frag_maxlen sa - cipher_ivlength encr - cipher_length encr - hash_length hash
      | _ \<Rightarrow> 0)"

lemma part_size_bounds:
  assumes ev: "evp_ok ev" and sa: "sa_crypto_ok ev sa"
  shows "424 \<le> part_size sa" "part_size sa \<le> 1204"
proof -
  obtain encr hash where sae: "sa_encr sa = Some encr" "sa_integr sa = Some hash" and wf: "cipher_wf ev encr" "hash_wf hash"
    by (rule sa_crypto_okE[OF sa]) blast
  have "cipher_length encr \<le> 16" "cipher_ivlength encr \<le> 16" "hash_length hash \<le> 64"
    using cipher_sizes_le[OF ev wf(1)] hash_length_bounds[OF wf(2)] by auto
  then show "424 \<le> part_size sa" "part_size sa \<le> 1204"
    by (auto simp: part_size_def sae frag_maxlen_def)
qed

text \<open>The message number and the SA that takes it.\<close>

lemma message_id_same: "message_id response sa = (msgid, sa') \<Longrightarrow> same_sender ev sa0 sa' = same_sender ev sa0 sa \<and>
    part_size sa' = part_size sa \<and> sa_requests sa' = sa_requests sa \<and> sa_responses sa' = sa_responses sa \<and> sa_fragments sa' = sa_fragments sa"
  by (auto simp: message_id_def ikev2_msg_id_def part_size_def frag_maxlen_def split: if_splits option.splits)

lemma send_encrypted_fragments_ok:
  assumes ev: "evp_ok ev" and sa: "same_sender ev sa0 sa" "can_send a sa st" and peer: "sa_crypto_ok ev px" "sa_peers sa0 px"
  obtains st' ms where
    "ikev2_send_encrypted_fragments ev rnd a d exchange np response st = Some (0, st')"
    "sn_wire st' = sn_wire st @ map (sent_to sa0) ms" "length ms = length d div part_size sa + 1"
    "\<And>i. i < length ms \<Longrightarrow> datagram ev sa0 (Some (Suc i, length ms)) (if i = 0 then np else 0)
      (parts (part_size sa) (length ms) d ! i) (ms ! i)"
proof -
  have ok: "sa_crypto_ok ev sa"
    using sa(1) by (simp add: same_sender_def)
  note ps = part_size_bounds[OF ev ok]
  obtain encr hash where sae: "sa_encr sa = Some encr" "sa_integr sa = Some hash"
    by (rule sa_crypto_okE[OF ok]) blast
  have us: "usub (usub (usub (frag_maxlen sa) (cipher_ivlength encr)) (cipher_length encr)) (hash_length hash) = part_size sa"
    using ps(1) by (auto simp: part_size_def sae usub_def add.assoc)
  obtain msgid sa1 where id: "message_id response sa = (msgid, sa1)"
    by (cases "message_id response sa")
  have st1: "can_send a sa1 (set_sa a sa1 st)" "same_sender ev sa0 sa1"
    using message_id_same[OF id] sa can_send_set[OF sa(2), of sa1] by (auto simp: can_send_def)
  let ?n = "length d div part_size sa + 1"
  obtain st' ms sa'' where s: "send_fragments ev rnd a msgid exchange np response (part_size sa) ?n 1 d ?n (set_sa a sa1 st) = Some (True, st')"
    "sn_wire st' = sn_wire (set_sa a sa1 st) @ map (sent_to sa0) ms" "length ms = ?n"
    "\<forall>j<?n. datagram ev sa0 (Some (1 + j, ?n)) (if j = 0 then np else 0) (parts (part_size sa) ?n d ! j) (ms ! j)"
    using send_fragments_ok[OF ev _ peer st1(2,1), of "part_size sa" rnd msgid exchange np response ?n 1 d ?n] ps(2) by auto
  have "sa_heap (sn_env st) a = Some sa"
    using sa(2) by (simp add: can_send_def)
  then have "ikev2_send_encrypted_fragments ev rnd a d exchange np response st = Some (0, st')"
    using s(1) ps(1) unfolding ikev2_send_encrypted_fragments_def by (simp add: sae us id Let_def del: send_fragments.simps)
  then show ?thesis
    by (rule that[OF _ _ s(3)]) (use s(2-4) in \<open>auto simp: set_sa_def\<close>)
qed


lemma zero_msg_simps [simp]:
  "msg_data (zero_msg p l b pol sao m al) = m" "msg_sa (zero_msg p l b pol sao m al) = sao"
  "ps_alloc (zero_msg p l b pol sao m al) = al"
  by (simp_all add: zero_msg_def)

lemma set_sa_simps [simp]:
  "sn_alloc (set_sa a sa st) = sn_alloc st" "sn_wire (set_sa a sa st) = sn_wire st"
  by (simp_all add: set_sa_def)

lemma send_single_ok:
  assumes cf: "evp_ok (pc_evp cf)" "pc_verbose cf < 3" and sa: "sa_crypto_ok (pc_evp cf) sa" "can_send a sa st"
    and frag: "frag_arr (sa_fragments sa) = None" and peer: "sa_crypto_ok (pc_evp cf) px" "sa_peers sa px"
    and d: "length d + 136 \<le> IKED_MSGBUF_MAX" and one: "\<not> ikev2_check_frag_oversize (Some sa) (length d)"
  obtains st' m where "ikev2_msg_send_encrypt cf rnd a d exchange np response st = Some (0, st')"
    "sn_wire st' = sn_wire st @ [sent_to sa m]" "datagram (pc_evp cf) sa None np d m"
proof -
  let ?ev = "pc_evp cf"
  obtain msgid sa1 where id: "message_id response sa = (msgid, sa1)"
    by (cases "message_id response sa")
  have same: "same_sender ?ev sa sa"
    using sa(1) by (simp add: same_sender_def)
  then have ss: "same_sender ?ev sa sa1" and st1: "can_send a sa1 (set_sa a sa1 st)" and f1: "sa_fragments sa1 = sa_fragments sa"
    using message_id_same[OF id] sa(2) can_send_set[OF sa(2), of sa1] by (auto simp: can_send_def)
  have ok1: "sa_crypto_ok ?ev sa1" "sa_peers sa1 px"
    using ss peer(2) by (simp_all add: same_sender_def)
  obtain buf where buf: "message_headers sa1 msgid exchange response None = Some buf"
    by (simp add: message_headers_eq)
  obtain m sa2 where pr: "protect ?ev (rnd 0) [] sa1 buf IKE_HDR_SIZE d np (None \<noteq> (None :: (nat \<times> nat) option)) = Some (Some m, sa2, [])"
    and sa2: "sa_static sa1 sa2" and m: "datagram ?ev sa1 None np d m" "IKE_HDR_SIZE \<le> length m" "length m + 4 \<le> IKED_MSGBUF_MAX"
    by (rule protect_datagram[OF cf(1) ok1(1) d buf peer(1) ok1(2)])
  obtain sa0 msgid0 exchange0 response0 body where
    mb: "m = sent_header sa0 msgid0 exchange0 response0 None np (length body) @ body" "length body \<le> IKED_MSGBUF_MAX"
    and sl: "sealed_for ?ev sa1 m body d" and role: "sh_initiator sa0 = sh_initiator sa1"
    using m(1) unfolding datagram_def by blast
  let ?msg = "(ikev2_msg_init sa2 msgid response)\<lparr>om_data := m\<rparr>"
  let ?s = "zero_msg (om_peer ?msg) (om_local ?msg) response None (Some sa2) m []"
  have s2: "sa_crypto_ok ?ev sa2" "sh_initiator sa0 = sh_initiator sa2" "frag_arr (sa_fragments sa2) = None"
    using sa_static_crypto[OF sa2] ok1(1) role f1 frag by auto
  obtain s' sa3 where own: "ikev2_pld_parse cf 0 ?s = Some (0, s')" "msg_sa s' = Some sa3" "sa_static sa2 sa3" "ps_alloc s' = []"
    by (rule parse_own[OF cf(2), of ?s m sa2 sa0 msgid0 exchange0 response0 np body sa1 d])
      (use mb sl sa2 s2 in simp_all)
  obtain st' sa'' where send: "ikev2_msg_send (Some a) ?msg (set_sa a sa3 (set_sa a sa1 st)) = Some (0, st')"
    "sn_wire st' = sn_wire (set_sa a sa1 st) @ [sent_to sa m]"
    by (rule send_datagram[OF ss st1 sa2 sa_static_trans[OF sa2 own(3)] m(2,3)])
  have st: "sn_alloc st = []" "sa_heap (sn_env st) a = Some sa"
    using sa(2) by (simp_all add: can_send_def)
  have twice: "set_sa a sa3 ((set_sa a sa2 ((set_sa a sa1 st)\<lparr>sn_alloc := []\<rparr>))\<lparr>sn_alloc := []\<rparr>) = set_sa a sa3 (set_sa a sa1 st)"
    using st(1) by (cases st) (simp add: set_sa_def put_sa_def)
  have "ikev2_msg_send_encrypt cf rnd a d exchange np response st = Some (0, st')"
    using st one id buf pr own send(1) twice
    by (simp add: ikev2_msg_send_encrypt_def take_ok_nil[OF st(1)] Let_def)
  then show ?thesis
    by (rule that[OF _ _ datagram_same[OF ss m(1)]]) (use send(2) in simp)
qed


subsection \<open>End to end\<close>

text \<open>A permutation of a list visits its positions in some order.\<close>

lemma mset_eq_map_nth:
  "mset xs = mset ys \<Longrightarrow> \<exists>is. distinct is \<and> set is = {..<length ys} \<and> xs = map ((!) ys) is"
proof (induction xs arbitrary: ys)
  case (Cons x xs)
  obtain k where k: "k < length ys" "ys ! k = x"
    using mset_eq_setD[OF Cons.prems, symmetric] in_set_conv_nth[of x ys] by auto
  define zs where "zs = take k ys @ drop (Suc k) ys"
  have len: "length zs = length ys - 1"
    using k(1) by (simp add: zs_def)
  have "mset ys = add_mset x (mset zs)"
    by (subst id_take_nth_drop[OF k(1)]) (simp add: zs_def k(2))
  then obtain js where js: "distinct js" "set js = {..<length zs}" "xs = map ((!) zs) js"
    using Cons.IH[of zs] Cons.prems by auto
  define f where "f i = (if i < k then i else Suc i)" for i
  have inj: "inj_on f A" and k': "k \<notin> f ` A" for A
    by (auto simp: inj_on_def f_def split: if_splits)
  let ?is = "k # map f js"
  have d: "distinct ?is"
    using js(1) inj k' by (simp add: distinct_map)
  have "f i < length ys" if "i < length zs" for i
    using that k(1) len by (auto simp: f_def)
  then have "set ?is \<subseteq> {..<length ys}"
    using js(2) k(1) by auto
  moreover have "card (set ?is) = card {..<length ys}"
    using distinct_card[OF d] distinct_card[OF js(1)] js(2) len k(1) by simp
  ultimately have all: "set ?is = {..<length ys}"
    by (intro card_subset_eq) simp_all
  have nth: "zs ! i = ys ! f i" if "i < length zs" for i
    using that k(1) by (simp add: zs_def f_def nth_append)
  have "x # xs = map ((!) ys) ?is"
    using js(2,3) k(2) nth by auto
  then show ?case
    using d all by (intro exI[of _ ?is] conjI)
qed simp

text \<open>What the socket of the other end hands on.\<close>

lemma received_datagram:
  assumes m: "datagram ev sa frag np d m" and port: "(port = nattport) = sa_natt sa"
  shows "ikev2_msg_cb nattport port True (natt_mark sa @ m) = Some (sa_natt sa, m)"
proof -
  obtain sa1 msgid exchange response body where h: "m = sent_header sa1 msgid exchange response frag np (length body) @ body"
    and len: "length m \<le> IKED_MSGBUF_MAX"
    using m unfolding datagram_def by blast
  have "m ! 17 = 0x20"
    by (simp add: h sent_header_def header_start_def nth_append)
  moreover have "28 < length m"
    by (simp add: h)
  ultimately show ?thesis
    using len port by (auto simp: ikev2_msg_cb_def natt_mark_def buf_new_eq Let_def)
qed

end
