(* ===== verification/Spec2Isabelle.thy ===== *)
theory Spec2Isabelle
  imports Imsg Sa_Step Delivery
begin

text \<open>
  \<^bold>\<open>OpenIKED portable: a verification development.\<close>

  The repository is the IKEv2 daemon of OpenBSD with its compatibility layer.  The daemon reads its
  configuration in a parent process and hands policies to the IKE process over pipes; the IKE
  process parses the messages of its peers, looks for a policy, negotiates proposals, and keeps the
  IKE SAs (security associations) in tables.  This development models the parts below and leaves out
  the ones listed at the end.

  \<^bold>\<open>Conventions.\<close>  C structures are records and C functions are functions with the same name.  An outer
  \<open>option\<close> is \<open>None\<close> where the C code would access memory outside an object or after it is freed,
  dereference a null pointer, call \<^verbatim>\<open>fatal\<close> or not return; a theorem that a call is \<open>Some\<close> says that
  none of this happens.  \<open>Inl e\<close> is an error return with \<^verbatim>\<open>errno\<close>.  Memory allocation and system calls
  are arguments: a Boolean (\<open>ok\<close>) or the result.  Machine integers are words of their width.

  \<^bold>\<open>Theories.\<close>

  \<^item> \<open>Prelude\<close>: byte strings, big- and little-endian integers, memory reads and writes.

  \<^item> \<open>Ibuf\<close>, \<open>Msgbuf\<close>, \<open>Imsg\<close>: the message library (compat/imsg-buffer.c, compat/imsg.c,
    iked/imsg\_util.c).  A buffer is a record with its allocation and its read and write positions;
    every function of the files is modelled.  Theorems: no sequence of calls leaves the allocation;
    typed writes are read back; messages written to one end of a channel arrive at the other end
    unchanged and in order, however the kernel splits them; reading is safe and ends on any input.

  \<^item> \<open>Util\<close>: addresses, netmasks and strings (iked/util.c, compat/ffs.c).  Theorems: comparison of
    addresses under a prefix, netmask round trips, \<^verbatim>\<open>expand_string\<close>.

  \<^item> \<open>Proposal\<close>: proposals and transforms (iked/config.c, iked/policy.c, iked/parse.y).  Theorems: when
    negotiation succeeds, what it stores, and a null pointer after a failed allocation.

  \<^item> \<open>Rbtree\<close>: the red-black trees of compat/tree.h as trees with paths to the root.  The locale
    \<open>key_order\<close> is the contract of a comparison function; in it the macros refine a sorted list.  It is
    interpreted for the flows of a policy (\<open>Policy\<close>) and for the SA table (\<open>Sa_Inv\<close>).

  \<^item> \<open>Policy\<close>: flows, traffic selectors, skip steps and the policy lookup (iked/policy.c).  Theorems: the
    lookup ends and returns a matching policy, when it equals a linear scan, and the cases in which
    the skip steps lose a match.

  \<^item> \<open>Sa\<close>, \<open>Sa_Inv\<close>, \<open>Sa_Step\<close>: the IKE SAs with their states, the tables by SPI and by peer identity, the
    references to policies, the links of rekeying, the counters and the reset of the configuration
    (iked/policy.c, iked/config.c, parts of iked/ikev2.c).  SAs and policies are shared objects in two
    stores.  \<open>Sa\<close> has the definitions, \<open>Sa_Inv\<close> the invariant \<open>env_inv\<close> and its preservation by every
    operation, \<open>Sa_Step\<close> the step relation, the reachable states and the theorems about them.

  \<^item> \<open>Crypto\<close>: the hash and cipher objects of iked/crypto.c.  The EVP functions of OpenSSL are the record
    \<open>evp\<close>, an argument of every definition; \<open>evp_ok\<close> states the documented contract (sizes, decryption
    inverts encryption, the final call of GCM accepts the tag of the same input).

  \<^item> \<open>Ikemsg\<close>: encryption, checksums and decryption of messages (iked/ikev2\_msg.c).  Theorems: what one
    peer protects the other one reads back, and a plaintext is only returned for a message with the
    right HMAC or tag.

  \<^item> \<open>Pld\<close>, \<open>Pld_Safe\<close>, \<open>Pld_Auth\<close>: the parser of messages (iked/ikev2\_pld.c, the functions of iked/ikev2.c and
    iked/eap.c it calls) with the reassembly of fragments.  \<open>Pld\<close> has the definitions; \<open>Pld_Safe\<close> shows that
    they read inside their buffers, return, and keep the invariant of the stored fragments; \<open>Pld_Auth\<close>
    shows that an unauthenticated message does not reach the protected fields, and two defects.

  \<^bold>\<open>Loops.\<close>  Loops over lists and trees are structural recursion.  The loops of \<^verbatim>\<open>ibuf_read_process\<close>,
  \<^verbatim>\<open>expand_string\<close>, \<^verbatim>\<open>policy_test\<close> and \<^verbatim>\<open>config_doreset\<close> are partial functions into \<open>option\<close> or have a
  termination measure; that they return is a theorem.  There is no fuel.

  \<^bold>\<open>Not modelled.\<close>  The exchanges of iked/ikev2.c and the sockets, queues and timers of iked/ikev2\_msg.c apart from the
  functions named above; signatures (iked/crypto.c) and the key exchange (iked/dh.c, iked/sntrup761.c,
  iked/smult\_curve25519\_ref.c), which rest on OpenSSL or are reference code of their algorithms;
  certificates and OCSP (iked/ca.c, iked/ocsp.c), which are calls of OpenSSL; the kernel interfaces
  (iked/pfkey.c, iked/ipsec.c, iked/vroute.c, iked/vroute-netlink.c), processes, logging and the
  control socket (iked/proc.c, iked/control.c, iked/log.c, iked/iked.c), which are system calls; the
  grammar of iked/parse.y apart from the cipher table; the sending side of EAP (iked/eap.c,
  iked/chap\_ms.c); the tools
  (ikectl) and the remaining compatibility functions.
\<close>

end
